(* ===== verification/Prelude.thy ===== *)
theory Prelude
  imports Main "HOL-Library.Word" "HOL-Library.Finite_Map" "HOL-Library.Char_ord"
    "HOL-Library.List_Lexorder" "HOL-Library.Sublist"
begin

text \<open>
  Shared vocabulary of the development: the names of the model's base types, the collections of
  rewrite rules the component proofs draw on, the outcome type of fallible Go functions, the order
  in which a Go \<open>range\<close> loop visits a map, and generic lemmas on lists, finite maps and numbers.

  A Go map is an \<open>fmap\<close>. A loop over a Go map visits its keys in an unspecified order; the
  model gives every such loop the visiting order as an argument, a list that
  \<open>ranges_over\<close> accepts, so that a theorem about the loop holds for every order the
  runtime may choose.
\<close>

type_synonym u8 = "8 word"
type_synonym u64 = "64 word"

text \<open>Instants and durations, in nanoseconds.\<close>

type_synonym time = int
type_synonym duration = int

text \<open>A Go \<open>error\<close> value is known by its message; \<open>Inl\<close> is the failed call.\<close>

type_synonym error = string
type_synonym 'a result = "error + 'a"

text \<open>
  What a call does that may also panic (a nil dereference, a close or a send on a closed channel)
  or block for ever (a send on a full channel nobody can drain).
\<close>

datatype 'a outcome = Ok 'a | Panic | Blocked

primrec obind :: "'a outcome \<Rightarrow> ('a \<Rightarrow> 'b outcome) \<Rightarrow> 'b outcome" where
  "obind (Ok x) f = f x"
| "obind Panic f = Panic"
| "obind Blocked f = Blocked"

lemma obind_Ok_iff: "obind x f = Ok y \<longleftrightarrow> (\<exists>z. x = Ok z \<and> f z = Ok y)"
  by (cases x) auto

text \<open>Rewrite rules of the components: what the operations leave of each state.\<close>

named_theorems ip_simps
named_theorems pool_simps
named_theorems store_simps
named_theorems tenant_simps
named_theorems api_simps

section \<open>Map iteration\<close>

definition ranges_over :: "'k list \<Rightarrow> ('k, 'v) fmap \<Rightarrow> bool" where
  "ranges_over ks m \<longleftrightarrow> distinct ks \<and> set ks = fmdom' m"

text \<open>The values a loop over \<open>m\<close> in the order \<open>ks\<close> delivers.\<close>

definition range_values :: "'k list \<Rightarrow> ('k, 'v) fmap \<Rightarrow> 'v list" where
  "range_values ks m = List.map_filter (fmlookup m) ks"

lemma map_filter_cons_simps [simp]:
  "List.map_filter f [] = []"
  "List.map_filter f (x # xs) =
     (case f x of None \<Rightarrow> List.map_filter f xs | Some y \<Rightarrow> y # List.map_filter f xs)"
  by (simp_all add: List.map_filter_def split: option.splits)

lemma set_range_values: "set (range_values ks m) = {v. \<exists>k \<in> set ks. fmlookup m k = Some v}"
  unfolding range_values_def by (induction ks) (auto split: option.splits)

lemma ranges_over_memberD: "ranges_over ks m \<Longrightarrow> fmlookup m k = Some v \<Longrightarrow> k \<in> set ks"
  by (simp add: ranges_over_def fmdom'I)

lemma ranges_over_set_values:
  "ranges_over ks m \<Longrightarrow> set (range_values ks m) = fmran' m"
  by (auto simp: set_range_values ranges_over_def fmran'_alt_def fmlookup_ran_iff)
    (metis fmdom'I)

lemma range_values_length: "ranges_over ks m \<Longrightarrow> length (range_values ks m) = fcard (fmdom m)"
proof -
  assume ks: "ranges_over ks m"
  then have "\<forall>k \<in> set ks. fmlookup m k \<noteq> None"
    by (auto simp: ranges_over_def fmlookup_dom'_iff)
  then have "length (range_values ks m) = length ks"
    unfolding range_values_def by (induction ks) auto
  with ks show ?thesis
    by (simp add: ranges_over_def fcard.rep_eq fmdom'_alt_def distinct_card [symmetric])
qed

text \<open>Every finite map has a visiting order.\<close>

lemma ranges_over_exists: "\<exists>ks. ranges_over ks m"
proof -
  have "finite (fmdom' m)" by (simp add: fmdom'_alt_def)
  then obtain ks where "set ks = fmdom' m" "distinct ks"
    using finite_distinct_list by blast
  then show ?thesis by (auto simp: ranges_over_def)
qed

section \<open>Finite maps\<close>

lemma fmlookup_fmupd_same [simp]: "fmlookup (fmupd k v m) k = Some v"
  by simp

lemma fmap_eqI: "(\<And>k. fmlookup m k = fmlookup n k) \<Longrightarrow> m = n"
  by (rule fmap_ext)

section \<open>Lists\<close>

text \<open>\<open>strings.Split\<close> on one separating character.\<close>

fun split_on :: "'a \<Rightarrow> 'a list \<Rightarrow> 'a list list" where
  "split_on c [] = [[]]"
| "split_on c (x # xs) =
     (if x = c then [] # split_on c xs
      else (case split_on c xs of [] \<Rightarrow> [[x]] | p # ps \<Rightarrow> (x # p) # ps))"

lemma split_on_no_sep [simp]: "c \<notin> set xs \<Longrightarrow> split_on c xs = [xs]"
  by (induction xs) auto

lemma split_on_append_sep: "c \<notin> set xs \<Longrightarrow> split_on c (xs @ c # ys) = xs # split_on c ys"
  by (induction xs) auto

lemma split_on_parts: "p \<in> set (split_on c xs) \<Longrightarrow> c \<notin> set p"
  by (induction xs arbitrary: p) (auto split: if_splits list.splits)

lemma length_4_cases:
  assumes "length xs = 4"
  obtains a b c d where "xs = [a, b, c, d]"
  using assms by (auto simp: numeral_eq_Suc length_Suc_conv)

section \<open>Numbers\<close>

lemma div_eq_interval:
  "0 < m \<Longrightarrow> q = a div m \<longleftrightarrow> m * q \<le> a \<and> a < m * q + (m :: nat)"
  using div_nat_eqI [of m q a] times_div_less_eq_dividend [of m a] dividend_less_times_div [of m a]
  by auto

text \<open>Walking up by one modulo \<open>m\<close> comes closer to any other residue.\<close>

lemma mod_walk_closer:
  assumes "a < m" "b < m" "a \<noteq> (b :: nat)"
  shows "(b + m - (a + 1) mod m) mod m < (b + m - a) mod m"
proof (cases "a + 1 = m")
  case True
  with assms have "(b + m - a) mod m = b + 1" by simp
  with True assms show ?thesis by simp
next
  case False
  with assms(1) have step: "(a + 1) mod m = a + 1" by simp
  show ?thesis
  proof (cases "a < b")
    case True
    have "(b + m - (a + 1)) mod m = (b - (a + 1) + m) mod m"
      and "(b + m - a) mod m = (b - a + m) mod m"
      using True by simp_all
    moreover have "(b - (a + 1) + m) mod m = b - (a + 1)" and "(b - a + m) mod m = b - a"
      using assms by simp_all
    ultimately show ?thesis using True step by simp
  next
    case False
    with assms step show ?thesis by simp
  qed
qed

section \<open>Decimal text\<close>

text \<open>\<open>strconv.Itoa\<close> on a natural number, most significant digit first.\<close>

fun itoa :: "nat \<Rightarrow> string" where
  "itoa n = (if n < 10 then [char_of (48 + n)] else itoa (n div 10) @ [char_of (48 + n mod 10)])"

declare itoa.simps [simp del]

definition is_digit :: "char \<Rightarrow> bool" where
  "is_digit c \<longleftrightarrow> 48 \<le> (of_char c :: nat) \<and> (of_char c :: nat) \<le> 57"

definition digit_val :: "char \<Rightarrow> nat" where
  "digit_val c = of_char c - 48"

definition dec_val :: "string \<Rightarrow> nat" where
  "dec_val s = foldl (\<lambda>acc c. acc * 10 + digit_val c) 0 s"

lemma of_char_char_of_small: "n < 256 \<Longrightarrow> of_char (char_of n :: char) = (n :: nat)"
  by (simp add: of_char_of)

lemma digit_of_nat [simp]: "n < 10 \<Longrightarrow> digit_val (char_of (48 + n)) = n"
  by (simp add: digit_val_def of_char_char_of_small)

lemma is_digit_of_nat [simp]: "n < 10 \<Longrightarrow> is_digit (char_of (48 + n :: nat))"
  by (simp add: is_digit_def of_char_char_of_small)

lemma itoa_digits: "\<forall>c \<in> set (itoa n). is_digit c"
  by (induction n rule: itoa.induct) (subst itoa.simps, auto)

lemma itoa_nonempty: "itoa n \<noteq> []"
  by (subst itoa.simps) simp

lemma dec_val_itoa: "dec_val (itoa n) = n"
proof (induction n rule: itoa.induct)
  case (1 n)
  show ?case
  proof (cases "n < 10")
    case True
    then show ?thesis by (subst itoa.simps) (simp add: dec_val_def)
  next
    case False
    with "1.IH" show ?thesis by (subst itoa.simps) (simp add: dec_val_def)
  qed
qed

lemma itoa_inject: "itoa m = itoa n \<longleftrightarrow> m = n"
  by (metis dec_val_itoa)

lemma itoa_no_leading_zero: "1 < length (itoa n) \<Longrightarrow> hd (itoa n) \<noteq> CHR ''0''"
proof (induction n rule: itoa.induct)
  case (1 n)
  show ?case
  proof (cases "n < 10")
    case True
    with "1.prems" show ?thesis by (simp add: itoa.simps)
  next
    case False
    have eq: "hd (itoa n) = hd (itoa (n div 10))"
      using False itoa_nonempty by (simp add: itoa.simps [of n])
    show ?thesis
    proof (cases "1 < length (itoa (n div 10))")
      case True
      with "1.IH" False eq show ?thesis by simp
    next
      case short: False
      have "n div 10 < 10"
      proof (rule ccontr)
        assume "\<not> n div 10 < 10"
        then have "itoa (n div 10) = itoa (n div 10 div 10) @ [char_of (48 + n div 10 mod 10)]"
          by (simp add: itoa.simps [of "n div 10"])
        with short itoa_nonempty [of "n div 10 div 10"] show False
          by (cases "itoa (n div 10 div 10)") auto
      qed
      moreover from this have "itoa (n div 10) = [char_of (48 + n div 10)]"
        by (simp add: itoa.simps [of "n div 10"])
      moreover from False have "0 < n div 10" by simp
      moreover have "digit_val (CHR ''0'') = 0" by (simp add: digit_val_def)
      ultimately show ?thesis using eq digit_of_nat [of "n div 10"] by force
    qed
  qed
qed

lemma dot_not_digit: "\<not> is_digit CHR ''.''" and slash_not_digit: "\<not> is_digit CHR ''/''"
  by (simp_all add: is_digit_def)

end
