(* ===== verification/Go_Strings.thy ===== *)
theory Go_Strings
  imports Prelude
begin

text \<open>
  The part of Go's \<open>strings\<close> package the server uses. A Go string is a sequence of bytes,
  here a \<open>string\<close> (a list of 8-bit characters). \<open>TrimSpace\<close> removes every white
  space code point Go removes, in its UTF-8 encoding. \<open>ToLower\<close> and \<open>EqualFold\<close>
  fold the ASCII letters; the bytes of other code points are compared as they are.
\<close>

section \<open>White space\<close>

text \<open>
  The UTF-8 encodings of the code points \<open>unicode.IsSpace\<close> accepts: the six ASCII ones,
  U+0085, U+00A0, U+1680, U+2000 to U+200A, U+2028, U+2029, U+202F, U+205F and U+3000.
\<close>

definition space_codes :: "nat list list" where
  "space_codes =
     [[9], [10], [11], [12], [13], [32], [194, 133], [194, 160], [225, 154, 128]] @
     map (\<lambda>b. [226, 128, b]) [128, 129, 130, 131, 132, 133, 134, 135, 136, 137, 138, 168, 169, 175] @
     [[226, 129, 159], [227, 128, 128]]"

definition spaces :: "string list" where
  "spaces = map (map char_of) space_codes"

text \<open>Drops leading members of \<open>ws\<close> as long as there is one.\<close>

function trim_left :: "string list \<Rightarrow> string \<Rightarrow> string" where
  "trim_left ws s =
     (case find (\<lambda>w. w \<noteq> [] \<and> take (length w) s = w) ws of
        None \<Rightarrow> s
      | Some w \<Rightarrow> trim_left ws (drop (length w) s))"
  by pat_completeness auto
termination
proof (relation "measure (\<lambda>(ws, s). length s)")
  fix ws :: "string list" and s w
  assume "find (\<lambda>w. w \<noteq> [] \<and> take (length w) s = w) ws = Some w"
  then have "w \<noteq> [] \<and> take (length w) s = w"
    by (auto simp: find_Some_iff)
  then show "((ws, drop (length w) s), ws, s) \<in> measure (\<lambda>(ws, s). length s)"
    by (cases s) auto
qed simp

declare trim_left.simps [simp del]

definition trim_right :: "string list \<Rightarrow> string \<Rightarrow> string" where
  "trim_right ws s = rev (trim_left (map rev ws) (rev s))"

definition TrimSpace :: "string \<Rightarrow> string" where
  "TrimSpace s = trim_right spaces (trim_left spaces s)"

text \<open>Trimming again changes nothing at the same end, and never invents a byte.\<close>

lemma trim_left_idem: "trim_left ws (trim_left ws s) = trim_left ws s"
proof (induction ws s rule: trim_left.induct)
  case (1 ws s)
  show ?case
  proof (cases "find (\<lambda>w. w \<noteq> [] \<and> take (length w) s = w) ws")
    case None
    then show ?thesis by (simp add: trim_left.simps)
  next
    case (Some w)
    with "1.IH" show ?thesis by (simp add: trim_left.simps [of ws s])
  qed
qed

lemma set_trim_left: "set (trim_left ws s) \<subseteq> set s"
proof (induction ws s rule: trim_left.induct)
  case (1 ws s)
  show ?case
  proof (cases "find (\<lambda>w. w \<noteq> [] \<and> take (length w) s = w) ws")
    case None
    then show ?thesis by (simp add: trim_left.simps)
  next
    case (Some w)
    then have "trim_left ws s = trim_left ws (drop (length w) s)"
      by (simp add: trim_left.simps [of ws s])
    moreover have "set (trim_left ws (drop (length w) s)) \<subseteq> set (drop (length w) s)"
      using "1.IH" Some by simp
    ultimately show ?thesis using set_drop_subset [of "length w" s] by simp
  qed
qed

lemma set_TrimSpace: "set (TrimSpace s) \<subseteq> set s"
  unfolding TrimSpace_def trim_right_def
  using set_trim_left [of "map rev spaces" "rev (trim_left spaces s)"] set_trim_left [of spaces s]
  by auto

lemma trim_left_Nil [simp]: "trim_left ws [] = []"
  using set_trim_left [of ws "[]"] by auto

lemma TrimSpace_Nil [simp]: "TrimSpace [] = []"
  by (simp add: TrimSpace_def trim_right_def)

lemma trim_left_id:
  assumes "\<forall>w \<in> set ws. w \<noteq> [] \<longrightarrow> hd w \<notin> set s"
  shows "trim_left ws s = s"
proof -
  have "find (\<lambda>w. w \<noteq> [] \<and> take (length w) s = w) ws = None"
  proof (rule ccontr)
    assume "find (\<lambda>w. w \<noteq> [] \<and> take (length w) s = w) ws \<noteq> None"
    then obtain w where w: "w \<in> set ws" "w \<noteq> []" "take (length w) s = w"
      by (auto simp: find_None_iff)
    then have "hd w \<in> set s" by (metis hd_in_set in_set_takeD)
    with assms w show False by blast
  qed
  then show ?thesis by (subst trim_left.simps) simp
qed

text \<open>Text in which no byte begins or ends a white space code point is left as it is.\<close>

lemma TrimSpace_id:
  assumes "\<forall>w \<in> set spaces. hd w \<notin> set s \<and> last w \<notin> set s"
  shows "TrimSpace s = s"
proof -
  have "trim_left spaces s = s" using assms by (intro trim_left_id) blast
  moreover have "trim_left (map rev spaces) (rev s) = rev s"
    using assms by (intro trim_left_id) (auto simp: hd_rev)
  ultimately show ?thesis by (simp add: TrimSpace_def trim_right_def)
qed

text \<open>In particular visible ASCII text.\<close>

definition graphic :: "char \<Rightarrow> bool" where
  "graphic c \<longleftrightarrow> 33 \<le> (of_char c :: nat) \<and> (of_char c :: nat) \<le> 126"

lemma TrimSpace_graphic:
  assumes "list_all graphic s" shows "TrimSpace s = s"
proof -
  have "list_all (\<lambda>w. \<not> graphic (hd w) \<and> \<not> graphic (last w)) spaces"
    unfolding graphic_def spaces_def by code_simp
  then have "\<forall>w \<in> set spaces. \<not> graphic (hd w) \<and> \<not> graphic (last w)" by (simp add: list_all_iff)
  with assms show ?thesis by (intro TrimSpace_id) (auto simp: list_all_iff)
qed

section \<open>Case\<close>

definition ascii_lower :: "char \<Rightarrow> char" where
  "ascii_lower c = (let n = (of_char c :: nat) in
     if 65 \<le> n \<and> n \<le> 90 then char_of (n + 32) else c)"

definition ToLower :: "string \<Rightarrow> string" where
  "ToLower s = map ascii_lower s"

definition EqualFold :: "string \<Rightarrow> string \<Rightarrow> bool" where
  "EqualFold s t \<longleftrightarrow> ToLower s = ToLower t"

lemma ascii_lower_idem [simp]: "ascii_lower (ascii_lower c) = ascii_lower c"
proof (cases "65 \<le> (of_char c :: nat) \<and> (of_char c :: nat) \<le> 90")
  case True
  then have "(of_char (ascii_lower c) :: nat) = of_char c + 32"
    by (simp add: ascii_lower_def Let_def of_char_char_of_small)
  with True show ?thesis by (simp add: ascii_lower_def Let_def)
next
  case False
  then have "ascii_lower c = c" by (auto simp: ascii_lower_def Let_def)
  then show ?thesis by simp
qed

lemma ToLower_idem [simp]: "ToLower (ToLower s) = ToLower s"
  by (simp add: ToLower_def)

lemma EqualFold_ToLower_right [simp]: "EqualFold s (ToLower t) = EqualFold s t"
  by (simp add: EqualFold_def)

lemma EqualFold_refl [simp]: "EqualFold s s"
  by (simp add: EqualFold_def)

lemma EqualFold_length: "EqualFold s t \<Longrightarrow> length s = length t"
  by (auto simp: EqualFold_def ToLower_def dest: map_eq_imp_length_eq)

section \<open>Searching, joining and trimming\<close>

text \<open>\<open>%q\<close> of text with no character to escape.\<close>

definition quoted :: "string \<Rightarrow> string" where
  "quoted s = [CHR 0x22] @ s @ [CHR 0x22]"

text \<open>\<open>strings.LastIndex\<close> of one byte: its last position, or -1.\<close>

fun LastIndex :: "string \<Rightarrow> char \<Rightarrow> int" where
  "LastIndex [] c = -1"
| "LastIndex (x # xs) c =
     (let i = LastIndex xs c in if 0 \<le> i then i + 1 else if x = c then 0 else -1)"

lemma LastIndex_ge: "-1 \<le> LastIndex s c"
  by (induction s) (auto simp: Let_def)

lemma LastIndex_neg_iff: "LastIndex s c < 0 \<longleftrightarrow> c \<notin> set s"
  by (induction s) (auto simp: Let_def)

text \<open>What follows the last occurrence is free of further ones.\<close>

lemma drop_LastIndex:
  assumes "c \<notin> set t" shows "LastIndex (s @ c # t) c = int (length s)"
proof (induction s)
  case Nil
  from assms have "LastIndex t c < 0" by (simp add: LastIndex_neg_iff)
  then show ?case by (simp add: Let_def)
qed (simp add: Let_def)

fun join :: "string \<Rightarrow> string list \<Rightarrow> string" where
  "join sep [] = []"
| "join sep [x] = x"
| "join sep (x # y # zs) = x @ sep @ join sep (y # zs)"

text \<open>\<open>strings.Trim\<close>, \<open>strings.TrimRight\<close> with a one-byte cutset.\<close>

definition trim_char_right :: "char \<Rightarrow> string \<Rightarrow> string" where
  "trim_char_right c s = rev (dropWhile (\<lambda>x. x = c) (rev s))"

definition trim_char :: "char \<Rightarrow> string \<Rightarrow> string" where
  "trim_char c s = trim_char_right c (dropWhile (\<lambda>x. x = c) s)"

lemma set_trim_char: "set (trim_char c s) \<subseteq> set s"
  unfolding trim_char_def trim_char_right_def
  by (metis set_dropWhileD set_rev subsetI)

lemma hd_trim_char: "trim_char c s \<noteq> [] \<Longrightarrow> hd (trim_char c s) \<noteq> c"
proof -
  define t where "t = dropWhile (\<lambda>x. x = c) s"
  assume ne: "trim_char c s \<noteq> []"
  have eq: "trim_char c s = rev (dropWhile (\<lambda>x. x = c) (rev t))"
    by (simp add: trim_char_def trim_char_right_def t_def)
  have "suffix (rev (trim_char c s)) (rev t)"
    by (simp add: eq suffix_dropWhile)
  then have "prefix (trim_char c s) t"
    by (simp add: suffix_to_prefix)
  with ne have "hd (trim_char c s) = hd t" and "t \<noteq> []"
    by (auto simp: prefix_def)
  moreover from \<open>t \<noteq> []\<close> have "hd t \<noteq> c"
    unfolding t_def using hd_dropWhile [of "\<lambda>x. x = c" s] by simp
  ultimately show ?thesis by simp
qed

lemma last_trim_char: "trim_char c s \<noteq> [] \<Longrightarrow> last (trim_char c s) \<noteq> c"
  using hd_dropWhile [of "\<lambda>x. x = c"]
  by (auto simp: trim_char_def trim_char_right_def last_rev)

lemma trim_char_id:
  assumes "s \<noteq> [] \<Longrightarrow> hd s \<noteq> c \<and> last s \<noteq> c" shows "trim_char c s = s"
proof (cases s)
  case (Cons x xs)
  with assms have "dropWhile (\<lambda>x. x = c) s = s" and "dropWhile (\<lambda>x. x = c) (rev s) = rev s"
    by (simp_all add: dropWhile_eq_self_iff hd_rev del: rev.simps)
  then show ?thesis by (simp add: trim_char_def trim_char_right_def)
qed (simp add: trim_char_def trim_char_right_def)

end
