(* ===== verification/Go_Net.thy ===== *)
theory Go_Net
  imports Go_Strings
begin

unbundle bit_operations_syntax

text \<open>
  The part of Go's \<open>net\<close> package the server uses, on byte lists as Go has them: an address
  is 4 or 16 bytes, a network an address and a mask of the same width. \<open>addr\<close> reads an
  address as a number; the lemmas below turn the byte-wise mask tests of \<open>Contains\<close> into
  interval arithmetic on it.
\<close>

type_synonym ip = "u8 list"

record IPNet =
  net_IP :: ip
  net_Mask :: "u8 list"

section \<open>Addresses\<close>

definition v4InV6Prefix :: "u8 list" where
  "v4InV6Prefix = [0, 0, 0, 0, 0, 0, 0, 0, 0, 0, 255, 255]"

definition To4 :: "ip \<Rightarrow> ip option" where
  "To4 ip =
     (if length ip = 4 then Some ip
      else if length ip = 16 \<and> take 12 ip = v4InV6Prefix then Some (drop 12 ip)
      else None)"

text \<open>Go's \<open>nil\<close> slice, here the empty list, is what \<open>To4\<close> returns when there is no IPv4 form.\<close>

definition To4_bytes :: "ip \<Rightarrow> ip" where
  "To4_bytes ip = (case To4 ip of None \<Rightarrow> [] | Some b \<Rightarrow> b)"

definition ip_Equal :: "ip \<Rightarrow> ip \<Rightarrow> bool" where
  "ip_Equal ip x =
     (if length ip = length x then ip = x
      else if length ip = 4 \<and> length x = 16 then take 12 x = v4InV6Prefix \<and> ip = drop 12 x
      else if length ip = 16 \<and> length x = 4 then take 12 ip = v4InV6Prefix \<and> drop 12 ip = x
      else False)"

definition networkNumberAndMask :: "IPNet \<Rightarrow> (ip \<times> u8 list) option" where
  "networkNumberAndMask n =
     (case (case To4 (net_IP n) of
              Some b \<Rightarrow> Some b
            | None \<Rightarrow> if length (net_IP n) = 16 then Some (net_IP n) else None) of
        None \<Rightarrow> None
      | Some ip \<Rightarrow>
          (if length (net_Mask n) = 4 then (if length ip = 4 then Some (ip, net_Mask n) else None)
           else if length (net_Mask n) = 16
             then Some (ip, if length ip = 4 then drop 12 (net_Mask n) else net_Mask n)
           else None))"

definition masked_equal :: "ip \<Rightarrow> ip \<Rightarrow> u8 list \<Rightarrow> bool" where
  "masked_equal a b m \<longleftrightarrow> map2 (AND) a m = map2 (AND) b m"

definition Contains :: "IPNet \<Rightarrow> ip \<Rightarrow> bool" where
  "Contains n ip =
     (let (nn, m) = (case networkNumberAndMask n of None \<Rightarrow> ([], []) | Some p \<Rightarrow> p);
          x = (case To4 ip of None \<Rightarrow> ip | Some b \<Rightarrow> b)
      in length x = length nn \<and> masked_equal nn x m)"

text \<open>
  \<open>net.CIDRMask\<close> for a width of \<open>l\<close> bytes: \<open>^byte(0xff >> n)\<close> in the byte where the ones end.
\<close>

fun cidr_mask_bytes :: "nat \<Rightarrow> nat \<Rightarrow> u8 list" where
  "cidr_mask_bytes 0 n = []"
| "cidr_mask_bytes (Suc l) n =
     (if 8 \<le> n then 255 # cidr_mask_bytes l (n - 8)
      else NOT (drop_bit n 255) # cidr_mask_bytes l 0)"

definition CIDRMask :: "int \<Rightarrow> int \<Rightarrow> u8 list" where
  "CIDRMask ones bits =
     (if bits \<noteq> 32 \<and> bits \<noteq> 128 then []
      else if ones < 0 \<or> ones > bits then []
      else cidr_mask_bytes (nat bits div 8) (nat ones))"

text \<open>
  \<open>IPMask.Size\<close>: the number of leading ones and the width, or (0, 0) when the mask is not
  ones followed by zeros.
\<close>

fun leading_ones :: "nat \<Rightarrow> u8 \<Rightarrow> nat" where
  "leading_ones 0 v = 0"
| "leading_ones (Suc k) v = (if bit v k then Suc (leading_ones k v) else 0)"

fun simpleMaskLength :: "u8 list \<Rightarrow> int" where
  "simpleMaskLength [] = 0"
| "simpleMaskLength (v # m) =
     (if v = 255 then (let r = simpleMaskLength m in if r < 0 then -1 else 8 + r)
      else let k = leading_ones 8 v in
        if push_bit k v \<noteq> 0 \<or> (\<exists>b \<in> set m. b \<noteq> 0) then -1 else int k)"

definition Mask_Size :: "u8 list \<Rightarrow> int \<times> int" where
  "Mask_Size m =
     (let ones = simpleMaskLength m
      in if ones = -1 then (0, 0) else (ones, int (8 * length m)))"

section \<open>Text\<close>

definition dotted :: "u8 list \<Rightarrow> string" where
  "dotted bs = join ''.'' (map (\<lambda>b. itoa (unat b)) bs)"

definition hex_digit :: "nat \<Rightarrow> char" where
  "hex_digit n = (if n < 10 then char_of (48 + n) else char_of (87 + n))"

definition hex_bytes :: "u8 list \<Rightarrow> string" where
  "hex_bytes bs = concat (map (\<lambda>b. [hex_digit (unat b div 16), hex_digit (unat b mod 16)]) bs)"

text \<open>
  \<open>IPNet.String\<close> of an IPv4 network: the address, a slash and the prefix length, or the mask
  in hexadecimal when it is not a prefix.
\<close>

definition ipv4_net_String :: "IPNet \<Rightarrow> string" where
  "ipv4_net_String n =
     (case networkNumberAndMask n of
        None \<Rightarrow> ''<nil>''
      | Some (nn, m) \<Rightarrow>
          (let l = simpleMaskLength m
           in dotted nn @ ''/'' @ (if l = -1 then hex_bytes m else itoa (nat l))))"

text \<open>
  Reading dotted decimal, as \<open>netip.ParseAddr\<close> does: four fields of one to three digits, no
  leading zero, at most 255.
\<close>

definition parse_field :: "string \<Rightarrow> u8 option" where
  "parse_field s =
     (if s = [] \<or> \<not> list_all is_digit s then None
      else if 1 < length s \<and> hd s = CHR ''0'' then None
      else if 255 < dec_val s then None
      else Some (word_of_nat (dec_val s)))"

definition parse_ipv4 :: "string \<Rightarrow> ip option" where
  "parse_ipv4 s =
     (let fs = map parse_field (split_on CHR ''.'' s)
      in if length fs = 4 \<and> None \<notin> set fs then Some (map the fs) else None)"

text \<open>
  \<open>net.ParseCIDR\<close> on IPv4 text. The address is returned in its 16-byte form, the network
  with the host bits cleared.
\<close>

definition parse_ipv4_cidr :: "string \<Rightarrow> (ip \<times> IPNet) option" where
  "parse_ipv4_cidr s =
     (case split_on CHR ''/'' s of
        [a, l] \<Rightarrow>
          (case parse_ipv4 a of
             None \<Rightarrow> None
           | Some ip \<Rightarrow>
               if l = [] \<or> \<not> list_all is_digit l \<or> 32 < dec_val l then None
               else (let m = CIDRMask (int (dec_val l)) 32
                     in Some (v4InV6Prefix @ ip, \<lparr>net_IP = map2 (AND) ip m, net_Mask = m\<rparr>)))
      | _ \<Rightarrow> None)"

text \<open>
  \<open>IP.String\<close>. An address with an IPv4 form is dotted decimal; another 16-byte address is
  IPv6 text with its longest run of at least two zero groups written \<open>::\<close>.
\<close>

fun hex_nat :: "nat \<Rightarrow> string" where
  "hex_nat n = (if n < 16 then [hex_digit n] else hex_nat (n div 16) @ [hex_digit (n mod 16)])"

declare hex_nat.simps [simp del]

definition v6_groups :: "ip \<Rightarrow> nat list" where
  "v6_groups ip = map (\<lambda>i. 256 * unat (ip ! (2 * i)) + unat (ip ! (2 * i + 1))) [0..<8]"

definition zero_run :: "nat list \<Rightarrow> nat \<times> nat" where
  "zero_run gs =
     foldl (\<lambda>(s, e) i.
       let l = length (takeWhile (\<lambda>g. g = 0) (drop i gs))
       in if 2 \<le> l \<and> e - s < l then (i, i + l) else (s, e)) (255, 255) [0..<8]"

definition ipv6_String :: "ip \<Rightarrow> string" where
  "ipv6_String ip =
     (let gs = v6_groups ip; (s, e) = zero_run gs
      in if s = 255 then join '':'' (map hex_nat gs)
         else join '':'' (map hex_nat (take s gs)) @ ''::'' @ join '':'' (map hex_nat (drop e gs)))"

definition ip_String :: "ip \<Rightarrow> string" where
  "ip_String ip =
     (if ip = [] then ''<nil>''
      else case To4 ip of
        Some b \<Rightarrow> dotted b
      | None \<Rightarrow> if length ip = 16 then ipv6_String ip else ''?'' @ hex_bytes ip)"

section \<open>Addresses as numbers\<close>

text \<open>The big-endian value of an address.\<close>

definition addr :: "ip \<Rightarrow> nat" where
  "addr ip = horner_sum unat 256 (rev ip)"

lemma le_val_bound: "horner_sum unat 256 (bs :: u8 list) < 256 ^ length bs"
proof (induction bs)
  case (Cons b bs)
  have "unat b < 256" using unsigned_less [of b] by simp
  with Cons.IH show ?case by simp
qed simp

lemma base256_inject: "(a :: nat) < 256 \<Longrightarrow> b < 256 \<Longrightarrow> a + 256 * c = b + 256 * d \<longleftrightarrow> a = b \<and> c = d"
proof
  assume ab: "a < 256" "b < 256" and eq: "a + 256 * c = b + 256 * d"
  from eq have "(a + 256 * c) mod 256 = (b + 256 * d) mod 256" by (rule arg_cong)
  with ab have "a = b" by simp
  with eq show "a = b \<and> c = d" by simp
qed simp

lemma le_val_inject:
  "length xs = length ys \<Longrightarrow>
     horner_sum unat 256 (xs :: u8 list) = (horner_sum unat 256 ys :: nat) \<longleftrightarrow> xs = ys"
proof (induction xs ys rule: list_induct2)
  case (Cons x xs y ys)
  have x: "unat x < 256" and y: "unat y < 256"
    using unsigned_less [of x] unsigned_less [of y] by simp_all
  from base256_inject [OF x y] Cons.IH show ?case by (simp add: word_unat_eq_iff)
qed simp

lemma addr_inject: "length a = length b \<Longrightarrow> addr a = addr b \<longleftrightarrow> a = b"
  using le_val_inject [of "rev a" "rev b"] by (simp add: addr_def)

lemma addr_bound: "length a = 4 \<Longrightarrow> addr a < 2 ^ 32"
  using le_val_bound [of "rev a"] by (simp add: addr_def)

lemma int_le_val:
  "int (horner_sum unat 256 (bs :: u8 list)) = horner_sum uint (2 ^ 8) bs"
  by (induction bs) simp_all

lemma bit_addr:
  "bit (addr a) n \<longleftrightarrow> n div 8 < length a \<and> bit (rev a ! (n div 8)) (n mod 8)"
proof -
  have "bit (addr a) n \<longleftrightarrow> bit (int (addr a)) n"
    by (simp add: bit_of_nat_iff)
  also have "int (addr a) = horner_sum uint (2 ^ LENGTH(8)) (rev a)"
    by (simp add: addr_def int_le_val)
  finally show ?thesis by (simp only: bit_horner_sum_uint_exp_iff) simp
qed

lemma cidr_mask_bytes_length [simp]: "length (cidr_mask_bytes l p) = l"
  by (induction l p rule: cidr_mask_bytes.induct) auto

lemma bit_cidr_mask:
  assumes "p \<le> 32" "n < 32"
  shows "bit (rev (cidr_mask_bytes 4 p) ! (n div 8)) (n mod 8) \<longleftrightarrow> 32 - p \<le> n"
proof -
  have "list_all (\<lambda>p. list_all (\<lambda>n.
      bit (rev (cidr_mask_bytes 4 p) ! (n div 8)) (n mod 8) = (32 - p \<le> n)) [0..<32]) [0..<33]"
    by code_simp
  with assms show ?thesis by (simp add: list_all_iff)
qed

text \<open>An IPv4 network as \<open>ParseCIDR\<close> makes it: four masked bytes and the mask of a prefix length.\<close>

definition ipv4_net :: "IPNet \<Rightarrow> nat \<Rightarrow> bool" where
  "ipv4_net n p \<longleftrightarrow> p \<le> 32 \<and> length (net_IP n) = 4 \<and> net_Mask n = cidr_mask_bytes 4 p \<and>
     map2 (AND) (net_IP n) (net_Mask n) = net_IP n"

text \<open>Byte-wise operations are bit-wise on the number.\<close>

lemma bit_addr_map2:
  assumes "length a = 4" "length m = 4" "n < 32"
  shows "bit (addr (map2 f a m)) n \<longleftrightarrow> bit (f (rev a ! (n div 8)) (rev m ! (n div 8))) (n mod 8)"
  using assms
  by (simp add: bit_addr rev_map zip_rev [symmetric] less_mult_imp_div_less)

lemma bit_addr_small: "length a = 4 \<Longrightarrow> n < 32 \<Longrightarrow> bit (addr a) n \<longleftrightarrow> bit (rev a ! (n div 8)) (n mod 8)"
  by (simp add: bit_addr less_mult_imp_div_less)

lemma bit_addr_large:
  assumes "length a = 4" "\<not> n < 32" shows "\<not> bit (addr a) n"
proof -
  from assms(2) have "\<not> n div 8 < 4" by simp
  with assms(1) show ?thesis by (simp add: bit_addr)
qed

lemma masked_equal_div:
  assumes "p \<le> 32" "length a = 4" "length b = 4"
  shows "masked_equal a b (cidr_mask_bytes 4 p) \<longleftrightarrow>
    addr a div 2 ^ (32 - p) = addr b div 2 ^ (32 - p)"
proof -
  let ?m = "cidr_mask_bytes 4 p"
  have bits: "bit (addr (map2 (AND) x ?m)) n \<longleftrightarrow> 32 - p \<le> n \<and> bit (addr x) n"
    if "length x = 4" for x n
    using that assms(1)
    by (cases "n < 32")
      (auto simp: bit_addr_map2 bit_addr_small [of x] bit_addr_large bit_cidr_mask bit_and_iff
        simp del: cidr_mask_bytes.simps)
  have "masked_equal a b ?m \<longleftrightarrow> addr (map2 (AND) a ?m) = addr (map2 (AND) b ?m)"
    using assms by (simp add: masked_equal_def addr_inject)
  also have "\<dots> \<longleftrightarrow> (\<forall>n. 32 - p \<le> n \<longrightarrow> bit (addr a) n = bit (addr b) n)"
    using assms by (auto simp: bit_eq_iff bits)
  also have "\<dots> \<longleftrightarrow> drop_bit (32 - p) (addr a) = drop_bit (32 - p) (addr b)"
    by (simp add: bit_eq_iff bit_drop_bit_eq) (metis le_add1 le_add_diff_inverse)
  finally show ?thesis by (simp add: drop_bit_eq_div)
qed

section \<open>Networks as intervals\<close>

lemma To4_v4 [simp]: "length a = 4 \<Longrightarrow> To4 a = Some a"
  by (simp add: To4_def)

lemma To4_bytes_v4 [simp]: "length a = 4 \<Longrightarrow> To4_bytes a = a"
  by (simp add: To4_bytes_def)

lemma To4_length: "To4 a = Some b \<Longrightarrow> length b = 4"
  by (auto simp: To4_def split: if_splits)

lemma Contains_ipv4_net:
  assumes "ipv4_net n p" "length a = 4"
  shows "Contains n a \<longleftrightarrow> addr (net_IP n) div 2 ^ (32 - p) = addr a div 2 ^ (32 - p)"
  using assms
  by (simp add: Contains_def networkNumberAndMask_def ipv4_net_def masked_equal_div
      del: cidr_mask_bytes.simps)

text \<open>The host bits of a masked network address are zero.\<close>

lemma ipv4_net_aligned:
  assumes "ipv4_net n p" shows "2 ^ (32 - p) dvd addr (net_IP n)"
proof -
  from assms have m: "map2 (AND) (net_IP n) (cidr_mask_bytes 4 p) = net_IP n"
    unfolding ipv4_net_def by metis
  have "bit (addr (net_IP n)) i \<Longrightarrow> 32 - p \<le> i" for i
    using assms bit_addr_map2 [of "net_IP n" "cidr_mask_bytes 4 p" i "(AND)"]
      bit_addr_large [of "net_IP n" i]
    unfolding m by (auto simp: ipv4_net_def bit_and_iff bit_cidr_mask)
  then have "take_bit (32 - p) (addr (net_IP n)) = 0"
    by (fastforce simp: bit_eq_iff bit_take_bit_iff)
  then show ?thesis by (simp add: take_bit_eq_0_iff)
qed

lemma Contains_interval:
  assumes "ipv4_net n p" "length a = 4"
  shows "Contains n a \<longleftrightarrow> addr (net_IP n) \<le> addr a \<and> addr a < addr (net_IP n) + 2 ^ (32 - p)"
proof -
  obtain q where q: "addr (net_IP n) = 2 ^ (32 - p) * q"
    using ipv4_net_aligned [OF assms(1)] by (elim dvdE)
  have "q = addr a div 2 ^ (32 - p) \<longleftrightarrow> 2 ^ (32 - p) * q \<le> addr a \<and> addr a < 2 ^ (32 - p) * q + 2 ^ (32 - p)"
    by (simp add: div_eq_interval)
  with assms q show ?thesis by (simp add: Contains_ipv4_net)
qed

text \<open>The whole network lies below \<open>2 ^ 32\<close>.\<close>

lemma ipv4_net_top:
  assumes "ipv4_net n p" shows "addr (net_IP n) + 2 ^ (32 - p) \<le> 2 ^ 32"
proof -
  obtain q where q: "addr (net_IP n) = 2 ^ (32 - p) * q"
    using ipv4_net_aligned [OF assms] by (elim dvdE)
  have p: "(2 :: nat) ^ 32 = 2 ^ (32 - p) * 2 ^ p"
    using assms by (simp add: ipv4_net_def flip: power_add)
  have "addr (net_IP n) < 2 ^ 32" using assms unfolding ipv4_net_def by (intro addr_bound) simp
  then have "q < 2 ^ p" by (simp only: q p nat_mult_less_cancel_disj)
  then have "2 ^ (32 - p) * Suc q \<le> (2 :: nat) ^ (32 - p) * 2 ^ p"
    by (intro mult_le_mono2) simp
  then show ?thesis by (simp only: q p) simp
qed

section \<open>Dotted decimal, read back\<close>

lemma split_on_join:
  "ps \<noteq> [] \<Longrightarrow> \<forall>p \<in> set ps. c \<notin> set p \<Longrightarrow> split_on c (join [c] ps) = ps"
proof (induction ps rule: induct_list012)
  case (3 x y zs)
  then have "split_on c (join [c] (y # zs)) = y # zs" and "c \<notin> set x" by auto
  then show ?case by (simp add: split_on_append_sep)
qed auto

lemma parse_field_itoa: "parse_field (itoa (unat (b :: u8))) = Some b"
proof -
  have "unat b < 256" using unsigned_less [of b] by simp
  then show ?thesis
    using itoa_digits [of "unat b"] itoa_no_leading_zero [of "unat b"] itoa_nonempty [of "unat b"]
    by (simp add: parse_field_def dec_val_itoa list_all_iff)
qed

lemma parse_ipv4_dotted:
  assumes "length a = 4" shows "parse_ipv4 (dotted a) = Some a"
proof -
  have "split_on CHR ''.'' (dotted a) = map (\<lambda>b. itoa (unat b)) a"
    unfolding dotted_def
    by (rule split_on_join) (use assms itoa_digits dot_not_digit in fastforce)+
  with assms show ?thesis
    by (simp add: parse_ipv4_def parse_field_itoa o_def Let_def)
qed

lemma dotted_inject: "length a = 4 \<Longrightarrow> length b = 4 \<Longrightarrow> dotted a = dotted b \<longleftrightarrow> a = b"
  by (metis option.inject parse_ipv4_dotted)

lemma ip_String_v4 [simp]: "length a = 4 \<Longrightarrow> ip_String a = dotted a"
  by (auto simp: ip_String_def)

lemma ip_String_inject: "length a = 4 \<Longrightarrow> length b = 4 \<Longrightarrow> ip_String a = ip_String b \<longleftrightarrow> a = b"
  by (simp add: dotted_inject)

section \<open>The network of a parsed prefix\<close>

lemma map2_and_idem: "length a = length m \<Longrightarrow> map2 (AND) (map2 (AND) a m) m = map2 (AND) (a :: u8 list) m"
  by (induction a m rule: list_induct2) (simp_all add: and.assoc)

lemma parse_ipv4_length: "parse_ipv4 s = Some a \<Longrightarrow> length a = 4"
  by (auto simp: parse_ipv4_def Let_def split: if_splits)

lemma To4_in_v6: "length a = 4 \<Longrightarrow> To4 (v4InV6Prefix @ a) = Some a"
  by (auto simp: To4_def v4InV6Prefix_def)

lemma parse_ipv4_cidr_net:
  assumes "parse_ipv4_cidr s = Some (ip, n)"
  obtains p where "ipv4_net n p" "To4 ip \<noteq> None"
proof -
  obtain a l where s: "split_on CHR ''/'' s = [a, l]"
    using assms by (auto simp: parse_ipv4_cidr_def split: list.splits)
  obtain x where x: "parse_ipv4 a = Some x"
    using assms by (auto simp: parse_ipv4_cidr_def s split: option.splits)
  have l: "dec_val l \<le> 32" and ip: "ip = v4InV6Prefix @ x"
    and n: "n = \<lparr>net_IP = map2 (AND) x (CIDRMask (int (dec_val l)) 32), net_Mask = CIDRMask (int (dec_val l)) 32\<rparr>"
    using assms by (auto simp: parse_ipv4_cidr_def s x Let_def split: if_splits)
  have len: "length x = 4" by (rule parse_ipv4_length [OF x])
  have m: "CIDRMask (int (dec_val l)) 32 = cidr_mask_bytes 4 (dec_val l)"
    using l by (simp add: CIDRMask_def)
  have "ipv4_net n (dec_val l)"
    using l len by (simp add: ipv4_net_def n m map2_and_idem)
  moreover have "To4 ip \<noteq> None" by (simp add: ip To4_in_v6 [OF len])
  ultimately show ?thesis by (rule that)
qed

end
