(* ===== verification/Address_Pool.thy ===== *)
theory Address_Pool
  imports Prelude
begin

text \<open>
  The contract between the address allocator and the code that leases addresses: what
  \<open>allocate\<close> and \<open>release\<close> do to the set of busy addresses. The client side is proved once
  here: a table of leases in which no two keys share an address, and whose addresses together
  with the reserved one are exactly the busy addresses, stays so when a fresh key is given an
  allocated address and when a key's address is released.
\<close>

locale address_pool =
  fixes inv :: "'a \<Rightarrow> bool"
    and avail :: "'a \<Rightarrow> 'i set"
    and busy :: "'a \<Rightarrow> 'i set"
    and reserved :: "'a \<Rightarrow> 'i"
    and allocate :: "'a \<Rightarrow> 'i result \<times> 'a"
    and release :: "'a \<Rightarrow> 'i \<Rightarrow> 'a"
  assumes reserved_busy: "inv a \<Longrightarrow> reserved a \<in> busy a"
    and allocate_ok: "inv a \<Longrightarrow> allocate a = (Inr i, a') \<Longrightarrow>
      inv a' \<and> i \<in> avail a \<and> i \<notin> busy a \<and> busy a' = insert i (busy a) \<and>
      avail a' = avail a \<and> reserved a' = reserved a"
    and allocate_err: "inv a \<Longrightarrow> allocate a = (Inl e, a') \<Longrightarrow> a' = a \<and> avail a \<subseteq> busy a"
    and release_ok: "inv a \<Longrightarrow> i \<in> avail a \<Longrightarrow> i \<noteq> reserved a \<Longrightarrow>
      inv (release a i) \<and> busy (release a i) = busy a - {i} \<and>
      avail (release a i) = avail a \<and> reserved (release a i) = reserved a"
begin

definition leases :: "'a \<Rightarrow> ('k \<rightharpoonup> 'i) \<Rightarrow> bool" where
  "leases a l \<longleftrightarrow> inv a \<and> inj_on l (dom l) \<and> ran l \<subseteq> avail a \<and> reserved a \<notin> ran l \<and>
     busy a = insert (reserved a) (ran l)"

lemma leases_busy: "leases a l \<Longrightarrow> l k = Some i \<Longrightarrow> i \<in> busy a \<and> i \<in> avail a \<and> i \<noteq> reserved a"
  by (auto simp: leases_def ran_def)

lemma leases_distinct: "leases a l \<Longrightarrow> l k = Some i \<Longrightarrow> l k' = Some i \<Longrightarrow> k = k'"
  by (auto simp: leases_def inj_on_def dom_def)

lemma leases_allocate:
  assumes "leases a l" "l k = None" "allocate a = (Inr i, a')"
  shows "leases a' (l(k \<mapsto> i))"
proof -
  have ok: "inv a' \<and> i \<in> avail a \<and> i \<notin> busy a \<and> busy a' = insert i (busy a) \<and>
      avail a' = avail a \<and> reserved a' = reserved a"
    using assms by (intro allocate_ok) (simp_all add: leases_def)
  have "ran (l(k \<mapsto> i)) = insert i (ran l)"
    using assms(2) by (simp add: ran_map_upd)
  moreover have "inj_on (l(k \<mapsto> i)) (dom (l(k \<mapsto> i)))"
    using assms ok by (auto simp: leases_def inj_on_def ran_def dom_def)
  ultimately show ?thesis
    using assms(1) ok reserved_busy [of a] by (auto simp: leases_def)
qed

lemma leases_release:
  assumes l: "leases a l" and k: "l k = Some i"
  shows "leases (release a i) (l(k := None))"
proof -
  have "inv (release a i) \<and> busy (release a i) = busy a - {i} \<and>
      avail (release a i) = avail a \<and> reserved (release a i) = reserved a"
    using release_ok leases_busy [OF l k] l by (simp add: leases_def)
  moreover have "ran (l(k := None)) = ran l - {i}"
    using leases_distinct [OF l] k by (auto simp: ran_def) (metis option.inject)
  ultimately show ?thesis
    using l leases_busy [OF l k] by (auto simp: leases_def inj_on_def)
qed

text \<open>While some host is not leased out, allocation succeeds.\<close>

lemma leases_progress:
  assumes l: "leases a l" and free: "\<not> avail a \<subseteq> insert (reserved a) (ran l)"
  shows "\<exists>i a'. allocate a = (Inr i, a')"
proof (cases "allocate a")
  case (Pair r a')
  show ?thesis
  proof (cases r)
    case (Inl e)
    with Pair allocate_err [of a e a'] l have "avail a \<subseteq> busy a" by (simp add: leases_def)
    with l free show ?thesis by (auto simp: leases_def)
  next
    case (Inr i)
    with Pair show ?thesis by blast
  qed
qed

end

end
