(* ===== verification/Ipam.thy ===== *)
theory Ipam
  imports Go_Net Address_Pool
begin

unbundle bit_operations_syntax

text \<open>
  \<open>internal/ipam\<close>: the address pool. The allocator walks the pool byte-wise from its first
  host and hands out the first address whose text is not in \<open>used\<close>. The second half proves the
  walk against intervals of numbers: \<open>Allocate\<close> returns the least free host of the pool, and
  fails exactly when every host is taken.
\<close>

record Allocator =
  network :: IPNet
  serverIP :: ip
  used :: "(string, bool) fmap"

text \<open>\<open>a.used[k]\<close>: a missing key reads as false.\<close>

definition used_at :: "(string, bool) fmap \<Rightarrow> string \<Rightarrow> bool" where
  "used_at u k \<longleftrightarrow> fmlookup u k = Some True"

definition dup :: "ip \<Rightarrow> ip" where
  "dup ip = ip"

text \<open>The carry loop of \<open>next\<close>, over the bytes last to first.\<close>

fun incr_bytes :: "u8 list \<Rightarrow> u8 list" where
  "incr_bytes [] = []"
| "incr_bytes (b # bs) = (if b + 1 \<noteq> 0 then (b + 1) # bs else (b + 1) # incr_bytes bs)"

definition next_ip :: "ip \<Rightarrow> ip" where
  "next_ip ip = rev (incr_bytes (rev (dup (To4_bytes ip))))"

definition firstHost :: "IPNet \<Rightarrow> ip" where
  "firstHost n = next_ip (dup (To4_bytes (net_IP n)))"

definition broadcast :: "IPNet \<Rightarrow> ip" where
  "broadcast n = map2 (\<lambda>b m. b OR NOT m) (dup (To4_bytes (net_IP n))) (net_Mask n)"

definition isBroadcast :: "ip \<Rightarrow> IPNet \<Rightarrow> bool" where
  "isBroadcast ip n = ip_Equal ip (broadcast n)"

text \<open>
  \<open>New\<close>. \<open>parse_cidr\<close> is \<open>net.ParseCIDR\<close>; the theorems use it on the IPv4 text that
  \<open>parse_ipv4_cidr\<close> reads.
\<close>

definition New_Allocator :: "(string \<Rightarrow> (ip \<times> IPNet) result) \<Rightarrow> string \<Rightarrow> Allocator result" where
  "New_Allocator parse_cidr cidr =
     (case parse_cidr cidr of
        Inl err \<Rightarrow> Inl (''parse VPN CIDR '' @ quoted cidr @ '': '' @ err)
      | Inr (ip, ipnet) \<Rightarrow>
          if To4 ip = None then Inl (''only IPv4 pools are supported: '' @ quoted cidr)
          else (let srv = firstHost ipnet
                in Inr \<lparr>network = ipnet, serverIP = srv,
                        used = fmupd (ip_String srv) True fmempty\<rparr>))"

definition ServerIP :: "Allocator \<Rightarrow> ip" where
  "ServerIP a = serverIP a"

lemma incr_bytes_length [simp]: "length (incr_bytes bs) = length bs"
  by (induction bs) auto

lemma incr_bytes_val:
  "(horner_sum unat 256 (incr_bytes bs) :: nat) = (horner_sum unat 256 bs + 1) mod 256 ^ length bs"
proof (induction bs)
  case (Cons b bs)
  have b: "unat b < 256" using unsigned_less [of b] by simp
  have v: "horner_sum unat 256 bs < (256 :: nat) ^ length bs" by (rule le_val_bound)
  show ?case
  proof (cases "b + 1 = 0")
    case True
    then have "unat b = 255"
      using b by (simp add: unat_word_ariths word_unat_eq_iff) presburger
    with True Cons.IH show ?thesis
      by (simp add: mod_mult_mult1 [where c = 256, symmetric] del: mod_mult_mult1)
  next
    case False
    then have u: "unat (b + 1) = unat b + 1"
      by (simp add: unatSuc add.commute)
    have "unat (b + 1) < 256" using unsigned_less [of "b + 1"] by simp
    with u v False show ?thesis by simp
  qed
qed simp

lemma next_ip_length [simp]: "length ip = 4 \<Longrightarrow> length (next_ip ip) = 4"
  by (simp add: next_ip_def dup_def)

lemma addr_next_ip: "length ip = 4 \<Longrightarrow> addr (next_ip ip) = (addr ip + 1) mod 2 ^ 32"
  using incr_bytes_val [of "rev ip"] by (simp add: addr_def next_ip_def dup_def)

text \<open>
  The loop of \<open>Allocate\<close>. Its address always has four bytes: \<open>firstHost\<close> and \<open>next\<close> return
  the IPv4 form. It stops because the walk meets the broadcast address.
\<close>

lemma broadcast_length_4:
  assumes "length ip = 4" "Contains n ip" shows "length (broadcast n) = 4"
proof -
  have "To4 ip = Some ip" using assms(1) by simp
  with assms show ?thesis
    by (auto simp: Contains_def networkNumberAndMask_def broadcast_def dup_def To4_bytes_def
        Let_def dest: To4_length split: option.splits if_splits)
qed

lemma walk_closer:
  assumes "length ip = 4" "length bc = 4" "ip \<noteq> bc"
  shows "(addr bc + 2 ^ 32 - addr (next_ip ip)) mod 2 ^ 32 < (addr bc + 2 ^ 32 - addr ip) mod 2 ^ 32"
  using mod_walk_closer [of "addr ip" "2 ^ 32" "addr bc"] assms addr_bound addr_inject
  by (simp add: addr_next_ip)

function alloc_loop :: "IPNet \<Rightarrow> (string, bool) fmap \<Rightarrow> ip \<Rightarrow> ip option" where
  "alloc_loop n u ip =
     (if length ip = 4 \<and> Contains n ip then
        (if isBroadcast ip n then None
         else if \<not> used_at u (ip_String ip) then Some ip
         else alloc_loop n u (next_ip ip))
      else None)"
  by pat_completeness auto
termination
proof (relation "measure (\<lambda>(n, u, ip). (addr (broadcast n) + 2 ^ 32 - addr ip) mod 2 ^ 32)")
  fix n u ip
  assume ip: "length ip = 4 \<and> Contains n ip" and nb: "\<not> isBroadcast ip n"
  then have "length (broadcast n) = 4" using broadcast_length_4 by blast
  moreover from this ip nb have "ip \<noteq> broadcast n"
    by (auto simp: isBroadcast_def ip_Equal_def)
  ultimately show "((n, u, next_ip ip), n, u, ip) \<in>
      measure (\<lambda>(n, u, ip). (addr (broadcast n) + 2 ^ 32 - addr ip) mod 2 ^ 32)"
    using ip walk_closer [of ip "broadcast n"] by simp
qed simp

declare alloc_loop.simps [simp del]

definition Allocate :: "Allocator \<Rightarrow> ip result \<times> Allocator" where
  "Allocate a =
     (case alloc_loop (network a) (used a) (firstHost (network a)) of
        Some ip \<Rightarrow> (Inr (dup ip), a\<lparr>used := fmupd (ip_String ip) True (used a)\<rparr>)
      | None \<Rightarrow> (Inl (''address pool '' @ ipv4_net_String (network a) @ '' exhausted''), a))"

definition Reserve :: "Allocator \<Rightarrow> ip \<Rightarrow> bool \<times> Allocator" where
  "Reserve a ip =
     (if \<not> Contains (network a) ip then (False, a)
      else if used_at (used a) (ip_String ip) then (False, a)
      else (True, a\<lparr>used := fmupd (ip_String ip) True (used a)\<rparr>))"

definition Release :: "Allocator \<Rightarrow> ip \<Rightarrow> Allocator" where
  "Release a ip = a\<lparr>used := fmdrop (ip_String ip) (used a)\<rparr>"

section \<open>What the walk returns\<close>

text \<open>Number of the broadcast address: the top of the interval.\<close>

lemma addr_broadcast:
  assumes n: "ipv4_net n p"
  shows "length (broadcast n) = 4" and "addr (broadcast n) + 1 = addr (net_IP n) + 2 ^ (32 - p)"
proof -
  have len: "length (net_IP n) = 4" and p: "p \<le> 32" and m: "net_Mask n = cidr_mask_bytes 4 p"
    using n by (simp_all add: ipv4_net_def)
  then show l: "length (broadcast n) = 4" by (simp add: broadcast_def dup_def)
  have low: "\<not> bit (addr (net_IP n)) i" if "i < 32 - p" for i
    using ipv4_net_aligned [OF n] that
    by (metis bit_take_bit_iff bit_0_eq bot_apply bot_bool_def take_bit_eq_0_iff)
  have "bit (addr (broadcast n)) i \<longleftrightarrow> bit (addr (net_IP n)) i \<or> i < 32 - p" for i
    using len p l
    by (cases "i < 32")
      (auto simp: broadcast_def dup_def m bit_addr_map2 bit_addr_small [of "net_IP n"] bit_addr_large
        bit_cidr_mask bit_or_iff bit_not_iff simp del: cidr_mask_bytes.simps)
  then have "addr (broadcast n) = addr (net_IP n) OR mask (32 - p)"
    by (simp add: bit_eq_iff bit_or_iff bit_mask_iff)
  also have "\<dots> = addr (net_IP n) + mask (32 - p)"
    using low by (intro disjunctive_add_eq_or [symmetric]) (auto simp: bit_eq_iff bit_and_iff bit_mask_iff)
  finally show "addr (broadcast n) + 1 = addr (net_IP n) + 2 ^ (32 - p)"
    by (simp add: mask_eq_exp_minus_1)
qed

lemma isBroadcast_top:
  assumes "ipv4_net n p" "length ip = 4"
  shows "isBroadcast ip n \<longleftrightarrow> addr ip + 1 = addr (net_IP n) + 2 ^ (32 - p)"
proof -
  have "isBroadcast ip n \<longleftrightarrow> addr ip = addr (broadcast n)"
    using assms addr_broadcast(1) [OF assms(1)]
    by (simp add: isBroadcast_def ip_Equal_def addr_inject)
  then show ?thesis using addr_broadcast(2) [OF assms(1)] by linarith
qed

text \<open>The addresses strictly between the network address and the broadcast address.\<close>

definition hosts :: "IPNet \<Rightarrow> nat \<Rightarrow> ip set" where
  "hosts n p = {x. length x = 4 \<and> addr (net_IP n) < addr x \<and> addr x + 1 < addr (net_IP n) + 2 ^ (32 - p)}"

lemma in_hosts_iff:
  assumes "ipv4_net n p" "length x = 4" "addr (net_IP n) < addr x"
  shows "x \<in> hosts n p \<longleftrightarrow> Contains n x \<and> \<not> isBroadcast x n"
  using assms by (auto simp: hosts_def Contains_interval isBroadcast_top)

lemma addr_next_host:
  assumes "ipv4_net n p" "x \<in> hosts n p" shows "addr (next_ip x) = addr x + 1"
  using assms ipv4_net_top [OF assms(1)] by (simp add: hosts_def addr_next_ip)

lemma alloc_loop_step:
  assumes "ipv4_net n p" "length ip = 4" "addr (net_IP n) < addr ip"
  shows "alloc_loop n u ip =
    (if ip \<in> hosts n p then if used_at u (ip_String ip) then alloc_loop n u (next_ip ip) else Some ip
     else None)"
  using assms by (subst alloc_loop.simps) (simp add: in_hosts_iff)

text \<open>The least free host at or above an address, if there is one.\<close>

definition least_free :: "IPNet \<Rightarrow> nat \<Rightarrow> (string, bool) fmap \<Rightarrow> nat \<Rightarrow> ip option \<Rightarrow> bool" where
  "least_free n p u k r \<longleftrightarrow>
     (case r of
        Some x \<Rightarrow> x \<in> hosts n p \<and> k \<le> addr x \<and> \<not> used_at u (ip_String x) \<and>
          (\<forall>y \<in> hosts n p. k \<le> addr y \<longrightarrow> addr y < addr x \<longrightarrow> used_at u (ip_String y))
      | None \<Rightarrow> \<forall>y \<in> hosts n p. k \<le> addr y \<longrightarrow> used_at u (ip_String y))"

lemma least_free_skip:
  assumes "least_free n p u (addr ip + 1) r" "used_at u (ip_String ip)" "length ip = 4"
  shows "least_free n p u (addr ip) r"
proof -
  have "k \<le> addr y \<Longrightarrow> y \<in> hosts n p \<Longrightarrow> k = addr ip \<Longrightarrow> y = ip \<or> addr ip + 1 \<le> addr y" for y k
    using assms(3) addr_inject [of y ip] by (auto simp: hosts_def)
  with assms(1,2) show ?thesis
    unfolding least_free_def by (fastforce split: option.splits)
qed

lemma alloc_loop_least:
  assumes n: "ipv4_net n p"
  shows "length ip = 4 \<Longrightarrow> addr (net_IP n) < addr ip \<Longrightarrow> least_free n p u (addr ip) (alloc_loop n u ip)"
proof (induction "addr (net_IP n) + 2 ^ (32 - p) - addr ip" arbitrary: ip rule: less_induct)
  case less
  note step = alloc_loop_step [OF n less.prems, of u]
  consider (out) "ip \<notin> hosts n p" | (free) "ip \<in> hosts n p" "\<not> used_at u (ip_String ip)"
    | (busy) "ip \<in> hosts n p" "used_at u (ip_String ip)" by blast
  then show ?case
  proof cases
    case out
    with less.prems step show ?thesis by (auto simp: least_free_def hosts_def)
  next
    case free
    with step show ?thesis by (auto simp: least_free_def)
  next
    case busy
    have nx: "addr (next_ip ip) = addr ip + 1" by (rule addr_next_host [OF n busy(1)])
    from busy(1) have "addr ip < addr (net_IP n) + 2 ^ (32 - p)" by (simp add: hosts_def)
    with less.prems nx have "least_free n p u (addr ip + 1) (alloc_loop n u (next_ip ip))"
      using less.hyps [of "next_ip ip"] by simp
    with busy less.prems step show ?thesis by (simp add: least_free_skip)
  qed
qed

lemma firstHost_length [simp]: "ipv4_net n p \<Longrightarrow> length (firstHost n) = 4"
  by (simp add: firstHost_def dup_def ipv4_net_def)

lemma addr_firstHost:
  assumes "ipv4_net n p" "hosts n p \<noteq> {}" shows "addr (firstHost n) = addr (net_IP n) + 1"
  using assms ipv4_net_top [OF assms(1)]
  by (auto simp: firstHost_def dup_def addr_next_ip hosts_def ipv4_net_def)

lemma no_hosts_loop:
  assumes n: "ipv4_net n p" and "hosts n p = {}"
  shows "alloc_loop n u (firstHost n) = None"
proof (cases "addr (net_IP n) + 1 < 2 ^ 32")
  case True
  then have "addr (net_IP n) < addr (firstHost n)"
    using n by (simp add: firstHost_def dup_def addr_next_ip ipv4_net_def)
  with assms show ?thesis by (simp add: alloc_loop_step [OF n])
next
  case False
  moreover have "addr (net_IP n) < 2 ^ 32"
    using n unfolding ipv4_net_def by (intro addr_bound) simp
  ultimately have "addr (net_IP n) = 2 ^ 32 - 1" by simp
  then have "addr (firstHost n) = 0" and "0 < addr (net_IP n)"
    using n by (simp_all add: firstHost_def dup_def addr_next_ip ipv4_net_def)
  then have "\<not> Contains n (firstHost n)"
    using n by (simp add: Contains_interval)
  then show ?thesis by (subst alloc_loop.simps) simp
qed

section \<open>The pool and its contract\<close>

definition taken :: "Allocator \<Rightarrow> ip set" where
  "taken a = {x. length x = 4 \<and> used_at (used a) (ip_String x)}"

definition pool_inv :: "nat \<Rightarrow> Allocator \<Rightarrow> bool" where
  "pool_inv p a \<longleftrightarrow> ipv4_net (network a) p \<and> serverIP a = firstHost (network a) \<and> firstHost (network a) \<in> taken a"

lemma taken_mark [pool_simps]:
  "length ip = 4 \<Longrightarrow> taken (a\<lparr>used := fmupd (ip_String ip) True (used a)\<rparr>) = insert ip (taken a)"
  by (auto simp: taken_def used_at_def dotted_inject)

lemma taken_Release [pool_simps]: "length ip = 4 \<Longrightarrow> taken (Release a ip) = taken a - {ip}"
  by (auto simp: taken_def used_at_def Release_def dotted_inject)

lemma network_Release [simp]: "network (Release a ip) = network a"
  and serverIP_Release [simp]: "serverIP (Release a ip) = serverIP a"
  by (simp_all add: Release_def)

lemma alloc_loop_firstHost:
  assumes n: "ipv4_net n p"
  shows "least_free n p u 0 (alloc_loop n u (firstHost n))"
proof (cases "hosts n p = {}")
  case True
  with n show ?thesis by (simp add: no_hosts_loop least_free_def)
next
  case False
  then have "least_free n p u (addr (net_IP n) + 1) (alloc_loop n u (firstHost n))"
    using alloc_loop_least [OF n, of "firstHost n" u] addr_firstHost [OF n] n by simp
  moreover have "\<forall>y \<in> hosts n p. addr (net_IP n) + 1 \<le> addr y" by (auto simp: hosts_def)
  ultimately show ?thesis by (auto simp: least_free_def split: option.splits)
qed

lemma Allocate_Inr:
  assumes "pool_inv p a" "Allocate a = (Inr ip, a')"
  shows "ip \<in> hosts (network a) p" and "ip \<notin> taken a"
    and "\<forall>y \<in> hosts (network a) p. addr y < addr ip \<longrightarrow> y \<in> taken a"
    and "taken a' = insert ip (taken a)" and "network a' = network a" and "serverIP a' = serverIP a"
proof -
  have "alloc_loop (network a) (used a) (firstHost (network a)) = Some ip"
    and a': "a' = a\<lparr>used := fmupd (ip_String ip) True (used a)\<rparr>"
    using assms(2) by (auto simp: Allocate_def dup_def split: option.splits)
  with assms(1) alloc_loop_firstHost [of "network a" p "used a"]
  have lf: "least_free (network a) p (used a) 0 (Some ip)" by (simp add: pool_inv_def)
  then have len: "length ip = 4" by (auto simp: least_free_def hosts_def)
  from lf show "ip \<in> hosts (network a) p" by (simp add: least_free_def)
  from lf show "ip \<notin> taken a" by (simp add: least_free_def taken_def)
  from lf show "\<forall>y \<in> hosts (network a) p. addr y < addr ip \<longrightarrow> y \<in> taken a"
    by (auto simp: least_free_def taken_def hosts_def)
  show "taken a' = insert ip (taken a)" unfolding a' by (rule taken_mark [OF len])
  show "network a' = network a" and "serverIP a' = serverIP a" using a' by simp_all
qed

lemma Allocate_Inl:
  assumes "pool_inv p a" "Allocate a = (Inl e, a')"
  shows "a' = a" and "hosts (network a) p \<subseteq> taken a"
proof -
  have "alloc_loop (network a) (used a) (firstHost (network a)) = None" and a': "a' = a"
    using assms(2) by (auto simp: Allocate_def split: option.splits)
  with assms(1) alloc_loop_firstHost [of "network a" p "used a"]
  have "least_free (network a) p (used a) 0 None" by (simp add: pool_inv_def)
  with a' show "a' = a" and "hosts (network a) p \<subseteq> taken a"
    by (auto simp: least_free_def taken_def hosts_def)
qed

lemma hosts_length: "x \<in> hosts n p \<Longrightarrow> length x = 4"
  by (simp add: hosts_def)

interpretation ipool: address_pool "pool_inv p" "\<lambda>a. hosts (network a) p" taken serverIP Allocate Release
  for p
proof unfold_locales
  fix a :: Allocator assume "pool_inv p a"
  then show "serverIP a \<in> taken a" by (simp add: pool_inv_def)
next
  fix a a' :: Allocator and ip assume "pool_inv p a" "Allocate a = (Inr ip, a')"
  from Allocate_Inr [OF this] this
  show "pool_inv p a' \<and> ip \<in> hosts (network a) p \<and> ip \<notin> taken a \<and>
      taken a' = insert ip (taken a) \<and> hosts (network a') p = hosts (network a) p \<and>
      serverIP a' = serverIP a"
    by (simp add: pool_inv_def)
next
  fix a a' :: Allocator and e assume "pool_inv p a" "Allocate a = (Inl e, a')"
  from Allocate_Inl [OF this] show "a' = a \<and> hosts (network a) p \<subseteq> taken a" by simp
next
  fix a :: Allocator and ip
  assume "pool_inv p a" "ip \<in> hosts (network a) p" "ip \<noteq> serverIP a"
  then show "pool_inv p (Release a ip) \<and> taken (Release a ip) = taken a - {ip} \<and>
      hosts (network (Release a ip)) p = hosts (network a) p \<and> serverIP (Release a ip) = serverIP a"
    by (auto simp: pool_inv_def taken_Release hosts_length)
qed

end
