(* ===== verification/Peer_Store.thy ===== *)
theory Peer_Store
  imports Go_Net
begin

text \<open>
  \<open>internal/store\<close>: the registry of enrolled devices, a map from the device's public key (its
  base64 text, as the client sent it) to the peer. \<open>Expired\<close> and \<open>List\<close> take the order in
  which the runtime visits the map. The locale \<open>peer_registry\<close> is the contract the HTTP and
  gRPC handlers rely on.
\<close>

text \<open>\<open>protocol.DeviceInfo\<close>, of which the server reads the name and the platform.\<close>

record DeviceInfo =
  dev_Name :: string
  dev_Platform :: string

record Peer =
  p_PublicKey :: string
  p_Subject :: string
  p_Email :: string
  p_IP :: ip
  p_Device :: DeviceInfo
  p_EnrolledAt :: time
  p_LeaseExpiry :: time
  p_Tenant :: string

record Store =
  peers :: "(string, Peer) fmap"

definition New_Store :: Store where
  "New_Store = \<lparr>peers = fmempty\<rparr>"

definition Get :: "Store \<Rightarrow> string \<Rightarrow> Peer option" where
  "Get s pubKey = fmlookup (peers s) pubKey"

definition Put :: "Store \<Rightarrow> Peer \<Rightarrow> Store" where
  "Put s p = s\<lparr>peers := fmupd (p_PublicKey p) p (peers s)\<rparr>"

definition Delete :: "Store \<Rightarrow> string \<Rightarrow> Peer option \<times> Store" where
  "Delete s pubKey = (fmlookup (peers s) pubKey, s\<lparr>peers := fmdrop pubKey (peers s)\<rparr>)"

definition Renew :: "Store \<Rightarrow> string \<Rightarrow> time \<Rightarrow> bool \<times> Store" where
  "Renew s pubKey expiry =
     (case fmlookup (peers s) pubKey of
        None \<Rightarrow> (False, s)
      | Some p \<Rightarrow> (True, s\<lparr>peers := fmupd pubKey (p\<lparr>p_LeaseExpiry := expiry\<rparr>) (peers s)\<rparr>))"

text \<open>\<open>!p.LeaseExpiry.After(now)\<close>.\<close>

definition Expired :: "string list \<Rightarrow> Store \<Rightarrow> time \<Rightarrow> Peer list" where
  "Expired ks s now = filter (\<lambda>p. \<not> now < p_LeaseExpiry p) (range_values ks (peers s))"

definition List_Peers :: "string list \<Rightarrow> Store \<Rightarrow> Peer list" where
  "List_Peers ks s = range_values ks (peers s)"

section \<open>Laws\<close>

lemma Get_New_Store [simp]: "Get New_Store k = None"
  by (simp add: Get_def New_Store_def)

lemma Get_Put [store_simps]: "Get (Put s p) k = (if k = p_PublicKey p then Some p else Get s k)"
  by (simp add: Get_def Put_def)

lemma Get_Delete [store_simps]: "Get (snd (Delete s d)) k = (if k = d then None else Get s k)"
  by (simp add: Get_def Delete_def)

lemma Get_Renew [store_simps]:
  "Get (snd (Renew s d t)) k =
     (if k = d then map_option (\<lambda>p. p\<lparr>p_LeaseExpiry := t\<rparr>) (Get s k) else Get s k)"
  by (simp add: Get_def Renew_def split: option.splits)

text \<open>Two stores that answer alike are the same store.\<close>

lemma Store_eqI: "(\<And>k. Get s k = Get t k) \<Longrightarrow> s = t"
  by (cases s, cases t) (simp add: Get_def fmap_ext)

text \<open>Every peer is stored under its own key.\<close>

definition keyed :: "Store \<Rightarrow> bool" where
  "keyed s \<longleftrightarrow> (\<forall>k p. Get s k = Some p \<longrightarrow> p_PublicKey p = k)"

lemma keyed_New_Store [simp]: "keyed New_Store"
  by (simp add: keyed_def)

lemma keyed_Put [simp]: "keyed s \<Longrightarrow> keyed (Put s p)"
  by (simp add: keyed_def store_simps)

lemma keyed_Delete [simp]: "keyed s \<Longrightarrow> keyed (snd (Delete s k))"
  by (simp add: keyed_def store_simps)

lemma keyed_Renew [simp]: "keyed s \<Longrightarrow> keyed (snd (Renew s k t))"
  by (auto simp: keyed_def store_simps)

section \<open>The contract of the registry\<close>

locale peer_registry =
  fixes empty :: 's
    and get :: "'s \<Rightarrow> 'k \<Rightarrow> 'p option"
    and put :: "'s \<Rightarrow> 'p \<Rightarrow> 's"
    and del :: "'s \<Rightarrow> 'k \<Rightarrow> 's"
    and key :: "'p \<Rightarrow> 'k"
  assumes get_empty: "get empty k = None"
    and get_put: "get (put s p) k = (if k = key p then Some p else get s k)"
    and get_del: "get (del s d) k = (if k = d then None else get s k)"
begin

text \<open>Removing every key of a list, as the reaper and the reconciliation do.\<close>

lemma get_del_list: "get (foldl del s ds) k = (if k \<in> set ds then None else get s k)"
  by (induction ds arbitrary: s) (auto simp: get_del)

lemma put_put: "key p = key q \<Longrightarrow> get (put (put s p) q) = get (put s q)"
  by (auto simp: get_put)

lemma del_put_other: "key p \<noteq> d \<Longrightarrow> get (del (put s p) d) = get (put (del s d) p)"
  by (auto simp: get_put get_del)

lemma del_put_same: "get (del (put s p) (key p)) = get (del s (key p))"
  by (auto simp: get_put get_del)

end

interpretation preg: peer_registry New_Store Get Put "\<lambda>s k. snd (Delete s k)" p_PublicKey
  by unfold_locales (simp_all add: store_simps)

section \<open>Iteration\<close>

lemma set_List_Peers:
  "ranges_over ks (peers s) \<Longrightarrow> p \<in> set (List_Peers ks s) \<longleftrightarrow> (\<exists>k. Get s k = Some p)"
  by (auto simp: List_Peers_def set_range_values Get_def dest: ranges_over_memberD)

lemma set_Expired:
  "ranges_over ks (peers s) \<Longrightarrow>
     p \<in> set (Expired ks s now) \<longleftrightarrow> (\<exists>k. Get s k = Some p) \<and> p_LeaseExpiry p \<le> now"
  by (auto simp: Expired_def set_range_values Get_def dest: ranges_over_memberD)

text \<open>A loop over a keyed store meets every key once.\<close>

lemma keys_of_range:
  assumes "keyed s"
  shows "map p_PublicKey (range_values ks (peers s)) = filter (\<lambda>k. fmlookup (peers s) k \<noteq> None) ks"
  using assms unfolding range_values_def
  by (induction ks) (auto simp: keyed_def Get_def split: option.splits)

lemma distinct_keys_range:
  "keyed s \<Longrightarrow> distinct ks \<Longrightarrow> distinct (map p_PublicKey (range_values ks (peers s)))"
  by (simp add: keys_of_range)

lemma distinct_keys_filter:
  "distinct (map p_PublicKey ps) \<Longrightarrow> distinct (map p_PublicKey (filter P ps))"
  by (induction ps) auto

end
