(* ===== verification/Gateway.thy ===== *)
theory Gateway
  imports Go_Net
begin

text \<open>
  \<open>internal/wg\<close>: the WireGuard gateway. \<open>wg.Gateway\<close> is a Go interface, here a record of
  its operations over the state \<open>'d\<close> of the device. The wgctrl library is not part of the
  repository: \<open>ConfigureDevice\<close> and \<open>Device\<close> are arguments of the definitions, and
  \<open>wgctrl_ok\<close> states what its documentation promises of a call that returns no error, in
  terms of \<open>view\<close>, the peers a device holds. \<open>Close\<close> lets go of the client, the argument
  \<open>closing\<close>, and not of the peers. \<open>Lister\<close> is the method \<open>Peers\<close> of a gateway that has it.
  \<open>Sweep\<close> removes what a previous run left.
\<close>

text \<open>\<open>wgtypes.Key\<close>, 32 bytes.\<close>

type_synonym wgkey = "u8 list"

record WGPeer =
  wp_PublicKey :: wgkey
  wp_AllowedIPs :: "IPNet list"

record PeerConfig =
  pc_PublicKey :: wgkey
  pc_Remove :: bool
  pc_ReplaceAllowedIPs :: bool
  pc_AllowedIPs :: "IPNet list"

record 'd Gateway =
  AddPeer :: "wgkey \<Rightarrow> ip \<Rightarrow> 'd \<Rightarrow> 'd \<times> error option"
  RemovePeer :: "wgkey \<Rightarrow> 'd \<Rightarrow> 'd \<times> error option"
  Close :: "'d \<Rightarrow> error option"
  Lister :: "('d \<Rightarrow> WGPeer list result) option"

type_synonym 'd configure = "string \<Rightarrow> PeerConfig list \<Rightarrow> 'd \<Rightarrow> 'd \<times> error option"

section \<open>The wgctrl gateway\<close>

definition host_net :: "ip \<Rightarrow> IPNet" where
  "host_net ip = \<lparr>net_IP = ip, net_Mask = CIDRMask 32 32\<rparr>"

definition wgctrl_AddPeer :: "'d configure \<Rightarrow> string \<Rightarrow> wgkey \<Rightarrow> ip \<Rightarrow> 'd \<Rightarrow> 'd \<times> error option" where
  "wgctrl_AddPeer configure dev pub ip d =
     (let allowed = host_net ip;
          cfg = [\<lparr>pc_PublicKey = pub, pc_Remove = False, pc_ReplaceAllowedIPs = True,
                  pc_AllowedIPs = [allowed]\<rparr>]
      in case configure dev cfg d of
           (d', Some err) \<Rightarrow> (d', Some (''add peer: '' @ err))
         | (d', None) \<Rightarrow> (d', None))"

definition wgctrl_RemovePeer :: "'d configure \<Rightarrow> string \<Rightarrow> wgkey \<Rightarrow> 'd \<Rightarrow> 'd \<times> error option" where
  "wgctrl_RemovePeer configure dev pub d =
     (let cfg = [\<lparr>pc_PublicKey = pub, pc_Remove = True, pc_ReplaceAllowedIPs = False,
                  pc_AllowedIPs = []\<rparr>]
      in case configure dev cfg d of
           (d', Some err) \<Rightarrow> (d', Some (''remove peer: '' @ err))
         | (d', None) \<Rightarrow> (d', None))"

definition wgctrl_Peers :: "(string \<Rightarrow> 'd \<Rightarrow> WGPeer list result) \<Rightarrow> string \<Rightarrow> 'd \<Rightarrow> WGPeer list result" where
  "wgctrl_Peers device dev d =
     (case device dev d of
        Inl err \<Rightarrow> Inl err
      | Inr ps \<Rightarrow> Inr (map (\<lambda>p. \<lparr>wp_PublicKey = wp_PublicKey p, wp_AllowedIPs = wp_AllowedIPs p\<rparr>) ps))"

definition wgctrlGateway ::
    "('d \<Rightarrow> error option) \<Rightarrow> 'd configure \<Rightarrow> (string \<Rightarrow> 'd \<Rightarrow> WGPeer list result) \<Rightarrow> string \<Rightarrow> 'd Gateway" where
  "wgctrlGateway closing configure device dev =
     \<lparr>AddPeer = wgctrl_AddPeer configure dev, RemovePeer = wgctrl_RemovePeer configure dev,
      Close = closing, Lister = Some (wgctrl_Peers device dev)\<rparr>"

text \<open>\<open>NewGateway\<close>: \<open>open_err\<close> is the error of \<open>wgctrl.New\<close>, if any.\<close>

definition NewGateway ::
    "error option \<Rightarrow> ('d \<Rightarrow> error option) \<Rightarrow> 'd configure \<Rightarrow> (string \<Rightarrow> 'd \<Rightarrow> WGPeer list result) \<Rightarrow> string \<Rightarrow> 'd \<Rightarrow> 'd Gateway result" where
  "NewGateway open_err closing configure device dev d =
     (case open_err of
        Some err \<Rightarrow> Inl (''open wgctrl: '' @ err)
      | None \<Rightarrow>
          (case device dev d of
             Inl err \<Rightarrow> Inl (''wireguard device '' @ quoted dev @
               '' not found (create it with wg-quick first): '' @ err)
           | Inr _ \<Rightarrow> Inr (wgctrlGateway closing configure device dev)))"

section \<open>The dry-run gateway\<close>

definition dryRunGateway :: "'d Gateway" where
  "dryRunGateway =
     \<lparr>AddPeer = (\<lambda>pub ip d. (d, None)), RemovePeer = (\<lambda>pub d. (d, None)),
      Close = (\<lambda>d. None), Lister = None\<rparr>"

section \<open>Sweep\<close>

definition ours :: "WGPeer \<Rightarrow> IPNet \<Rightarrow> bool" where
  "ours p pool =
     (case wp_AllowedIPs p of
        [a] \<Rightarrow> (let (ones, bits) = Mask_Size (net_Mask a)
                in bits = 32 \<and> ones = 32 \<and> Contains pool (net_IP a))
      | _ \<Rightarrow> False)"

fun sweep_loop :: "'d Gateway \<Rightarrow> IPNet \<Rightarrow> WGPeer list \<Rightarrow> nat \<Rightarrow> 'd \<Rightarrow> 'd \<times> nat \<times> error option" where
  "sweep_loop g pool [] removed d = (d, removed, None)"
| "sweep_loop g pool (p # ps) removed d =
     (if \<not> ours p pool then sweep_loop g pool ps removed d
      else case RemovePeer g (wp_PublicKey p) d of
             (d', Some err) \<Rightarrow> (d', removed, Some err)
           | (d', None) \<Rightarrow> sweep_loop g pool ps (removed + 1) d')"

definition Sweep :: "'d Gateway \<Rightarrow> IPNet \<Rightarrow> 'd \<Rightarrow> 'd \<times> nat \<times> error option" where
  "Sweep g pool d =
     (case Lister g of
        None \<Rightarrow> (d, 0, None)
      | Some peers_of \<Rightarrow>
          (case peers_of d of
             Inl err \<Rightarrow> (d, 0, Some (''list peers: '' @ err))
           | Inr ps \<Rightarrow> sweep_loop g pool ps 0 d))"

section \<open>What a device holds\<close>

type_synonym 'd view = "'d \<Rightarrow> (wgkey, IPNet list) fmap"

text \<open>
  A gateway call that returns no error: \<open>AddPeer\<close> leaves the key with exactly its \<open>/32\<close> and
  takes that network from every other peer (WireGuard gives an allowed IP to one peer);
  \<open>RemovePeer\<close> removes the key; a listing lists what the device holds, each key once.
\<close>

definition gateway_ok :: "'d view \<Rightarrow> 'd Gateway \<Rightarrow> bool" where
  "gateway_ok view g \<longleftrightarrow>
     (\<forall>pub ip d d'. AddPeer g pub ip d = (d', None) \<longrightarrow>
        (\<forall>k. fmlookup (view d') k =
          (if k = pub then Some [host_net ip]
           else map_option (filter (\<lambda>n. n \<noteq> host_net ip)) (fmlookup (view d) k)))) \<and>
     (\<forall>pub d d'. RemovePeer g pub d = (d', None) \<longrightarrow> view d' = fmdrop pub (view d)) \<and>
     (\<forall>peers_of d ps. Lister g = Some peers_of \<longrightarrow> peers_of d = Inr ps \<longrightarrow>
        distinct (map wp_PublicKey ps) \<and>
        (\<forall>k as. fmlookup (view d) k = Some as \<longleftrightarrow>
          (\<exists>p \<in> set ps. wp_PublicKey p = k \<and> wp_AllowedIPs p = as)))"

text \<open>What wgctrl documents of \<open>ConfigureDevice\<close> and \<open>Device\<close>.\<close>

definition wgctrl_ok ::
    "'d view \<Rightarrow> 'd configure \<Rightarrow> (string \<Rightarrow> 'd \<Rightarrow> WGPeer list result) \<Rightarrow> string \<Rightarrow> bool" where
  "wgctrl_ok view configure device dev \<longleftrightarrow>
     (\<forall>pc d d'. configure dev [pc] d = (d', None) \<longrightarrow> pc_Remove pc \<longrightarrow>
        view d' = fmdrop (pc_PublicKey pc) (view d)) \<and>
     (\<forall>pc d d'. configure dev [pc] d = (d', None) \<longrightarrow> \<not> pc_Remove pc \<longrightarrow> pc_ReplaceAllowedIPs pc \<longrightarrow>
        (\<forall>k. fmlookup (view d') k =
          (if k = pc_PublicKey pc then Some (pc_AllowedIPs pc)
           else map_option (filter (\<lambda>n. n \<notin> set (pc_AllowedIPs pc))) (fmlookup (view d) k)))) \<and>
     (\<forall>d ps. device dev d = Inr ps \<longrightarrow> distinct (map wp_PublicKey ps) \<and>
        (\<forall>k as. fmlookup (view d) k = Some as \<longleftrightarrow>
          (\<exists>p \<in> set ps. wp_PublicKey p = k \<and> wp_AllowedIPs p = as)))"

lemma wgctrl_AddPeer_None:
  "wgctrl_AddPeer configure dev pub ip d = (d', None) \<Longrightarrow>
     configure dev [\<lparr>pc_PublicKey = pub, pc_Remove = False, pc_ReplaceAllowedIPs = True,
       pc_AllowedIPs = [host_net ip]\<rparr>] d = (d', None)"
  by (auto simp: wgctrl_AddPeer_def Let_def split: prod.splits option.splits)

lemma wgctrl_RemovePeer_None:
  "wgctrl_RemovePeer configure dev pub d = (d', None) \<Longrightarrow>
     configure dev [\<lparr>pc_PublicKey = pub, pc_Remove = True, pc_ReplaceAllowedIPs = False,
       pc_AllowedIPs = []\<rparr>] d = (d', None)"
  by (auto simp: wgctrl_RemovePeer_def Let_def split: prod.splits option.splits)

lemma wgctrl_Peers_Inr: "wgctrl_Peers device dev d = Inr ps \<Longrightarrow> device dev d = Inr ps"
  by (auto simp: wgctrl_Peers_def split: sum.splits intro!: map_idI [symmetric])

lemma wgctrlGateway_ok:
  assumes ok: "wgctrl_ok view configure device dev"
  shows "gateway_ok view (wgctrlGateway closing configure device dev)"
  unfolding gateway_ok_def
proof (intro conjI allI impI)
  fix pub ip d d' k
  assume "AddPeer (wgctrlGateway closing configure device dev) pub ip d = (d', None)"
  then have "configure dev [\<lparr>pc_PublicKey = pub, pc_Remove = False, pc_ReplaceAllowedIPs = True,
      pc_AllowedIPs = [host_net ip]\<rparr>] d = (d', None)"
    by (simp add: wgctrlGateway_def wgctrl_AddPeer_None)
  with ok show "fmlookup (view d') k = (if k = pub then Some [host_net ip]
      else map_option (filter (\<lambda>n. n \<noteq> host_net ip)) (fmlookup (view d) k))"
    unfolding wgctrl_ok_def by fastforce
next
  fix pub d d'
  assume "RemovePeer (wgctrlGateway closing configure device dev) pub d = (d', None)"
  then have "configure dev [\<lparr>pc_PublicKey = pub, pc_Remove = True, pc_ReplaceAllowedIPs = False,
      pc_AllowedIPs = []\<rparr>] d = (d', None)"
    by (simp add: wgctrlGateway_def wgctrl_RemovePeer_None)
  with ok show "view d' = fmdrop pub (view d)"
    unfolding wgctrl_ok_def by fastforce
next
  fix peers_of d ps
  assume "Lister (wgctrlGateway closing configure device dev) = Some peers_of" and "peers_of d = Inr ps"
  then have l: "device dev d = Inr ps" by (auto simp: wgctrlGateway_def wgctrl_Peers_Inr)
  with ok show "distinct (map wp_PublicKey ps)" unfolding wgctrl_ok_def by blast
  fix k as
  from l ok show "fmlookup (view d) k = Some as \<longleftrightarrow>
      (\<exists>p \<in> set ps. wp_PublicKey p = k \<and> wp_AllowedIPs p = as)"
    unfolding wgctrl_ok_def by blast
qed

lemmas gateway_AddPeer = gateway_ok_def [THEN iffD1, THEN conjunct1, rule_format]

lemmas gateway_RemovePeer = gateway_ok_def [THEN iffD1, THEN conjunct2, THEN conjunct1, rule_format]

lemmas gateway_Lister =
  gateway_ok_def [THEN iffD1, THEN conjunct2, THEN conjunct2, rule_format, THEN conjunct1]
  gateway_ok_def [THEN iffD1, THEN conjunct2, THEN conjunct2, rule_format, THEN conjunct2, rule_format]

text \<open>The loop removes the keys of the peers that are this server's, and counts them.\<close>

lemma sweep_loop_view:
  assumes "gateway_ok view g" "sweep_loop g pool ps n d = (d', n', None)"
  shows "view d' = fmdrop_set (wp_PublicKey ` {p \<in> set ps. ours p pool}) (view d)"
    and "n' = n + length (filter (\<lambda>p. ours p pool) ps)"
proof -
  have "view d' = fmdrop_set (wp_PublicKey ` {p \<in> set ps. ours p pool}) (view d) \<and>
      n' = n + length (filter (\<lambda>p. ours p pool) ps)"
    using assms(2)
  proof (induction ps arbitrary: n d)
    case (Cons p ps)
    show ?case
    proof (cases "ours p pool")
      case True
      with Cons.prems obtain d1 where r: "RemovePeer g (wp_PublicKey p) d = (d1, None)"
        and l: "sweep_loop g pool ps (n + 1) d1 = (d', n', None)"
        by (auto split: prod.splits option.splits)
      have "{q \<in> set (p # ps). ours q pool} = insert p {q \<in> set ps. ours q pool}"
        using True by auto
      with Cons.IH [OF l] gateway_RemovePeer [OF assms(1) r] True show ?thesis
        by (simp add: insert_commute)
    next
      case False
      then have "{q \<in> set (p # ps). ours q pool} = {q \<in> set ps. ours q pool}" by auto
      with False Cons show ?thesis by simp
    qed
  qed simp
  then show "view d' = fmdrop_set (wp_PublicKey ` {p \<in> set ps. ours p pool}) (view d)"
    and "n' = n + length (filter (\<lambda>p. ours p pool) ps)" by simp_all
qed

text \<open>Every peer this server adds has the shape the sweep recognises.\<close>

lemma ours_host_net:
  assumes "ipv4_net pool p" "length ip = 4"
  shows "ours \<lparr>wp_PublicKey = k, wp_AllowedIPs = [host_net ip]\<rparr> pool \<longleftrightarrow> Contains pool ip"
proof -
  have "Mask_Size (CIDRMask 32 32) = (32, 32)" by code_simp
  then show ?thesis by (simp add: ours_def host_net_def)
qed

text \<open>
  What the sweep recognises, said with numbers: the only allowed IP is a single IPv4 address, all
  32 bits of it fixed, in the interval of the pool.
\<close>

definition lone_host :: "IPNet \<Rightarrow> nat \<Rightarrow> IPNet list \<Rightarrow> bool" where
  "lone_host pool p nets \<longleftrightarrow>
     (\<exists>ip b. nets = [\<lparr>net_IP = ip, net_Mask = [255, 255, 255, 255]\<rparr>] \<and> To4 ip = Some b \<and>
        addr (net_IP pool) \<le> addr b \<and> addr b < addr (net_IP pool) + 2 ^ (32 - p))"

lemma leading_ones_le: "leading_ones k v \<le> k"
  by (induction k) auto

lemma leading_ones_all: "leading_ones k v = k \<longleftrightarrow> (\<forall>i < k. bit v i)"
  by (induction k) (auto simp: less_Suc_eq)

lemma leading_ones_255:
  assumes "leading_ones 8 v = 8"
  shows "v = 255"
proof (rule bit_word_eqI)
  fix i assume i: "i < LENGTH(8)"
  have "(255 :: u8) = mask 8" by (simp add: mask_eq_exp_minus_1)
  then have "bit (255 :: u8) i" using i by (simp only: bit_mask_iff) simp
  then show "bit v i = bit (255 :: u8) i" using assms i by (simp add: leading_ones_all)
qed

lemma simpleMaskLength_le: "simpleMaskLength m \<le> 8 * int (length m)"
proof (induction m)
  case (Cons v m)
  with leading_ones_le [of 8 v] show ?case by (simp add: Let_def del: leading_ones.simps)
qed simp

lemma simpleMaskLength_full: "simpleMaskLength m = 8 * int (length m) \<longleftrightarrow> m = replicate (length m) 255"
proof (induction m)
  case (Cons v m)
  show ?case
  proof (cases "v = 255")
    case False
    then have "leading_ones 8 v < 8" using leading_ones_le [of 8 v] leading_ones_255 [of v] by fastforce
    with False show ?thesis by (simp add: Let_def del: leading_ones.simps)
  qed (use Cons simpleMaskLength_le [of m] in \<open>auto simp: Let_def\<close>)
qed simp

lemma Mask_Size_full: "Mask_Size m = (32, 32) \<longleftrightarrow> m = [255, 255, 255, 255]"
proof
  assume "Mask_Size m = (32, 32)"
  then have "simpleMaskLength m = 8 * int (length m)" "length m = 4"
    by (simp_all add: Mask_Size_def Let_def split: if_splits)
  then show "m = [255, 255, 255, 255]" unfolding simpleMaskLength_full by (simp add: numeral_eq_Suc)
qed (simp, code_simp)

lemma Contains_To4:
  assumes "ipv4_net pool p"
  shows "Contains pool ip \<longleftrightarrow> (\<exists>b. To4 ip = Some b \<and> Contains pool b)"
proof (cases "To4 ip")
  case None
  then have "length ip \<noteq> 4" by (auto simp: To4_def)
  with None assms show ?thesis
    by (simp add: Contains_def networkNumberAndMask_def ipv4_net_def del: cidr_mask_bytes.simps)
next
  case (Some b)
  then have "To4 b = Some b" by (auto simp: To4_def split: if_splits)
  with Some show ?thesis by (simp add: Contains_def)
qed

lemma ours_lone_host:
  assumes "ipv4_net pool p"
  shows "ours \<lparr>wp_PublicKey = k, wp_AllowedIPs = nets\<rparr> pool \<longleftrightarrow> lone_host pool p nets"
proof (cases "\<exists>a. nets = [a]")
  case True
  then obtain a where a: "nets = [a]" by blast
  have "ours \<lparr>wp_PublicKey = k, wp_AllowedIPs = nets\<rparr> pool \<longleftrightarrow>
      Mask_Size (net_Mask a) = (32, 32) \<and> Contains pool (net_IP a)"
    by (auto simp: ours_def a split: prod.splits)
  also have "\<dots> \<longleftrightarrow> lone_host pool p [a]"
    unfolding Mask_Size_full Contains_To4 [OF assms, of "net_IP a"] lone_host_def
    using Contains_interval [OF assms To4_length] by (cases a) auto
  finally show ?thesis by (simp add: a)
next
  case False
  then have "\<not> ours \<lparr>wp_PublicKey = k, wp_AllowedIPs = nets\<rparr> pool" by (auto simp: ours_def split: list.splits)
  with False show ?thesis by (auto simp: lone_host_def)
qed

end
