(* ===== verification/Tenant.thy ===== *)
theory Tenant
  imports Go_Strings
begin

text \<open>
  \<open>internal/tenant\<close>: tenants, who belongs to them, and the channels that carry route updates
  to watchers. A channel is a cell of the heap \<open>chans\<close>, a buffer of capacity one and a closed
  flag; \<open>subs\<close> maps a subscription to its channel. Closing a closed channel or sending on one
  is a \<open>Panic\<close>, sending on a full one while holding the store's lock is \<open>Blocked\<close>, so
  that the theorems can say neither happens. Loops over maps take their visiting order.
\<close>

definition DefaultID :: string where
  "DefaultID = ''default''"

record Tenant =
  t_ID :: string
  t_Name :: string
  t_Domains :: "string list"
  t_Groups :: "string list"
  t_IdPs :: "string list"
  t_AllowedIPs :: "string list"
  t_DNS :: "string list"
  t_Serial :: u64

record RouteSet =
  rs_AllowedIPs :: "string list"
  rs_DNS :: "string list"
  rs_Serial :: u64

record chan =
  ch_buf :: "RouteSet list"
  ch_closed :: bool

type_synonym chan_ref = nat

record tenantState =
  st_t :: Tenant
  st_subs :: "(int, chan_ref) fmap"

record TStore =
  tenants :: "(string, tenantState) fmap"
  nextSub :: int
  chans :: "chan list"

record Member =
  m_Email :: string
  m_EmailVerified :: bool
  m_Groups :: "string list"
  m_IdP :: string

definition route_set :: "Tenant \<Rightarrow> RouteSet" where
  "route_set t = \<lparr>rs_AllowedIPs = t_AllowedIPs t, rs_DNS = t_DNS t, rs_Serial = t_Serial t\<rparr>"

definition New_TStore :: "string list \<Rightarrow> string list \<Rightarrow> TStore" where
  "New_TStore defaultAllowedIPs defaultDNS =
     \<lparr>tenants = fmupd DefaultID
        \<lparr>st_t = \<lparr>t_ID = DefaultID, t_Name = ''Default'', t_Domains = [], t_Groups = [], t_IdPs = [],
                 t_AllowedIPs = defaultAllowedIPs, t_DNS = defaultDNS, t_Serial = 1\<rparr>,
         st_subs = fmempty\<rparr> fmempty,
      nextSub = 0, chans = []\<rparr>"

section \<open>Membership\<close>

text \<open>\<open>EqualFold\<close> is exact for domains in ASCII, the alphabet of a domain on the wire.\<close>

definition has_domain :: "Tenant \<Rightarrow> Member \<Rightarrow> bool" where
  "has_domain t m =
     (m_EmailVerified m \<and>
      (let at = LastIndex (m_Email m) CHR ''@''
       in 0 \<le> at \<and>
          (let domain = drop (nat (at + 1)) (m_Email m)
           in list_ex (\<lambda>d. EqualFold (TrimSpace d) domain) (t_Domains t))))"

definition has_group :: "Tenant \<Rightarrow> Member \<Rightarrow> bool" where
  "has_group t m =
     list_ex (\<lambda>g. list_ex (\<lambda>mg. TrimSpace g \<noteq> [] \<and> TrimSpace g = mg) (m_Groups m)) (t_Groups t)"

definition has_idp :: "Tenant \<Rightarrow> Member \<Rightarrow> bool" where
  "has_idp t m = (m_IdP m \<noteq> [] \<and> list_ex (\<lambda>idp. TrimSpace idp = m_IdP m) (t_IdPs t))"

definition has :: "Tenant \<Rightarrow> Member \<Rightarrow> bool" where
  "has t m =
     (if has_domain t m then True
      else if has_group t m then True
      else if has_idp t m then True
      else False)"

definition For :: "string list \<Rightarrow> TStore \<Rightarrow> Member \<Rightarrow> Tenant list outcome" where
  "For ks s m =
     (let out = filter (\<lambda>t. has t m) (map st_t (range_values ks (tenants s)))
      in if out = [] then
           (case fmlookup (tenants s) DefaultID of
              None \<Rightarrow> Panic
            | Some st \<Rightarrow> Ok [st_t st])
         else Ok (sort_key t_ID out))"

definition IsMember :: "string list \<Rightarrow> TStore \<Rightarrow> string \<Rightarrow> Member \<Rightarrow> bool outcome" where
  "IsMember ks s tid m = obind (For ks s m) (\<lambda>ts. Ok (list_ex (\<lambda>t. t_ID t = tid) ts))"

text \<open>\<open>st := s.tenants[id]; if st == nil { st = s.tenants[DefaultID] }\<close>.\<close>

definition tenant_or_default :: "TStore \<Rightarrow> string \<Rightarrow> (string \<times> tenantState) outcome" where
  "tenant_or_default s tid =
     (case fmlookup (tenants s) tid of
        Some st \<Rightarrow> Ok (tid, st)
      | None \<Rightarrow>
          (case fmlookup (tenants s) DefaultID of
             Some st \<Rightarrow> Ok (DefaultID, st)
           | None \<Rightarrow> Panic))"

definition Routes :: "TStore \<Rightarrow> string \<Rightarrow> RouteSet outcome" where
  "Routes s tid = obind (tenant_or_default s tid) (\<lambda>(_, st). Ok (route_set (st_t st)))"

definition List_Tenants :: "string list \<Rightarrow> TStore \<Rightarrow> Tenant list" where
  "List_Tenants ks s = sort_key t_ID (map st_t (range_values ks (tenants s)))"

definition Get_Tenant :: "TStore \<Rightarrow> string \<Rightarrow> Tenant option" where
  "Get_Tenant s tid = map_option st_t (fmlookup (tenants s) tid)"

section \<open>Slugs\<close>

definition slug_char :: "char \<Rightarrow> string" where
  "slug_char r =
     (if CHR ''a'' \<le> r \<and> r \<le> CHR ''z'' \<or> CHR ''0'' \<le> r \<and> r \<le> CHR ''9'' then [r]
      else if r = CHR '' '' \<or> r = CHR ''_'' \<or> r = CHR ''-'' \<or> r = CHR ''.'' then ''-''
      else [])"

text \<open>
  Of the runes outside ASCII a slug keeps those whose lower case is in it: the Kelvin sign, \<open>k\<close>,
  and the dotted capital, \<open>i\<close>. With them replaced, \<open>ToLower\<close> is Go's as far as \<open>slug\<close> can see.
\<close>

fun special_lower :: "string \<Rightarrow> string" where
  "special_lower [] = []"
| "special_lower (c # s) =
     (if c = CHR 0xE2 \<and> take 2 s = [CHR 0x84, CHR 0xAA] then CHR ''k'' # special_lower (drop 2 s)
      else if c = CHR 0xC4 \<and> take 1 s = [CHR 0xB0] then CHR ''i'' # special_lower (drop 1 s)
      else c # special_lower s)"

definition slug :: "string \<Rightarrow> string" where
  "slug s = trim_char CHR ''-'' (concat (map slug_char (ToLower (special_lower (TrimSpace s)))))"

section \<open>Channels\<close>

definition make_chan :: chan where
  "make_chan = \<lparr>ch_buf = [], ch_closed = False\<rparr>"

definition close_chan :: "chan_ref \<Rightarrow> chan list \<Rightarrow> chan list outcome" where
  "close_chan r h =
     (if length h \<le> r \<or> ch_closed (h ! r) then Panic
      else Ok (h[r := (h ! r)\<lparr>ch_closed := True\<rparr>]))"

text \<open>\<open>select { case <-ch: default: }\<close>.\<close>

definition drain_chan :: "chan_ref \<Rightarrow> chan list \<Rightarrow> chan list" where
  "drain_chan r h = h[r := (h ! r)\<lparr>ch_buf := tl (ch_buf (h ! r))\<rparr>]"

text \<open>\<open>ch <- set\<close> on a channel of capacity one, with nobody else able to run.\<close>

definition send_chan :: "RouteSet \<Rightarrow> chan_ref \<Rightarrow> chan list \<Rightarrow> chan list outcome" where
  "send_chan x r h =
     (if length h \<le> r then Blocked
      else if ch_closed (h ! r) then Panic
      else if 1 \<le> length (ch_buf (h ! r)) then Blocked
      else Ok (h[r := (h ! r)\<lparr>ch_buf := ch_buf (h ! r) @ [x]\<rparr>]))"

fun close_all :: "chan_ref list \<Rightarrow> chan list \<Rightarrow> chan list outcome" where
  "close_all [] h = Ok h"
| "close_all (r # rs) h = obind (close_chan r h) (close_all rs)"

fun broadcast_all :: "RouteSet \<Rightarrow> chan_ref list \<Rightarrow> chan list \<Rightarrow> chan list outcome" where
  "broadcast_all x [] h = Ok h"
| "broadcast_all x (r # rs) h = obind (send_chan x r (drain_chan r h)) (broadcast_all x rs)"

section \<open>Operations\<close>

definition broadcastLocked :: "int list \<Rightarrow> tenantState \<Rightarrow> chan list \<Rightarrow> chan list outcome" where
  "broadcastLocked subs st h = broadcast_all (route_set (st_t st)) (range_values subs (st_subs st)) h"

definition Create :: "TStore \<Rightarrow> Tenant \<Rightarrow> Tenant result \<times> TStore" where
  "Create s t =
     (let t1 = t\<lparr>t_ID := slug (t_ID t)\<rparr>;
          t2 = (if t_ID t1 = [] then t1\<lparr>t_ID := slug (t_Name t1)\<rparr> else t1)
      in if t_ID t2 = [] then (Inl ''tenant id or name required'', s)
         else if fmlookup (tenants s) (t_ID t2) \<noteq> None
           then (Inl (''tenant '' @ quoted (t_ID t2) @ '' already exists''), s)
         else (let t3 = t2\<lparr>t_Serial := 1\<rparr>
               in (Inr t3, s\<lparr>tenants := fmupd (t_ID t3) \<lparr>st_t = t3, st_subs = fmempty\<rparr> (tenants s)\<rparr>)))"

definition Update :: "int list \<Rightarrow> TStore \<Rightarrow> string \<Rightarrow> Tenant \<Rightarrow> (Tenant result \<times> TStore) outcome" where
  "Update subs s tid in_t =
     (case fmlookup (tenants s) tid of
        None \<Rightarrow> Ok (Inl (''tenant '' @ quoted tid @ '' not found''), s)
      | Some st \<Rightarrow>
          (let t' = (st_t st)\<lparr>t_Name := t_Name in_t, t_Domains := t_Domains in_t,
                 t_Groups := t_Groups in_t, t_IdPs := t_IdPs in_t,
                 t_AllowedIPs := t_AllowedIPs in_t, t_DNS := t_DNS in_t,
                 t_Serial := t_Serial (st_t st) + 1\<rparr>;
               st' = st\<lparr>st_t := t'\<rparr>
           in obind (broadcastLocked subs st' (chans s))
                (\<lambda>h. Ok (Inr t', s\<lparr>tenants := fmupd tid st' (tenants s), chans := h\<rparr>))))"

definition Delete_Tenant :: "int list \<Rightarrow> TStore \<Rightarrow> string \<Rightarrow> (error option \<times> TStore) outcome" where
  "Delete_Tenant subs s tid =
     (if tid = DefaultID then Ok (Some ''cannot delete the default tenant'', s)
      else case fmlookup (tenants s) tid of
        None \<Rightarrow> Ok (Some (''tenant '' @ quoted tid @ '' not found''), s)
      | Some st \<Rightarrow>
          obind (close_all (range_values subs (st_subs st)) (chans s))
            (\<lambda>h. Ok (None, s\<lparr>tenants := fmdrop tid (tenants s), chans := h\<rparr>)))"

definition Subscribe :: "TStore \<Rightarrow> string \<Rightarrow> (int \<times> chan_ref \<times> RouteSet \<times> TStore) outcome" where
  "Subscribe s tenantID =
     obind (tenant_or_default s tenantID) (\<lambda>(k, st).
       let sid = nextSub s; r = length (chans s)
       in Ok (sid, r, route_set (st_t st),
            s\<lparr>tenants := fmupd k (st\<lparr>st_subs := fmupd sid r (st_subs st)\<rparr>) (tenants s),
              nextSub := sid + 1, chans := chans s @ [make_chan]\<rparr>))"

definition Unsubscribe :: "TStore \<Rightarrow> string \<Rightarrow> int \<Rightarrow> TStore outcome" where
  "Unsubscribe s tenantID sid =
     obind (tenant_or_default s tenantID) (\<lambda>(k, st).
       case fmlookup (st_subs st) sid of
         None \<Rightarrow> Ok s
       | Some r \<Rightarrow>
           obind (close_chan r (chans s)) (\<lambda>h.
             Ok (s\<lparr>tenants := fmupd k (st\<lparr>st_subs := fmdrop sid (st_subs st)\<rparr>) (tenants s),
                   chans := h\<rparr>)))"

definition WatcherCount :: "string list \<Rightarrow> TStore \<Rightarrow> nat" where
  "WatcherCount ks s = foldl (\<lambda>n st. n + fcard (fmdom (st_subs st))) 0 (range_values ks (tenants s))"

text \<open>What a watcher's receive does: the next update, the end of a closed channel, or nothing yet.\<close>

datatype received = Received RouteSet | ChannelClosed | NothingYet

definition recv_chan :: "chan_ref \<Rightarrow> TStore \<Rightarrow> received \<times> TStore" where
  "recv_chan r s =
     (case ch_buf (chans s ! r) of
        x # _ \<Rightarrow> (Received x, s\<lparr>chans := drain_chan r (chans s)\<rparr>)
      | [] \<Rightarrow> (if ch_closed (chans s ! r) then ChannelClosed else NothingYet, s))"

section \<open>Slugs are identifiers\<close>

definition slug_alphabet :: "char \<Rightarrow> bool" where
  "slug_alphabet c \<longleftrightarrow>
     CHR ''a'' \<le> c \<and> c \<le> CHR ''z'' \<or> CHR ''0'' \<le> c \<and> c \<le> CHR ''9'' \<or> c = CHR ''-''"

lemma slug_char_alphabet: "c \<in> set (slug_char r) \<Longrightarrow> slug_alphabet c"
  by (auto simp: slug_char_def slug_alphabet_def split: if_splits)

lemma slug_alphabet_slug: "c \<in> set (slug s) \<Longrightarrow> slug_alphabet c"
  using set_trim_char [of "CHR ''-''" "concat (map slug_char (ToLower (special_lower (TrimSpace s))))"]
  by (auto simp: slug_def slug_char_alphabet)

lemma slug_char_id: "slug_alphabet c \<Longrightarrow> slug_char c = [c]"
  by (auto simp: slug_alphabet_def slug_char_def)

lemma char_le_of_char: "c \<le> d \<longleftrightarrow> (of_char c :: nat) \<le> of_char d"
  by (simp add: less_eq_char_def)

lemma ascii_lower_slug: "slug_alphabet c \<Longrightarrow> ascii_lower c = c"
  by (auto simp: slug_alphabet_def ascii_lower_def char_le_of_char)

lemma spaces_not_slug: "\<forall>w \<in> set spaces. \<not> slug_alphabet (hd w) \<and> \<not> slug_alphabet (last w)"
proof -
  have "list_all (\<lambda>w. \<not> slug_alphabet (hd w) \<and> \<not> slug_alphabet (last w)) spaces"
    by code_simp
  then show ?thesis by (simp add: list_all_iff)
qed

lemma slug_of_slug_text:
  assumes "\<forall>c \<in> set s. slug_alphabet c" shows "slug s = trim_char CHR ''-'' s"
proof -
  have "TrimSpace s = s" using assms spaces_not_slug by (intro TrimSpace_id) blast
  moreover have "special_lower s = s"
    using assms by (induction s) (auto simp: slug_alphabet_def char_le_of_char)
  moreover have "ToLower s = s" using assms by (simp add: ToLower_def ascii_lower_slug map_idI)
  moreover have "concat (map slug_char s) = s"
    using assms by (induction s) (auto simp: slug_char_id)
  ultimately show ?thesis by (simp add: slug_def)
qed

lemma slug_ends: "slug s \<noteq> [] \<Longrightarrow> hd (slug s) \<noteq> CHR ''-'' \<and> last (slug s) \<noteq> CHR ''-''"
  unfolding slug_def using hd_trim_char last_trim_char by blast

lemma slug_slug: "slug (slug s) = slug s"
  using slug_of_slug_text [of "slug s"] slug_alphabet_slug slug_ends [of s]
  by (simp add: trim_char_id)

section \<open>The invariant\<close>

text \<open>The channel of subscription \<open>i\<close> of the tenant \<open>k\<close>.\<close>

definition sub_of :: "TStore \<Rightarrow> string \<Rightarrow> int \<Rightarrow> chan_ref option" where
  "sub_of s k i = Option.bind (fmlookup (tenants s) k) (\<lambda>st. fmlookup (st_subs st) i)"

definition live :: "chan \<Rightarrow> bool" where
  "live c \<longleftrightarrow> \<not> ch_closed c \<and> length (ch_buf c) \<le> 1"

text \<open>
  The default tenant exists; every tenant is stored under its ID; subscriptions are numbered in
  the order their channels were made, belong to one tenant each, and have open channels.
\<close>

definition ts_inv :: "TStore \<Rightarrow> bool" where
  "ts_inv s \<longleftrightarrow>
     Get_Tenant s DefaultID \<noteq> None \<and>
     (\<forall>k t. Get_Tenant s k = Some t \<longrightarrow> t_ID t = k) \<and>
     nextSub s = int (length (chans s)) \<and>
     (\<forall>k i r. sub_of s k i = Some r \<longrightarrow> i = int r \<and> r < length (chans s) \<and> live (chans s ! r)) \<and>
     (\<forall>k k' i r r'. sub_of s k i = Some r \<longrightarrow> sub_of s k' i = Some r' \<longrightarrow> k = k')"

lemma ts_inv_New: "ts_inv (New_TStore a d)"
  by (simp add: ts_inv_def New_TStore_def Get_Tenant_def sub_of_def)

lemma ts_inv_default: "ts_inv s \<Longrightarrow> \<exists>st. fmlookup (tenants s) DefaultID = Some st"
  by (auto simp: ts_inv_def Get_Tenant_def)

lemma ts_inv_sub:
  "ts_inv s \<Longrightarrow> sub_of s k i = Some r \<Longrightarrow> i = int r \<and> r < length (chans s) \<and> live (chans s ! r)"
  by (auto simp: ts_inv_def)

section \<open>Channel loops\<close>

lemma broadcast_all_ok:
  "\<lbrakk>distinct rs; \<forall>r \<in> set rs. r < length h \<and> live (h ! r)\<rbrakk> \<Longrightarrow>
     \<exists>h'. broadcast_all x rs h = Ok h' \<and> length h' = length h \<and>
       (\<forall>r \<in> set rs. h' ! r = \<lparr>ch_buf = [x], ch_closed = False\<rparr>) \<and>
       (\<forall>r. r \<notin> set rs \<longrightarrow> h' ! r = h ! r)"
proof (induction rs arbitrary: h)
  case (Cons r rs)
  let ?h = "h[r := \<lparr>ch_buf = [x], ch_closed = False\<rparr>]"
  have r: "r < length h" "live (h ! r)" using Cons.prems by auto
  then have "tl (ch_buf (h ! r)) = []"
    by (cases "ch_buf (h ! r)") (auto simp: live_def)
  with r have "send_chan x r (drain_chan r h) = Ok ?h"
    by (cases "h ! r") (simp add: send_chan_def drain_chan_def live_def)
  moreover have "\<forall>q \<in> set rs. q < length ?h \<and> live (?h ! q)"
    using Cons.prems by (auto simp: nth_list_update)
  ultimately show ?case
    using Cons.IH [of ?h] Cons.prems r by (fastforce simp: nth_list_update)
qed simp

lemma close_all_ok:
  "\<lbrakk>distinct rs; \<forall>r \<in> set rs. r < length h \<and> live (h ! r)\<rbrakk> \<Longrightarrow>
     \<exists>h'. close_all rs h = Ok h' \<and> length h' = length h \<and>
       (\<forall>r \<in> set rs. h' ! r = (h ! r)\<lparr>ch_closed := True\<rparr>) \<and>
       (\<forall>r. r \<notin> set rs \<longrightarrow> h' ! r = h ! r)"
proof (induction rs arbitrary: h)
  case (Cons r rs)
  let ?h = "h[r := (h ! r)\<lparr>ch_closed := True\<rparr>]"
  have r: "r < length h" "live (h ! r)" using Cons.prems by auto
  then have "close_chan r h = Ok ?h" by (simp add: close_chan_def live_def)
  moreover have "\<forall>q \<in> set rs. q < length ?h \<and> live (?h ! q)"
    using Cons.prems by (auto simp: nth_list_update)
  ultimately show ?case
    using Cons.IH [of ?h] Cons.prems r by (fastforce simp: nth_list_update)
qed simp

text \<open>The channels a loop over one tenant's subscriptions visits: all live, each once.\<close>

lemma tenant_subs:
  assumes inv: "ts_inv s" and st: "fmlookup (tenants s) k = Some st"
    and subs: "ranges_over subs (st_subs st)"
  shows "distinct (range_values subs (st_subs st))"
    and "r \<in> set (range_values subs (st_subs st)) \<longleftrightarrow> (\<exists>i. sub_of s k i = Some r)"
    and "\<forall>r \<in> set (range_values subs (st_subs st)). r < length (chans s) \<and> live (chans s ! r)"
proof -
  have sub: "sub_of s k i = fmlookup (st_subs st) i" for i by (simp add: sub_of_def st)
  have "i \<in> set subs \<Longrightarrow> \<exists>r. fmlookup (st_subs st) i = Some r \<and> i = int r" for i
    using subs ts_inv_sub [OF inv, of k i] by (auto simp: sub ranges_over_def fmlookup_dom'_iff)
  then have "map int (range_values subs (st_subs st)) = subs"
    unfolding range_values_def by (induction subs) fastforce+
  moreover have "distinct subs" using subs by (simp add: ranges_over_def)
  ultimately show "distinct (range_values subs (st_subs st))" by (metis distinct_map)
  have mem: "r \<in> set (range_values subs (st_subs st)) \<longleftrightarrow> (\<exists>i. sub_of s k i = Some r)" for r
    using subs by (auto simp: set_range_values sub dest: ranges_over_memberD)
  then show "r \<in> set (range_values subs (st_subs st)) \<longleftrightarrow> (\<exists>i. sub_of s k i = Some r)" .
  show "\<forall>r \<in> set (range_values subs (st_subs st)). r < length (chans s) \<and> live (chans s ! r)"
    using mem ts_inv_sub [OF inv] by blast
qed

section \<open>What the operations do\<close>

lemma tenant_or_default_ok:
  assumes "ts_inv s"
  obtains k st where "tenant_or_default s tid = Ok (k, st)" "fmlookup (tenants s) k = Some st"
    "k = (if fmlookup (tenants s) tid = None then DefaultID else tid)"
  using ts_inv_default [OF assms] that
  by (cases "fmlookup (tenants s) tid") (auto simp: tenant_or_default_def)

lemma Get_Tenant_lookup: "fmlookup (tenants s) k = Some st \<Longrightarrow> Get_Tenant s k = Some (st_t st)"
  by (simp add: Get_Tenant_def)

lemma Create_Inr:
  assumes "Create s t = (Inr t', s')"
  shows "Get_Tenant s (t_ID t') = None"
    and "Get_Tenant s' k = (if k = t_ID t' then Some t' else Get_Tenant s k)"
    and "sub_of s' k i = sub_of s k i" and "chans s' = chans s" and "nextSub s' = nextSub s"
    and "t_Serial t' = 1" and "t_ID t' \<noteq> []"
    and "t_ID t' = (if slug (t_ID t) = [] then slug (t_Name t) else slug (t_ID t))"
  using assms
  by (auto simp: Create_def Let_def Get_Tenant_def sub_of_def split: if_splits)

lemma Create_Inl: "Create s t = (Inl e, s') \<Longrightarrow> s' = s"
  by (auto simp: Create_def Let_def split: if_splits)

definition updated :: "Tenant \<Rightarrow> Tenant \<Rightarrow> Tenant" where
  "updated t in_t = t\<lparr>t_Name := t_Name in_t, t_Domains := t_Domains in_t,
     t_Groups := t_Groups in_t, t_IdPs := t_IdPs in_t,
     t_AllowedIPs := t_AllowedIPs in_t, t_DNS := t_DNS in_t, t_Serial := t_Serial t + 1\<rparr>"

lemma updated_ID [simp]: "t_ID (updated t in_t) = t_ID t"
  by (simp add: updated_def)

lemma Update_known:
  assumes inv: "ts_inv s" and st: "fmlookup (tenants s) k = Some st"
    and subs: "ranges_over subs (st_subs st)"
  obtains s' where "Update subs s k in_t = Ok (Inr (updated (st_t st) in_t), s')"
    and "\<And>j. Get_Tenant s' j = (if j = k then Some (updated (st_t st) in_t) else Get_Tenant s j)"
    and "\<And>j i. sub_of s' j i = sub_of s j i"
    and "length (chans s') = length (chans s)" and "nextSub s' = nextSub s"
    and "\<And>i r. sub_of s k i = Some r \<Longrightarrow>
      chans s' ! r = \<lparr>ch_buf = [route_set (updated (st_t st) in_t)], ch_closed = False\<rparr>"
    and "\<And>r. \<forall>i. sub_of s k i \<noteq> Some r \<Longrightarrow> chans s' ! r = chans s ! r"
proof -
  let ?t = "updated (st_t st) in_t"
  let ?rs = "range_values subs (st_subs st)"
  obtain h where h: "broadcast_all (route_set ?t) ?rs (chans s) = Ok h"
    "length h = length (chans s)"
    "\<forall>r \<in> set ?rs. h ! r = \<lparr>ch_buf = [route_set ?t], ch_closed = False\<rparr>"
    "\<forall>r. r \<notin> set ?rs \<longrightarrow> h ! r = chans s ! r"
    using broadcast_all_ok [OF tenant_subs(1,3) [OF inv st subs]] by blast
  let ?s = "s\<lparr>tenants := fmupd k (st\<lparr>st_t := ?t\<rparr>) (tenants s), chans := h\<rparr>"
  have "Update subs s k in_t = Ok (Inr ?t, ?s)"
    using h(1) by (simp add: Update_def st broadcastLocked_def updated_def Let_def)
  moreover have "Get_Tenant ?s j = (if j = k then Some ?t else Get_Tenant s j)" for j
    by (simp add: Get_Tenant_def)
  moreover have "sub_of ?s j i = sub_of s j i" for j i
    using st by (auto simp: sub_of_def)
  moreover have "sub_of s k i = Some r \<Longrightarrow>
      chans ?s ! r = \<lparr>ch_buf = [route_set ?t], ch_closed = False\<rparr>" for i r
    using h(3) tenant_subs(2) [OF inv st subs] by auto
  ultimately show ?thesis
    using that [of ?s] h(2,4) tenant_subs(2) [OF inv st subs] by simp
qed

lemma Update_unknown:
  "fmlookup (tenants s) k = None \<Longrightarrow>
     Update subs s k in_t = Ok (Inl (''tenant '' @ quoted k @ '' not found''), s)"
  by (simp add: Update_def)

lemma Delete_Tenant_known:
  assumes inv: "ts_inv s" and st: "fmlookup (tenants s) k = Some st" and k: "k \<noteq> DefaultID"
    and subs: "ranges_over subs (st_subs st)"
  obtains s' where "Delete_Tenant subs s k = Ok (None, s')"
    and "\<And>j. Get_Tenant s' j = (if j = k then None else Get_Tenant s j)"
    and "\<And>j i. sub_of s' j i = (if j = k then None else sub_of s j i)"
    and "length (chans s') = length (chans s)" and "nextSub s' = nextSub s"
    and "\<And>i r. sub_of s k i = Some r \<Longrightarrow> chans s' ! r = (chans s ! r)\<lparr>ch_closed := True\<rparr>"
    and "\<And>r. \<forall>i. sub_of s k i \<noteq> Some r \<Longrightarrow> chans s' ! r = chans s ! r"
proof -
  let ?rs = "range_values subs (st_subs st)"
  obtain h where h: "close_all ?rs (chans s) = Ok h" "length h = length (chans s)"
    "\<forall>r \<in> set ?rs. h ! r = (chans s ! r)\<lparr>ch_closed := True\<rparr>"
    "\<forall>r. r \<notin> set ?rs \<longrightarrow> h ! r = chans s ! r"
    using close_all_ok [OF tenant_subs(1,3) [OF inv st subs]] by blast
  let ?s = "s\<lparr>tenants := fmdrop k (tenants s), chans := h\<rparr>"
  have "Delete_Tenant subs s k = Ok (None, ?s)"
    using h(1) k by (simp add: Delete_Tenant_def st)
  moreover have "Get_Tenant ?s j = (if j = k then None else Get_Tenant s j)" for j
    by (simp add: Get_Tenant_def)
  moreover have "sub_of ?s j i = (if j = k then None else sub_of s j i)" for j i
    by (simp add: sub_of_def)
  moreover have "sub_of s k i = Some r \<Longrightarrow> chans ?s ! r = (chans s ! r)\<lparr>ch_closed := True\<rparr>" for i r
    using h(3) tenant_subs(2) [OF inv st subs] by auto
  ultimately show ?thesis
    using that [of ?s] h(2,4) tenant_subs(2) [OF inv st subs] by simp
qed

lemma Subscribe_ok:
  assumes inv: "ts_inv s"
  obtains k st s' where "fmlookup (tenants s) k = Some st"
    and "k = (if fmlookup (tenants s) tid = None then DefaultID else tid)"
    and "Subscribe s tid = Ok (nextSub s, length (chans s), route_set (st_t st), s')"
    and "\<And>j. Get_Tenant s' j = Get_Tenant s j"
    and "\<And>j i. sub_of s' j i = (if j = k \<and> i = nextSub s then Some (length (chans s)) else sub_of s j i)"
    and "chans s' = chans s @ [make_chan]" and "nextSub s' = nextSub s + 1"
proof -
  obtain k st where k: "tenant_or_default s tid = Ok (k, st)" "fmlookup (tenants s) k = Some st"
    "k = (if fmlookup (tenants s) tid = None then DefaultID else tid)"
    using tenant_or_default_ok [OF inv, of tid] by blast
  let ?s = "s\<lparr>tenants := fmupd k (st\<lparr>st_subs := fmupd (nextSub s) (length (chans s)) (st_subs st)\<rparr>) (tenants s),
    nextSub := nextSub s + 1, chans := chans s @ [make_chan]\<rparr>"
  have "Subscribe s tid = Ok (nextSub s, length (chans s), route_set (st_t st), ?s)"
    by (simp add: Subscribe_def k(1) Let_def)
  moreover have "Get_Tenant ?s j = Get_Tenant s j" for j using k(2) by (auto simp: Get_Tenant_def)
  moreover have "sub_of ?s j i =
      (if j = k \<and> i = nextSub s then Some (length (chans s)) else sub_of s j i)" for j i
    using k(2) by (auto simp: sub_of_def)
  ultimately show ?thesis using that [OF k(2,3)] by simp
qed

lemma Unsubscribe_ok:
  assumes inv: "ts_inv s"
  obtains k s' where "k = (if fmlookup (tenants s) tid = None then DefaultID else tid)"
    and "Unsubscribe s tid i = Ok s'"
    and "\<And>j. Get_Tenant s' j = Get_Tenant s j"
    and "\<And>j n. sub_of s' j n = (if j = k \<and> n = i then None else sub_of s j n)"
    and "length (chans s') = length (chans s)" and "nextSub s' = nextSub s"
    and "\<And>r. sub_of s k i = Some r \<Longrightarrow> chans s' ! r = (chans s ! r)\<lparr>ch_closed := True\<rparr>"
    and "\<And>r. sub_of s k i \<noteq> Some r \<Longrightarrow> chans s' ! r = chans s ! r"
proof -
  obtain k st where k: "tenant_or_default s tid = Ok (k, st)" "fmlookup (tenants s) k = Some st"
    "k = (if fmlookup (tenants s) tid = None then DefaultID else tid)"
    using tenant_or_default_ok [OF inv, of tid] by blast
  have sub: "sub_of s k n = fmlookup (st_subs st) n" for n by (simp add: sub_of_def k(2))
  show ?thesis
  proof (cases "fmlookup (st_subs st) i")
    case None
    then have "Unsubscribe s tid i = Ok s" by (simp add: Unsubscribe_def k(1))
    with None sub show ?thesis using that [OF k(3), of s] by auto
  next
    case (Some r)
    then have r: "r < length (chans s)" "live (chans s ! r)"
      using ts_inv_sub [OF inv, of k i r] sub by auto
    let ?s = "s\<lparr>tenants := fmupd k (st\<lparr>st_subs := fmdrop i (st_subs st)\<rparr>) (tenants s),
      chans := (chans s)[r := (chans s ! r)\<lparr>ch_closed := True\<rparr>]\<rparr>"
    have "Unsubscribe s tid i = Ok ?s"
      using Some r by (simp add: Unsubscribe_def k(1) close_chan_def live_def)
    moreover have "Get_Tenant ?s j = Get_Tenant s j" for j using k(2) by (auto simp: Get_Tenant_def)
    moreover have "sub_of ?s j n = (if j = k \<and> n = i then None else sub_of s j n)" for j n
      using k(2) by (auto simp: sub_of_def)
    ultimately show ?thesis using that [OF k(3), of ?s] Some sub r by auto
  qed
qed

section \<open>Every operation keeps the invariant\<close>

text \<open>Operations that make no subscription: those left have live channels.\<close>

lemma ts_inv_shrink:
  assumes "ts_inv s" "Get_Tenant s' DefaultID \<noteq> None"
    and "\<And>k t. Get_Tenant s' k = Some t \<Longrightarrow> t_ID t = k"
    and "nextSub s' = nextSub s" "length (chans s') = length (chans s)"
    and "\<And>k i r. sub_of s' k i = Some r \<Longrightarrow> sub_of s k i = Some r \<and> live (chans s' ! r)"
  shows "ts_inv s'"
proof -
  have sub: "sub_of s k i = Some r \<Longrightarrow> i = int r \<and> r < length (chans s)" for k i r
    using ts_inv_sub [OF assms(1)] by blast
  have "\<forall>k k' i r r'. sub_of s k i = Some r \<longrightarrow> sub_of s k' i = Some r' \<longrightarrow> k = k'"
    using assms(1) unfolding ts_inv_def by blast
  moreover have "nextSub s = int (length (chans s))" using assms(1) by (simp add: ts_inv_def)
  ultimately show ?thesis
    unfolding ts_inv_def using assms(2-6) sub by metis
qed

lemma ts_inv_ID: "ts_inv s \<Longrightarrow> Get_Tenant s k = Some t \<Longrightarrow> t_ID t = k"
  by (simp add: ts_inv_def)

lemma sub_one_tenant: "ts_inv s \<Longrightarrow> sub_of s j i = Some r \<Longrightarrow> sub_of s j' i = Some r' \<Longrightarrow> j = j'"
  unfolding ts_inv_def by blast

lemma live_other_tenant:
  assumes "ts_inv s" "sub_of s j i = Some r" "sub_of s k n = Some r" shows "j = k"
proof -
  have "i = n" using ts_inv_sub [OF assms(1,2)] ts_inv_sub [OF assms(1,3)] by simp
  then show ?thesis using assms by (auto intro: sub_one_tenant)
qed

lemma ts_inv_has_default: "ts_inv s \<Longrightarrow> Get_Tenant s DefaultID \<noteq> None"
  by (simp add: ts_inv_def)

lemma ts_inv_Create:
  assumes inv: "ts_inv s" and c: "Create s t = (r, s')" shows "ts_inv s'"
proof (cases r)
  case (Inr t')
  note eff = Create_Inr [OF c [unfolded Inr]]
  show ?thesis
  proof (rule ts_inv_shrink [OF inv])
    show "Get_Tenant s' DefaultID \<noteq> None" using ts_inv_has_default [OF inv] by (simp add: eff(2))
    show "t_ID u = k" if "Get_Tenant s' k = Some u" for k u
      using that ts_inv_ID [OF inv] by (auto simp: eff(2) split: if_splits)
    show "sub_of s k i = Some q \<and> live (chans s' ! q)" if "sub_of s' k i = Some q" for k i q
      using that ts_inv_sub [OF inv, of k i q] by (simp add: eff(3,4))
  qed (simp_all add: eff(4,5))
qed (use inv c in \<open>auto dest: Create_Inl\<close>)

lemma ts_inv_Update:
  assumes inv: "ts_inv s"
    and subs: "\<forall>st. fmlookup (tenants s) k = Some st \<longrightarrow> ranges_over subs (st_subs st)"
    and upd: "Update subs s k in_t = Ok (r, s')"
  shows "ts_inv s'"
proof (cases "fmlookup (tenants s) k")
  case (Some st)
  let ?t = "updated (st_t st) in_t"
  have rg: "ranges_over subs (st_subs st)" using subs Some by simp
  show ?thesis
  proof (rule Update_known [OF inv Some rg, of in_t])
    fix s1
    assume u: "Update subs s k in_t = Ok (Inr ?t, s1)"
      and g: "\<And>j. Get_Tenant s1 j = (if j = k then Some ?t else Get_Tenant s j)"
      and sb: "\<And>j i. sub_of s1 j i = sub_of s j i"
      and len: "length (chans s1) = length (chans s)" and ns: "nextSub s1 = nextSub s"
      and ch: "\<And>i r. sub_of s k i = Some r \<Longrightarrow>
        chans s1 ! r = \<lparr>ch_buf = [route_set ?t], ch_closed = False\<rparr>"
      and oth: "\<And>r. \<forall>i. sub_of s k i \<noteq> Some r \<Longrightarrow> chans s1 ! r = chans s ! r"
    have "ts_inv s1"
    proof (rule ts_inv_shrink [OF inv _ _ ns len])
      show "Get_Tenant s1 DefaultID \<noteq> None" using ts_inv_has_default [OF inv] by (simp add: g)
      show "t_ID v = j" if "Get_Tenant s1 j = Some v" for j v
        using that ts_inv_ID [OF inv, of j] ts_inv_ID [OF inv Get_Tenant_lookup [OF Some]]
        by (auto simp: g split: if_splits)
      show "sub_of s j i = Some q \<and> live (chans s1 ! q)" if "sub_of s1 j i = Some q" for j i q
        using that ch [of _ q] oth [of q] ts_inv_sub [OF inv, of j i q]
        by (cases "\<exists>n. sub_of s k n = Some q") (auto simp: sb live_def)
    qed
    with u upd show "ts_inv s'" by simp
  qed
qed (use inv upd in \<open>auto simp: Update_unknown\<close>)

lemma ts_inv_Delete_Tenant:
  assumes inv: "ts_inv s"
    and subs: "\<forall>st. fmlookup (tenants s) k = Some st \<longrightarrow> ranges_over subs (st_subs st)"
    and del: "Delete_Tenant subs s k = Ok (r, s')"
  shows "ts_inv s'"
proof (cases "k \<noteq> DefaultID \<and> fmlookup (tenants s) k \<noteq> None")
  case True
  then obtain st where st: "fmlookup (tenants s) k = Some st" and k: "k \<noteq> DefaultID" by auto
  have rg: "ranges_over subs (st_subs st)" using subs st by simp
  show ?thesis
  proof (rule Delete_Tenant_known [OF inv st k rg])
    fix s1
    assume d: "Delete_Tenant subs s k = Ok (None, s1)"
      and g: "\<And>j. Get_Tenant s1 j = (if j = k then None else Get_Tenant s j)"
      and sb: "\<And>j i. sub_of s1 j i = (if j = k then None else sub_of s j i)"
      and len: "length (chans s1) = length (chans s)" and ns: "nextSub s1 = nextSub s"
      and oth: "\<And>r. \<forall>i. sub_of s k i \<noteq> Some r \<Longrightarrow> chans s1 ! r = chans s ! r"
    have "ts_inv s1"
    proof (rule ts_inv_shrink [OF inv _ _ ns len])
      show "Get_Tenant s1 DefaultID \<noteq> None" using ts_inv_has_default [OF inv] k by (simp add: g)
      show "t_ID v = j" if "Get_Tenant s1 j = Some v" for j v
        using that ts_inv_ID [OF inv, of j] by (auto simp: g split: if_splits)
      show "sub_of s j i = Some q \<and> live (chans s1 ! q)" if "sub_of s1 j i = Some q" for j i q
      proof -
        from that have j: "j \<noteq> k" "sub_of s j i = Some q" by (auto simp: sb split: if_splits)
        then have "\<forall>n. sub_of s k n \<noteq> Some q" using live_other_tenant [OF inv] by blast
        with oth j ts_inv_sub [OF inv j(2)] show ?thesis by simp
      qed
    qed
    with d del show "ts_inv s'" by simp
  qed
qed (use inv del in \<open>auto simp: Delete_Tenant_def split: if_splits\<close>)

lemma ts_inv_Subscribe:
  assumes inv: "ts_inv s" and sub: "Subscribe s tid = Ok (i, r, x, s')"
  shows "ts_inv s'"
proof (rule Subscribe_ok [OF inv, of tid])
  fix k st s1
  assume eq: "Subscribe s tid = Ok (nextSub s, length (chans s), route_set (st_t st), s1)"
    and g: "\<And>j. Get_Tenant s1 j = Get_Tenant s j"
    and sb: "\<And>j n. sub_of s1 j n =
      (if j = k \<and> n = nextSub s then Some (length (chans s)) else sub_of s j n)"
    and ch: "chans s1 = chans s @ [make_chan]" and ns: "nextSub s1 = nextSub s + 1"
  have n: "nextSub s = int (length (chans s))" using inv by (simp add: ts_inv_def)
  have fresh: "sub_of s j (nextSub s) = None" for j
    using ts_inv_sub [OF inv, of j "nextSub s"] n by (cases "sub_of s j (nextSub s)") auto
  have "ts_inv s1"
    unfolding ts_inv_def
  proof (intro conjI allI impI)
    show "Get_Tenant s1 DefaultID \<noteq> None" using ts_inv_has_default [OF inv] by (simp add: g)
    show "nextSub s1 = int (length (chans s1))" by (simp add: ns ch n)
    show "t_ID v = j" if "Get_Tenant s1 j = Some v" for j v
      using that ts_inv_ID [OF inv, of j v] by (simp add: g)
    show "i = int q" "q < length (chans s1)" "live (chans s1 ! q)" if "sub_of s1 j i = Some q" for j i q
      using that ts_inv_sub [OF inv, of j i q] n
      by (auto simp: sb ch nth_append live_def make_chan_def split: if_splits)
    show "j = j'" if "sub_of s1 j i = Some q" "sub_of s1 j' i = Some q'" for j j' i q q'
      using that fresh sub_one_tenant [OF inv, of j i q j' q'] by (auto simp: sb split: if_splits)
  qed
  with eq sub show "ts_inv s'" by simp
qed

lemma ts_inv_Unsubscribe:
  assumes inv: "ts_inv s" and un: "Unsubscribe s tid i = Ok s'"
  shows "ts_inv s'"
proof (rule Unsubscribe_ok [OF inv, of tid i])
  fix k s1
  assume eq: "Unsubscribe s tid i = Ok s1"
    and g: "\<And>j. Get_Tenant s1 j = Get_Tenant s j"
    and sb: "\<And>j n. sub_of s1 j n = (if j = k \<and> n = i then None else sub_of s j n)"
    and len: "length (chans s1) = length (chans s)" and ns: "nextSub s1 = nextSub s"
    and oth: "\<And>r. sub_of s k i \<noteq> Some r \<Longrightarrow> chans s1 ! r = chans s ! r"
  have "ts_inv s1"
  proof (rule ts_inv_shrink [OF inv _ _ ns len])
    show "Get_Tenant s1 DefaultID \<noteq> None" using ts_inv_has_default [OF inv] by (simp add: g)
    show "t_ID v = j" if "Get_Tenant s1 j = Some v" for j v
      using that ts_inv_ID [OF inv, of j v] by (simp add: g)
    show "sub_of s j n = Some q \<and> live (chans s1 ! q)" if "sub_of s1 j n = Some q" for j n q
    proof -
      from that have j: "sub_of s j n = Some q" "\<not> (j = k \<and> n = i)" by (auto simp: sb split: if_splits)
      then have "sub_of s k i \<noteq> Some q"
        using live_other_tenant [OF inv j(1), of k i] ts_inv_sub [OF inv j(1)] ts_inv_sub [OF inv, of k i q]
        by auto
      with oth j ts_inv_sub [OF inv j(1)] show ?thesis by simp
    qed
  qed
  with eq un show "ts_inv s'" by simp
qed

lemma ts_inv_recv:
  assumes inv: "ts_inv s" shows "ts_inv (snd (recv_chan r s))"
proof (rule ts_inv_shrink [OF inv])
  show "sub_of s k i = Some q \<and> live (chans (snd (recv_chan r s)) ! q)"
    if "sub_of (snd (recv_chan r s)) k i = Some q" for k i q
  proof -
    from that have q: "sub_of s k i = Some q"
      by (simp add: recv_chan_def sub_of_def split: list.splits if_splits)
    from ts_inv_sub [OF inv q] have "live (chans (snd (recv_chan r s)) ! q)"
      by (cases "q = r")
        (auto simp: recv_chan_def drain_chan_def live_def split: list.splits)
    with q show ?thesis by simp
  qed
  have g: "Get_Tenant (snd (recv_chan r s)) k = Get_Tenant s k" for k
    by (simp add: recv_chan_def Get_Tenant_def split: list.splits)
  show "Get_Tenant (snd (recv_chan r s)) DefaultID \<noteq> None"
    using ts_inv_has_default [OF inv] by (simp add: g)
  show "t_ID t = k" if "Get_Tenant (snd (recv_chan r s)) k = Some t" for k t
    using that ts_inv_ID [OF inv, of k t] by (simp add: g)
qed (simp_all add: recv_chan_def drain_chan_def split: list.splits)

section \<open>Who belongs where\<close>

text \<open>The tenants that name a member, and the identifiers a member may connect to.\<close>

definition matching :: "TStore \<Rightarrow> Member \<Rightarrow> Tenant set" where
  "matching s m = {t. (\<exists>k. Get_Tenant s k = Some t) \<and> has t m}"

definition tenants_of :: "TStore \<Rightarrow> Member \<Rightarrow> string set" where
  "tenants_of s m =
     (if matching s m = {} then {DefaultID} else t_ID ` matching s m)"

lemma set_For_filter:
  assumes "ranges_over ks (tenants s)"
  shows "set (filter (\<lambda>t. has t m) (map st_t (range_values ks (tenants s)))) = matching s m"
  using assms
  by (auto simp: matching_def Get_Tenant_def set_range_values image_iff dest: ranges_over_memberD)

lemma distinct_IDs_range:
  assumes inv: "ts_inv s" and ks: "distinct ks"
  shows "distinct (map t_ID (filter P (map st_t (range_values ks (tenants s)))))"
proof -
  have id: "fmlookup (tenants s) k = Some st \<Longrightarrow> t_ID (st_t st) = k" for k st
    using ts_inv_ID [OF inv Get_Tenant_lookup] by blast
  have "map t_ID (map st_t (range_values ks (tenants s))) = filter (\<lambda>k. fmlookup (tenants s) k \<noteq> None) ks"
    unfolding range_values_def by (induction ks) (auto simp: id split: option.splits)
  then have "distinct (map t_ID (map st_t (range_values ks (tenants s))))" using ks by simp
  then show ?thesis by (rule distinct_map_filter)
qed

text \<open>The list \<open>For\<close> builds, whatever order the map was visited in.\<close>

lemma For_Ok:
  assumes inv: "ts_inv s" and ks: "ranges_over ks (tenants s)"
  obtains ts where "For ks s m = Ok ts" and "sorted (map t_ID ts)" and "distinct (map t_ID ts)"
    and "ts \<noteq> []" and "t_ID ` set ts = tenants_of s m"
    and "set ts = (if matching s m = {} then {t. Get_Tenant s DefaultID = Some t} else matching s m)"
proof -
  let ?out = "filter (\<lambda>t. has t m) (map st_t (range_values ks (tenants s)))"
  have set: "set ?out = matching s m" by (rule set_For_filter [OF ks])
  have dist: "distinct (map t_ID ?out)"
    using distinct_IDs_range [OF inv] ks by (simp add: ranges_over_def)
  obtain st where st: "fmlookup (tenants s) DefaultID = Some st" using ts_inv_default [OF inv] by blast
  show ?thesis
  proof (cases "?out = []")
    case True
    then have "matching s m = {}" using set by simp
    moreover have "For ks s m = Ok [st_t st]" using True st by (simp add: For_def)
    moreover have "t_ID (st_t st) = DefaultID" by (rule ts_inv_ID [OF inv Get_Tenant_lookup [OF st]])
    ultimately show ?thesis
      using that [of "[st_t st]"] Get_Tenant_lookup [OF st] by (auto simp: tenants_of_def)
  next
    case False
    then have ne: "matching s m \<noteq> {}" using set by (metis set_empty)
    have "For ks s m = Ok (sort_key t_ID ?out)" using False by (simp add: For_def Let_def)
    moreover have "distinct (map t_ID (sort_key t_ID ?out))"
      using dist by (simp add: distinct_map)
    moreover have "sort_key t_ID ?out \<noteq> []" using False by (metis set_sort set_empty)
    ultimately show ?thesis
      using that [of "sort_key t_ID ?out"] set ne by (simp add: tenants_of_def)
  qed
qed

lemma IsMember_Ok:
  assumes "ts_inv s" "ranges_over ks (tenants s)"
  shows "IsMember ks s tid m = Ok (tid \<in> tenants_of s m)"
proof (rule For_Ok [OF assms, of m])
  fix ts assume "For ks s m = Ok ts" and "t_ID ` set ts = tenants_of s m"
  then show ?thesis by (auto simp: IsMember_def list_ex_iff simp flip: \<open>t_ID ` set ts = _\<close>)
qed

lemma tenants_of_exist:
  assumes inv: "ts_inv s" and k: "k \<in> tenants_of s m" shows "Get_Tenant s k \<noteq> None"
proof (cases "matching s m = {}")
  case True
  with k ts_inv_has_default [OF inv] show ?thesis by (simp add: tenants_of_def)
next
  case False
  with k obtain t where "t \<in> matching s m" "t_ID t = k" by (auto simp: tenants_of_def)
  then obtain j where "Get_Tenant s j = Some t" "t_ID t = k" by (auto simp: matching_def)
  then show ?thesis using ts_inv_ID [OF inv, of j t] by auto
qed

text \<open>Visiting the tenants in another order gives the same list.\<close>

lemma For_order:
  assumes inv: "ts_inv s" and ks: "ranges_over ks (tenants s)" and js: "ranges_over js (tenants s)"
  shows "For ks s m = For js s m"
proof (rule For_Ok [OF inv ks, of m])
  fix ts assume a: "For ks s m = Ok ts" "sorted (map t_ID ts)" "distinct (map t_ID ts)"
    "set ts = (if matching s m = {} then {t. Get_Tenant s DefaultID = Some t} else matching s m)"
  show ?thesis
  proof (rule For_Ok [OF inv js, of m])
    fix us assume b: "For js s m = Ok us" "sorted (map t_ID us)" "distinct (map t_ID us)"
      "set us = (if matching s m = {} then {t. Get_Tenant s DefaultID = Some t} else matching s m)"
    have eq: "set ts = set us" using a(4) b(4) by simp
    moreover have "inj_on t_ID (set ts)" using a(3) by (simp add: distinct_map)
    ultimately have "ts = us"
      using map_sorted_distinct_set_unique [of t_ID ts us] a(2,3) b(2,3) by simp
    with a(1) b(1) show ?thesis by simp
  qed
qed

text \<open>An address nobody verified decides nothing.\<close>

lemma has_unverified: "\<not> m_EmailVerified m \<Longrightarrow> has t (m\<lparr>m_Email := e\<rparr>) = has t m"
  by (simp add: has_def has_domain_def has_group_def has_idp_def)

lemma For_unverified: "\<not> m_EmailVerified m \<Longrightarrow> For ks s (m\<lparr>m_Email := e\<rparr>) = For ks s m"
  by (simp add: For_def has_unverified)

lemma Routes_Ok:
  assumes "ts_inv s"
  shows "Routes s tid = Ok (route_set (the (Get_Tenant s
    (if Get_Tenant s tid = None then DefaultID else tid))))"
  by (rule tenant_or_default_ok [OF assms, of tid]) (auto simp: Routes_def Get_Tenant_def)

end
