(* ===== verification/Auth.thy ===== *)
theory Auth
  imports Tenant
begin

text \<open>
  \<open>internal/auth\<close>: the identity providers. A verifier turns a bearer credential into
  \<open>Claims\<close> or refuses it. The OIDC and go-authn token libraries and the GitHub API are not
  part of the repository: what they answer for one credential is an argument of the definitions.
\<close>

record Claims =
  c_Subject :: string
  c_Email :: string
  c_EmailVerified :: bool
  c_Login :: string
  c_Groups :: "string list"
  c_IdP :: string

definition Tenancy :: "Claims \<Rightarrow> Member" where
  "Tenancy c = \<lparr>m_Email = c_Email c, m_EmailVerified = c_EmailVerified c, m_Groups = c_Groups c,
     m_IdP = c_IdP c\<rparr>"

type_synonym verifier = "string \<Rightarrow> Claims result"

section \<open>OIDC\<close>

text \<open>A JSON claim of unknown shape: a string, a list, or anything else.\<close>

datatype claim = ClaimString string | ClaimList "claim list" | ClaimOther

fun claim_text :: "claim \<Rightarrow> string list" where
  "claim_text (ClaimString s) = (if s \<noteq> [] then [s] else [])"
| "claim_text _ = []"

fun stringList :: "claim \<Rightarrow> string list" where
  "stringList (ClaimString s) = (if s \<noteq> [] then [s] else [])"
| "stringList (ClaimList xs) = concat (map claim_text xs)"
| "stringList ClaimOther = []"

text \<open>As in \<open>Go_Strings\<close>, case is that of ASCII, the alphabet of a domain on the wire.\<close>

definition domainAllowed :: "string \<Rightarrow> string list \<Rightarrow> bool" where
  "domainAllowed email allowed =
     (let at = LastIndex email CHR ''@''
      in if at < 0 then False
         else (let domain = ToLower (drop (nat (at + 1)) email)
               in list_ex (\<lambda>d. EqualFold (TrimSpace d) domain) allowed))"

text \<open>The claims of an ID token, as \<open>tok.Claims\<close> decodes them.\<close>

record RawClaims =
  raw_Email :: string
  raw_EmailVerified :: bool
  raw_PreferredUsername :: string
  raw_Groups :: claim

record IDToken =
  tok_Subject :: string
  tok_Claims :: "RawClaims result"

definition OIDC_Verify :: "(string \<Rightarrow> IDToken result) \<Rightarrow> string list \<Rightarrow> verifier" where
  "OIDC_Verify verify allowedDomains rawIDToken =
     (case verify rawIDToken of
        Inl err \<Rightarrow> Inl (''invalid token: '' @ err)
      | Inr tok \<Rightarrow>
          (case tok_Claims tok of
             Inl err \<Rightarrow> Inl (''decode claims: '' @ err)
           | Inr raw \<Rightarrow>
               (let claims = \<lparr>c_Subject = tok_Subject tok, c_Email = raw_Email raw,
                      c_EmailVerified = raw_EmailVerified raw, c_Login = raw_PreferredUsername raw,
                      c_Groups = stringList (raw_Groups raw), c_IdP = []\<rparr>
                in if allowedDomains \<noteq> [] \<and> \<not> domainAllowed (c_Email claims) allowedDomains
                   then Inl (''email domain not allowed: '' @ quoted (c_Email claims))
                   else Inr claims)))"

section \<open>GitHub\<close>

record GitHubUser =
  gh_ID :: int
  gh_Login :: string
  gh_Email :: string

text \<open>
  The API as one token sees it: the status and body of a GET of a URL, and the JSON decoding of
  the three documents the verifier reads.
\<close>

record GitHubAPI =
  gh_do :: "string \<Rightarrow> string \<Rightarrow> (nat \<times> string) result"
  gh_user :: "string \<Rightarrow> GitHubUser result"
  gh_orgs :: "string \<Rightarrow> string list result"
  gh_state :: "string \<Rightarrow> string result"

record GitHubVerifier =
  gv_apiURL :: string
  gv_allowedOrgs :: "string list"

definition NewGitHubVerifier :: "string \<Rightarrow> string list \<Rightarrow> GitHubVerifier" where
  "NewGitHubVerifier apiURL allowedOrgs =
     (let url = (if apiURL = [] then ''https://api.github.com'' else apiURL)
      in \<lparr>gv_apiURL = trim_char_right CHR ''/'' url, gv_allowedOrgs = allowedOrgs\<rparr>)"

definition gh_get :: "GitHubAPI \<Rightarrow> GitHubVerifier \<Rightarrow> string \<Rightarrow> string \<Rightarrow> (string \<Rightarrow> 'a result) \<Rightarrow> 'a result" where
  "gh_get api v token path decode =
     (case gh_do api token (gv_apiURL v @ path) of
        Inl err \<Rightarrow> Inl err
      | Inr (status, body) \<Rightarrow>
          if status div 100 \<noteq> 2 then Inl (''github API '' @ path @ '' -> '' @ itoa status)
          else decode body)"

fun inAllowedOrg :: "GitHubAPI \<Rightarrow> GitHubVerifier \<Rightarrow> string \<Rightarrow> string list \<Rightarrow> bool" where
  "inAllowedOrg api v token [] = False"
| "inAllowedOrg api v token (org # orgs) =
     (let name = TrimSpace org
      in if name = [] then inAllowedOrg api v token orgs
         else if gh_get api v token (''/user/memberships/orgs/'' @ name) (gh_state api) = Inr ''active''
           then True
         else inAllowedOrg api v token orgs)"

text \<open>\<open>%d\<close> of an \<open>int64\<close>.\<close>

definition itoa_int :: "int \<Rightarrow> string" where
  "itoa_int n = (if n < 0 then ''-'' @ itoa (nat (- n)) else itoa (nat n))"

definition GitHub_Verify :: "GitHubAPI \<Rightarrow> GitHubVerifier \<Rightarrow> verifier" where
  "GitHub_Verify api v token =
     (case gh_get api v token ''/user'' (gh_user api) of
        Inl err \<Rightarrow> Inl (''invalid token: '' @ err)
      | Inr user \<Rightarrow>
          if gh_ID user = 0 \<or> gh_Login user = [] then Inl ''invalid token: empty GitHub identity''
          else (case gh_get api v token ''/user/orgs'' (gh_orgs api) of
             Inl err \<Rightarrow> Inl (''listing the GitHub organisations: '' @ err)
           | Inr orgs \<Rightarrow>
               (let claims = \<lparr>c_Subject = ''github:'' @ itoa_int (gh_ID user), c_Email = gh_Email user,
                      c_EmailVerified = (gh_Email user \<noteq> []), c_Login = gh_Login user,
                      c_Groups = orgs, c_IdP = []\<rparr>
                in if gv_allowedOrgs v \<noteq> [] \<and> \<not> inAllowedOrg api v token (gv_allowedOrgs v)
                   then Inl (''user '' @ quoted (gh_Login user) @ '' is not a member of an allowed org'')
                   else Inr claims)))"

section \<open>go-authn\<close>

text \<open>An access token as go-authn/oidc presents it; \<open>gt_idp\<close> is empty when there is no such claim.\<close>

record GoAuthnToken =
  gt_Subject :: string
  gt_Username :: string
  gt_EmailVerified :: bool
  gt_Groups :: "string list"
  gt_idp :: string
  gt_Email :: string

definition GoAuthn_Verify :: "(string \<Rightarrow> GoAuthnToken result) \<Rightarrow> verifier" where
  "GoAuthn_Verify verify bearer =
     (case verify bearer of
        Inl err \<Rightarrow> Inl (''invalid token: '' @ err)
      | Inr tok \<Rightarrow>
          if gt_Subject tok = [] then Inl ''invalid token: no subject''
          else Inr \<lparr>c_Subject = gt_Subject tok,
                    c_Email = (if gt_EmailVerified tok then gt_Email tok else []),
                    c_EmailVerified = gt_EmailVerified tok, c_Login = gt_Username tok,
                    c_Groups = gt_Groups tok, c_IdP = gt_idp tok\<rparr>)"

section \<open>The factory\<close>

record Options =
  o_Provider :: string
  o_Issuer :: string
  o_ClientID :: string
  o_AllowedDomains :: "string list"
  o_GitHubAPIURL :: string
  o_GitHubAllowedOrgs :: "string list"

text \<open>
  Discovery of an issuer for an audience, by either library; the go-authn one is asked for tokens
  of one type.
\<close>

record Providers =
  pr_github :: GitHubAPI
  pr_oidc :: "string \<Rightarrow> string \<Rightarrow> (string \<Rightarrow> IDToken result) result"
  pr_goauthn :: "string \<Rightarrow> string \<Rightarrow> string \<Rightarrow> (string \<Rightarrow> GoAuthnToken result) result"

definition NewOIDCVerifier :: "Providers \<Rightarrow> string \<Rightarrow> string \<Rightarrow> string list \<Rightarrow> verifier result" where
  "NewOIDCVerifier pr issuer clientID allowedDomains =
     (case pr_oidc pr issuer clientID of
        Inl err \<Rightarrow> Inl (''oidc discovery for '' @ quoted issuer @ '': '' @ err)
      | Inr verify \<Rightarrow> Inr (OIDC_Verify verify allowedDomains))"

definition NewGoAuthnVerifier :: "Providers \<Rightarrow> string \<Rightarrow> string \<Rightarrow> verifier result" where
  "NewGoAuthnVerifier pr issuer audience =
     (case pr_goauthn pr issuer audience ''at+jwt'' of
        Inl err \<Rightarrow> Inl (''go-authn discovery for '' @ quoted issuer @ '': '' @ err)
      | Inr verify \<Rightarrow> Inr (GoAuthn_Verify verify))"

definition New_Verifier :: "Providers \<Rightarrow> Options \<Rightarrow> verifier result" where
  "New_Verifier pr opts =
     (if o_Provider opts = [] \<or> o_Provider opts = ''github'' then
        Inr (GitHub_Verify (pr_github pr)
          (NewGitHubVerifier (o_GitHubAPIURL opts) (o_GitHubAllowedOrgs opts)))
      else if o_Provider opts = ''oidc'' then
        NewOIDCVerifier pr (o_Issuer opts) (o_ClientID opts) (o_AllowedDomains opts)
      else if o_Provider opts = ''go-authn'' then
        NewGoAuthnVerifier pr (o_Issuer opts) (o_ClientID opts)
      else Inl (''unknown AUTH_PROVIDER '' @ quoted (o_Provider opts) @
        '' (want '' @ quoted ''github'' @ '', '' @ quoted ''oidc'' @ '' or '' @
        quoted ''go-authn'' @ '')''))"

section \<open>What an accepted credential shows\<close>

lemma inAllowedOrg_iff:
  "inAllowedOrg api v token orgs \<longleftrightarrow>
     (\<exists>org \<in> set orgs. TrimSpace org \<noteq> [] \<and>
        gh_get api v token (''/user/memberships/orgs/'' @ TrimSpace org) (gh_state api) = Inr ''active'')"
  by (induction orgs) (auto simp: Let_def)

lemma stringList_nonempty: "s \<in> set (stringList v) \<Longrightarrow> s \<noteq> []"
proof (cases v)
  case (ClaimList xs)
  assume "s \<in> set (stringList v)"
  with ClaimList obtain x where "s \<in> set (claim_text x)" by auto
  then show ?thesis by (cases x) (auto split: if_splits)
qed (auto split: if_splits)

lemma domainAllowed_split:
  assumes "CHR ''@'' \<notin> set domain"
  shows "domainAllowed (name @ CHR ''@'' # domain) allowed \<longleftrightarrow>
    (\<exists>d \<in> set allowed. EqualFold (TrimSpace d) domain)"
  using assms by (simp add: domainAllowed_def drop_LastIndex list_ex_iff nat_add_distrib)

lemma domainAllowed_no_at: "CHR ''@'' \<notin> set email \<Longrightarrow> \<not> domainAllowed email allowed"
  by (simp add: domainAllowed_def LastIndex_neg_iff [symmetric])

end
