(* ===== verification/Registry.thy ===== *)
theory Registry
  imports Go_Strings
begin

text \<open>
  \<open>internal/peers\<close>: the list of WireGuard keys people registered with a go-authn provider, as
  this gateway last read it. The signed list and its verification belong to go-authn/wireguard;
  what one fetch returned is an argument. \<open>admission\<close> is the contract the enrolment API relies
  on: whoever is admitted is registered, at this instant, and was admitted at every earlier
  instant under the same list, so that an expiry only ever closes the gate.
\<close>

text \<open>\<open>wireguard.Peer\<close>, with its key as \<open>Key.String()\<close> writes it, and \<open>wireguard.List\<close>.\<close>

record WgPeer =
  wg_Key :: string
  wg_Subject :: string
  wg_Expires :: time

record WgList =
  wl_Version :: u64
  wl_Peers :: "WgPeer list"
  wl_Expires :: time

record Registry =
  reg_list :: "WgList option"
  byKey :: "(string, WgPeer) fmap"

definition New_Registry :: Registry where
  "New_Registry = \<lparr>reg_list = None, byKey = fmempty\<rparr>"

definition index_peers :: "WgPeer list \<Rightarrow> (string, WgPeer) fmap" where
  "index_peers ps = foldl (\<lambda>m p. fmupd (wg_Key p) p m) fmempty ps"

definition Refresh :: "WgList result \<Rightarrow> Registry \<Rightarrow> WgList result \<times> Registry" where
  "Refresh fetched r =
     (case fetched of
        Inl err \<Rightarrow> (Inl err, r)
      | Inr l \<Rightarrow> (Inr l, \<lparr>reg_list = Some l, byKey = index_peers (wl_Peers l)\<rparr>))"

definition Lookup :: "time \<Rightarrow> Registry \<Rightarrow> string \<Rightarrow> WgPeer option" where
  "Lookup now r key =
     (case reg_list r of
        None \<Rightarrow> None
      | Some l \<Rightarrow>
          if \<not> now < wl_Expires l then None
          else (case fmlookup (byKey r) key of
             None \<Rightarrow> None
           | Some p \<Rightarrow> if \<not> now < wg_Expires p then None else Some p))"

definition Allowed :: "time \<Rightarrow> Registry \<Rightarrow> string \<Rightarrow> string \<Rightarrow> bool" where
  "Allowed now r key subject =
     (case Lookup now r key of None \<Rightarrow> False | Some p \<Rightarrow> wg_Subject p = subject)"

text \<open>
  \<open>Run\<close>: one refresh per turn of the loop, at once, at every tick and at every kick, until the
  context ends; \<open>fetches\<close> is what the source answered each time. After each list that arrives
  \<open>onList\<close> changes the gateway's state.
\<close>

fun Run :: "(Registry \<Rightarrow> WgList \<Rightarrow> 's \<Rightarrow> 's) \<Rightarrow> WgList result list \<Rightarrow> Registry \<Rightarrow> 's \<Rightarrow> Registry \<times> 's" where
  "Run onList [] r s = (r, s)"
| "Run onList (f # fetches) r s =
     (case Refresh f r of
        (Inl err, r') \<Rightarrow> Run onList fetches r' s
      | (Inr l, r') \<Rightarrow> Run onList fetches r' (onList r' l s))"

section \<open>The contract of admission\<close>

locale admission =
  fixes lookup :: "time \<Rightarrow> 'r \<Rightarrow> 'k \<Rightarrow> 'p option"
    and expires :: "'p \<Rightarrow> time"
  assumes in_time: "lookup now r k = Some p \<Longrightarrow> now < expires p"
    and closing: "lookup later r k = Some p \<Longrightarrow> now \<le> later \<Longrightarrow> lookup now r k = Some p"
begin

text \<open>A lease cut at the registration's end is still running, and ends with it at the latest.\<close>

lemma lease_within:
  assumes "lookup now r k = Some p" "now < lease"
  shows "now < min lease (expires p)" and "min lease (expires p) \<le> expires p"
  using in_time [OF assms(1)] assms(2) by auto

lemma refused_stays_refused:
  "lookup now r k = None \<Longrightarrow> now \<le> later \<Longrightarrow> lookup later r k = None"
  using closing [of later r k _ now] by (cases "lookup later r k") auto

lemma one_registration:
  "lookup now r k = Some p \<Longrightarrow> lookup later r k = Some q \<Longrightarrow> p = q"
  using closing [of now r k p "min now later"] closing [of later r k q "min now later"] by simp

end

interpretation reg: admission Lookup wg_Expires
  by unfold_locales (auto simp: Lookup_def split: option.splits if_splits)

section \<open>What the index holds\<close>

lemma index_peers_snoc: "index_peers (ps @ [p]) = fmupd (wg_Key p) p (index_peers ps)"
  by (simp add: index_peers_def)

text \<open>Of several registrations of one key, the last in the list counts.\<close>

lemma index_peers_last: "fmlookup (index_peers ps) k = find (\<lambda>p. wg_Key p = k) (rev ps)"
  by (induction ps rule: rev_induct) (auto simp: index_peers_snoc index_peers_def)

lemma index_peers_mem: "fmlookup (index_peers ps) k = Some p \<Longrightarrow> p \<in> set ps \<and> wg_Key p = k"
  by (auto simp: index_peers_last find_Some_iff) (metis nth_mem set_rev length_rev)

lemma Lookup_Refresh:
  "Lookup now (snd (Refresh (Inr l) r)) k =
     (if now < wl_Expires l then
        (case fmlookup (index_peers (wl_Peers l)) k of
           None \<Rightarrow> None | Some p \<Rightarrow> if now < wg_Expires p then Some p else None)
      else None)"
  by (simp add: Lookup_def Refresh_def split: option.splits)

end
