(* ===== verification/Config.thy ===== *)
theory Config
  imports Go_Strings
begin

text \<open>
  \<open>internal/config\<close>: the configuration, read from the environment. \<open>getenv\<close> is
  \<open>os.Getenv\<close> (empty when unset), \<open>readFile\<close> is \<open>os.ReadFile\<close> and
  \<open>parseDuration\<close> is \<open>time.ParseDuration\<close>; the three are arguments, as is the order in
  which the map of required settings is visited.
\<close>

record Config =
  ListenAddr :: string
  TLSCert :: string
  TLSKey :: string
  GRPCAddr :: string
  GRPCEndpoint :: string
  AdminToken :: string
  AuthProvider :: string
  OIDCIssuer :: string
  OIDCClientID :: string
  AllowedDomains :: "string list"
  GatewayClientID :: string
  GatewaySecret :: string
  PeerListInterval :: duration
  SSF :: bool
  SSFInterval :: duration
  GitHubAPIURL :: string
  GitHubAllowedOrgs :: "string list"
  WGInterface :: string
  WGEndpoint :: string
  WGPrivateKey :: string
  WGServerPrivKey :: string
  DryRun :: bool
  VPNCIDR :: string
  PushRoutes :: "string list"
  DNS :: "string list"
  Keepalive :: int
  LeaseTTL :: duration

definition second :: duration where "second = 1000000000"

definition hour :: duration where "hour = 3600 * second"

section \<open>Reading one variable\<close>

definition env :: "(string \<Rightarrow> string) \<Rightarrow> string \<Rightarrow> string \<Rightarrow> string" where
  "env getenv key def = (if getenv key \<noteq> [] then getenv key else def)"

definition splitCSV :: "string \<Rightarrow> string list" where
  "splitCSV s =
     (if TrimSpace s = [] then []
      else filter (\<lambda>p. p \<noteq> []) (map TrimSpace (split_on CHR '','' s)))"

text \<open>\<open>strconv.ParseBool\<close> and \<open>strconv.Atoi\<close> (64-bit).\<close>

definition ParseBool :: "string \<Rightarrow> bool option" where
  "ParseBool s =
     (if s \<in> set [''1'', ''t'', ''T'', ''true'', ''TRUE'', ''True''] then Some True
      else if s \<in> set [''0'', ''f'', ''F'', ''false'', ''FALSE'', ''False''] then Some False
      else None)"

definition Atoi :: "string \<Rightarrow> int option" where
  "Atoi s =
     (let neg = (s \<noteq> [] \<and> hd s = CHR ''-'');
          ds = (if s \<noteq> [] \<and> (hd s = CHR ''-'' \<or> hd s = CHR ''+'') then tl s else s);
          n = (if neg then - int (dec_val ds) else int (dec_val ds))
      in if ds = [] \<or> \<not> list_all is_digit ds then None
         else if n < - (2 ^ 63) \<or> 2 ^ 63 \<le> n then None
         else Some n)"

definition boolEnv :: "(string \<Rightarrow> string) \<Rightarrow> string \<Rightarrow> bool \<Rightarrow> bool" where
  "boolEnv getenv key def =
     (if getenv key \<noteq> [] then (case ParseBool (getenv key) of Some b \<Rightarrow> b | None \<Rightarrow> def) else def)"

definition intEnv :: "(string \<Rightarrow> string) \<Rightarrow> string \<Rightarrow> int \<Rightarrow> int" where
  "intEnv getenv key def =
     (if getenv key \<noteq> [] then (case Atoi (getenv key) of Some n \<Rightarrow> n | None \<Rightarrow> def) else def)"

definition durEnv ::
    "(string \<Rightarrow> duration option) \<Rightarrow> (string \<Rightarrow> string) \<Rightarrow> string \<Rightarrow> duration \<Rightarrow> duration" where
  "durEnv parseDuration getenv key def =
     (if getenv key \<noteq> [] then (case parseDuration (getenv key) of Some d \<Rightarrow> d | None \<Rightarrow> def) else def)"

section \<open>Load\<close>

definition read_config :: "(string \<Rightarrow> duration option) \<Rightarrow> (string \<Rightarrow> string) \<Rightarrow> Config" where
  "read_config parseDuration getenv =
     \<lparr>ListenAddr = env getenv ''LISTEN_ADDR'' '':8443'',
      TLSCert = getenv ''TLS_CERT'',
      TLSKey = getenv ''TLS_KEY'',
      GRPCAddr = env getenv ''GRPC_ADDR'' '':8444'',
      GRPCEndpoint = getenv ''GRPC_ENDPOINT'',
      AdminToken = getenv ''ADMIN_TOKEN'',
      AuthProvider = env getenv ''AUTH_PROVIDER'' ''github'',
      OIDCIssuer = getenv ''OIDC_ISSUER'',
      OIDCClientID = getenv ''OIDC_CLIENT_ID'',
      AllowedDomains = splitCSV (getenv ''OIDC_ALLOWED_DOMAINS''),
      GatewayClientID = getenv ''GOAUTHN_GATEWAY_CLIENT_ID'',
      GatewaySecret = [],
      PeerListInterval = durEnv parseDuration getenv ''GOAUTHN_PEER_LIST_INTERVAL'' (30 * second),
      SSF = boolEnv getenv ''GOAUTHN_SSF'' False,
      SSFInterval = durEnv parseDuration getenv ''GOAUTHN_SSF_INTERVAL'' (5 * second),
      GitHubAPIURL = getenv ''GITHUB_API_URL'',
      GitHubAllowedOrgs = splitCSV (getenv ''GITHUB_ALLOWED_ORGS''),
      WGInterface = env getenv ''WG_INTERFACE'' ''wg0'',
      WGEndpoint = getenv ''WG_ENDPOINT'',
      WGPrivateKey = getenv ''WG_PRIVATE_KEY'',
      WGServerPrivKey = [],
      DryRun = boolEnv getenv ''WG_DRYRUN'' False,
      VPNCIDR = env getenv ''VPN_CIDR'' ''10.80.0.0/24'',
      PushRoutes = splitCSV (getenv ''PUSH_ROUTES''),
      DNS = splitCSV (getenv ''DNS''),
      Keepalive = intEnv getenv ''KEEPALIVE'' 25,
      LeaseTTL = durEnv parseDuration getenv ''LEASE_TTL'' (24 * hour)\<rparr>"

text \<open>\<open>WG_PRIVATE_KEY_FILE\<close> is read only when the key itself is not given.\<close>

definition resolve_key ::
    "(string \<Rightarrow> string) \<Rightarrow> (string \<Rightarrow> string result) \<Rightarrow> Config \<Rightarrow> Config result" where
  "resolve_key getenv readFile c =
     (let file = getenv ''WG_PRIVATE_KEY_FILE''
      in if file \<noteq> [] \<and> WGPrivateKey c = [] then
           (case readFile file of
              Inl err \<Rightarrow> Inl (''read WG_PRIVATE_KEY_FILE: '' @ err)
            | Inr b \<Rightarrow> Inr (c\<lparr>WGPrivateKey := TrimSpace b\<rparr>))
         else Inr c)"

definition default_routes :: "Config \<Rightarrow> Config" where
  "default_routes c = (if PushRoutes c = [] then c\<lparr>PushRoutes := [VPNCIDR c]\<rparr> else c)"

definition base_required :: "Config \<Rightarrow> (string, string) fmap" where
  "base_required c = fmap_of_list [(''WG_ENDPOINT'', WGEndpoint c), (''WG_PRIVATE_KEY'', WGPrivateKey c)]"

definition oidc_required :: "Config \<Rightarrow> (string, string) fmap" where
  "oidc_required c =
     fmupd ''OIDC_CLIENT_ID'' (OIDCClientID c) (fmupd ''OIDC_ISSUER'' (OIDCIssuer c) (base_required c))"

text \<open>The provider's own settings: the configuration with the secret read, and what must be set.\<close>

definition provider_settings ::
    "(string \<Rightarrow> string) \<Rightarrow> (string \<Rightarrow> string result) \<Rightarrow> Config \<Rightarrow> (Config \<times> (string, string) fmap) result" where
  "provider_settings getenv readFile c =
     (if AuthProvider c = ''github'' then Inr (c, base_required c)
      else if AuthProvider c = ''oidc'' then Inr (c, oidc_required c)
      else if AuthProvider c = ''go-authn'' then
        (let file = getenv ''GOAUTHN_GATEWAY_SECRET_FILE'';
             required = fmupd ''GOAUTHN_GATEWAY_SECRET_FILE'' file
               (fmupd ''GOAUTHN_GATEWAY_CLIENT_ID'' (GatewayClientID c) (oidc_required c));
             secret = (if file \<noteq> [] then
                 (case readFile file of
                    Inl err \<Rightarrow> Inl (''read GOAUTHN_GATEWAY_SECRET_FILE: '' @ err)
                  | Inr b \<Rightarrow>
                      if TrimSpace b = [] then Inl (''GOAUTHN_GATEWAY_SECRET_FILE '' @ file @ '' is empty'')
                      else Inr (TrimSpace b))
               else Inr [])
         in case secret of
              Inl err \<Rightarrow> Inl err
            | Inr sec \<Rightarrow>
                if PeerListInterval c \<le> 0 then Inl ''GOAUTHN_PEER_LIST_INTERVAL must be positive''
                else Inr (c\<lparr>GatewaySecret := sec\<rparr>, required))
      else Inl (''invalid AUTH_PROVIDER '' @ quoted (AuthProvider c) @ '' (want '' @ quoted ''github'' @ '', '' @ quoted ''oidc'' @ '' or '' @
        quoted ''go-authn'' @ '')''))"

definition Load ::
    "(string \<Rightarrow> duration option) \<Rightarrow> (string \<Rightarrow> string) \<Rightarrow> (string \<Rightarrow> string result) \<Rightarrow> string list \<Rightarrow> Config result" where
  "Load parseDuration getenv readFile ks =
     (case resolve_key getenv readFile (read_config parseDuration getenv) of
        Inl err \<Rightarrow> Inl err
      | Inr c \<Rightarrow>
          (case provider_settings getenv readFile (default_routes c) of
             Inl err \<Rightarrow> Inl err
           | Inr (c', required) \<Rightarrow>
               (let missing = filter (\<lambda>k. fmlookup required k = Some []) ks
                in if missing \<noteq> [] then Inl (''missing required config: '' @ join '', '' missing)
                   else Inr c')))"

section \<open>What a loaded configuration has\<close>

lemma splitCSV_parts: "p \<in> set (splitCSV s) \<Longrightarrow> p \<noteq> [] \<and> CHR '','' \<notin> set p"
proof -
  assume "p \<in> set (splitCSV s)"
  then obtain q where q: "q \<in> set (split_on CHR '','' s)" "p = TrimSpace q" "p \<noteq> []"
    by (auto simp: splitCSV_def split: if_splits)
  then show ?thesis using split_on_parts [OF q(1)] set_TrimSpace [of q] by auto
qed

lemma resolve_key_frame:
  assumes "resolve_key getenv readFile c = Inr c'"
  shows "c' = c\<lparr>WGPrivateKey := WGPrivateKey c'\<rparr>"
  using assms by (auto simp: resolve_key_def Let_def split: if_splits sum.splits)

end
