(* ===== verification/Api.thy ===== *)
theory Api
  imports Ipam Peer_Store Gateway Tenant Auth Registry Config
begin

text \<open>
  \<open>internal/api\<close>: the enrolment API. \<open>Server\<close> holds the state every handler shares; a
  handler is a function from the request and the server to the response and the new server. A
  request is handled at one instant \<open>now\<close>; \<open>ks\<close> is the order in which the loop over the
  tenants visits them; \<open>parse_key\<close> is \<open>wgtypes.ParseKey\<close>, which is not part of the
  repository. The body of a request is given as what the JSON decoder made of it.
\<close>

section \<open>Requests and responses\<close>

record EnrollRequest =
  er_PublicKey :: string
  er_Device :: DeviceInfo
  er_Tenant :: string

record EnrollResponse =
  AssignedIP :: string
  ServerPublicKey :: string
  Endpoint :: string
  AllowedIPs :: "string list"
  resp_DNS :: "string list"
  resp_GRPCEndpoint :: string
  PersistentKeepalive :: int
  LeaseExpiresAt :: time

datatype body =
    ErrorBody string string
  | EnrollBody EnrollResponse
  | HeartbeatBody time
  | TenantsBody "(string \<times> string) list"
  | StatusBody string
  | NoBody

record response =
  status :: nat
  body :: body

definition writeJSON :: "nat \<Rightarrow> body \<Rightarrow> response" where
  "writeJSON st b = \<lparr>status = st, body = b\<rparr>"

definition writeErr :: "nat \<Rightarrow> string \<Rightarrow> string \<Rightarrow> response" where
  "writeErr st code msg = writeJSON st (ErrorBody code msg)"

text \<open>\<open>decode\<close>: a body the JSON decoder refuses is answered with 400.\<close>

definition decode :: "'a result \<Rightarrow> response + 'a" where
  "decode b = (case b of Inl err \<Rightarrow> Inl (writeErr 400 ''bad_request'' err) | Inr v \<Rightarrow> Inr v)"

definition bearerToken :: "string \<Rightarrow> string" where
  "bearerToken h =
     (if 7 < length h \<and> EqualFold (take 7 h) ''Bearer '' then TrimSpace (drop 7 h) else [])"

section \<open>The server\<close>

type_synonym parse_key = "string \<Rightarrow> wgkey result"

record 'd Server =
  cfg :: Config
  alloc :: Allocator
  store :: Store
  gw :: "'d Gateway"
  dev :: 'd
  tstore :: TStore
  enrolls :: "string \<Rightarrow> nat"
  serverPubKey :: string
  registry :: "Registry option"

definition New_Server ::
    "Config \<Rightarrow> Allocator \<Rightarrow> Store \<Rightarrow> 'd Gateway \<Rightarrow> 'd \<Rightarrow> TStore \<Rightarrow> string \<Rightarrow> 'd Server" where
  "New_Server c a st g d ts pub =
     \<lparr>cfg = c, alloc = a, store = st, gw = g, dev = d, tstore = ts, enrolls = (\<lambda>_. 0),
      serverPubKey = pub, registry = None\<rparr>"

definition UsePeers :: "Registry \<Rightarrow> 'd Server \<Rightarrow> 'd Server" where
  "UsePeers reg s = s\<lparr>registry := Some reg\<rparr>"

text \<open>\<open>metrics.EnrollInc\<close>.\<close>

definition EnrollInc :: "string \<Rightarrow> 'd Server \<Rightarrow> 'd Server" where
  "EnrollInc tid s = s\<lparr>enrolls := (enrolls s)(tid := enrolls s tid + 1)\<rparr>"

definition registered :: "time \<Rightarrow> 'd Server \<Rightarrow> string \<Rightarrow> Claims \<Rightarrow> time \<Rightarrow> time option" where
  "registered now s key claims lease =
     (case registry s of
        None \<Rightarrow> Some lease
      | Some r \<Rightarrow>
          (case Lookup now r key of
             None \<Rightarrow> None
           | Some p \<Rightarrow>
               if wg_Subject p \<noteq> c_Subject claims then None
               else Some (if wg_Expires p < lease then wg_Expires p else lease)))"

definition chooseTenant ::
    "string list \<Rightarrow> 'd Server \<Rightarrow> string \<Rightarrow> Claims \<Rightarrow> ((nat \<times> string \<times> string) + string) outcome" where
  "chooseTenant ks s asked claims =
     obind (For ks (tstore s) (Tenancy claims)) (\<lambda>ts.
       if asked = [] then
         (if length ts = 1 then Ok (Inr (t_ID (ts ! 0)))
          else Ok (Inl (409, ''tenant_required'',
            ''you belong to several tenants; choose one of: '' @ join '', '' (map t_ID ts))))
       else if list_ex (\<lambda>t. t_ID t = asked) ts then Ok (Inr asked)
       else Ok (Inl (403, ''not_a_member'', ''you are not a member of tenant '' @ asked)))"

section \<open>Handlers\<close>

definition handleHealthz :: "'d Server \<Rightarrow> response \<times> 'd Server" where
  "handleHealthz s = (writeJSON 200 (StatusBody ''ok''), s)"

definition handleTenants :: "string list \<Rightarrow> Claims \<Rightarrow> 'd Server \<Rightarrow> (response \<times> 'd Server) outcome" where
  "handleTenants ks claims s =
     obind (For ks (tstore s) (Tenancy claims)) (\<lambda>ts.
       Ok (writeJSON 200 (TenantsBody (map (\<lambda>t. (t_ID t, t_Name t)) ts)), s))"

text \<open>
  The address of an enrolment: the one the key already has, if it is the caller's, or the next
  free one.
\<close>

definition enroll_address ::
    "EnrollRequest \<Rightarrow> Claims \<Rightarrow> 'd Server \<Rightarrow> (response + ip) \<times> 'd Server" where
  "enroll_address req claims s =
     (case Get (store s) (er_PublicKey req) of
        Some existing \<Rightarrow>
          if p_Subject existing \<noteq> c_Subject claims
          then (Inl (writeErr 409 ''key_taken'' ''this key is enrolled by another user''), s)
          else (Inr (p_IP existing), s)
      | None \<Rightarrow>
          (case Allocate (alloc s) of
             (Inl err, a) \<Rightarrow> (Inl (writeErr 503 ''pool_exhausted'' err), s\<lparr>alloc := a\<rparr>)
           | (Inr ip, a) \<Rightarrow> (Inr ip, s\<lparr>alloc := a\<rparr>)))"

text \<open>Programming the gateway, remembering the lease and answering.\<close>

definition enroll_commit ::
    "time \<Rightarrow> wgkey \<Rightarrow> EnrollRequest \<Rightarrow> Claims \<Rightarrow> time \<Rightarrow> string \<Rightarrow> ip \<Rightarrow> 'd Server \<Rightarrow>
       (response \<times> 'd Server) outcome" where
  "enroll_commit now pub req claims expiry tenantID ip s =
     (case AddPeer (gw s) pub ip (dev s) of
        (d, Some err) \<Rightarrow>
          Ok (writeErr 500 ''gateway_error'' ''could not program gateway'',
              s\<lparr>dev := d, alloc := Release (alloc s) ip\<rparr>)
      | (d, None) \<Rightarrow>
          (let p = \<lparr>p_PublicKey = er_PublicKey req, p_Subject = c_Subject claims,
                 p_Email = c_Email claims, p_IP = ip, p_Device = er_Device req,
                 p_EnrolledAt = now, p_LeaseExpiry = expiry, p_Tenant = tenantID\<rparr>;
               s1 = s\<lparr>dev := d, store := Put (store s) p\<rparr>
           in obind (Routes (tstore s1) tenantID) (\<lambda>rs.
                Ok (writeJSON 200 (EnrollBody
                      \<lparr>AssignedIP = ip_String ip @ ''/32'', ServerPublicKey = serverPubKey s1,
                       Endpoint = WGEndpoint (cfg s1), AllowedIPs = rs_AllowedIPs rs,
                       resp_DNS = rs_DNS rs, resp_GRPCEndpoint = GRPCEndpoint (cfg s1),
                       PersistentKeepalive = Keepalive (cfg s1), LeaseExpiresAt = expiry\<rparr>),
                    EnrollInc tenantID s1))))"

definition handleEnroll ::
    "parse_key \<Rightarrow> time \<Rightarrow> string list \<Rightarrow> EnrollRequest result \<Rightarrow> Claims \<Rightarrow> 'd Server \<Rightarrow>
       (response \<times> 'd Server) outcome" where
  "handleEnroll parse_key now ks b claims s =
     (case decode b of
        Inl resp \<Rightarrow> Ok (resp, s)
      | Inr req \<Rightarrow>
          (case parse_key (er_PublicKey req) of
             Inl err \<Rightarrow> Ok (writeErr 400 ''bad_public_key'' err, s)
           | Inr pub \<Rightarrow>
               (case registered now s (er_PublicKey req) claims (now + LeaseTTL (cfg s)) of
                  None \<Rightarrow> Ok (writeErr 403 ''key_not_registered''
                    ''register this device's key with the identity provider first'', s)
                | Some expiry \<Rightarrow>
                    obind (chooseTenant ks s (er_Tenant req) claims) (\<lambda>choice.
                      case choice of
                        Inl (code, why, msg) \<Rightarrow> Ok (writeErr code why msg, s)
                      | Inr tenantID \<Rightarrow>
                          (case enroll_address req claims s of
                             (Inl resp, s1) \<Rightarrow> Ok (resp, s1)
                           | (Inr ip, s1) \<Rightarrow>
                               enroll_commit now pub req claims expiry tenantID ip s1)))))"

definition handleHeartbeat ::
    "time \<Rightarrow> string list \<Rightarrow> string result \<Rightarrow> Claims \<Rightarrow> 'd Server \<Rightarrow> (response \<times> 'd Server) outcome" where
  "handleHeartbeat now ks b claims s =
     (case decode b of
        Inl resp \<Rightarrow> Ok (resp, s)
      | Inr key \<Rightarrow>
          (case Get (store s) key of
             None \<Rightarrow> Ok (writeErr 404 ''not_enrolled'' ''no active enrollment for this key'', s)
           | Some peer \<Rightarrow>
               if p_Subject peer \<noteq> c_Subject claims
               then Ok (writeErr 404 ''not_enrolled'' ''no active enrollment for this key'', s)
               else obind (IsMember ks (tstore s) (p_Tenant peer) (Tenancy claims)) (\<lambda>member.
                 if \<not> member
                 then Ok (writeErr 403 ''not_a_member'' ''you are no longer a member of this tenant'', s)
                 else (case registered now s key claims (now + LeaseTTL (cfg s)) of
                    None \<Rightarrow> Ok (writeErr 403 ''key_not_registered''
                      ''this device's key is no longer registered with the identity provider'', s)
                  | Some expiry \<Rightarrow>
                      Ok (writeJSON 200 (HeartbeatBody expiry),
                          s\<lparr>store := snd (Renew (store s) key expiry)\<rparr>)))))"

text \<open>
  What deregistration, reconciliation and the reaper do to one peer. An error of the gateway is
  only logged.
\<close>

definition drop_peer :: "parse_key \<Rightarrow> string \<Rightarrow> ip \<Rightarrow> 'd Server \<Rightarrow> 'd Server" where
  "drop_peer parse_key key ip s =
     (let d = (case parse_key key of
                 Inl _ \<Rightarrow> dev s
               | Inr pub \<Rightarrow> fst (RemovePeer (gw s) pub (dev s)))
      in s\<lparr>dev := d, store := snd (Delete (store s) key), alloc := Release (alloc s) ip\<rparr>)"

definition handleDeregister ::
    "parse_key \<Rightarrow> string result \<Rightarrow> Claims \<Rightarrow> 'd Server \<Rightarrow> response \<times> 'd Server" where
  "handleDeregister parse_key b claims s =
     (case decode b of
        Inl resp \<Rightarrow> (resp, s)
      | Inr key \<Rightarrow>
          (case Get (store s) key of
             None \<Rightarrow> (\<lparr>status = 204, body = NoBody\<rparr>, s)
           | Some peer \<Rightarrow>
               if p_Subject peer \<noteq> c_Subject claims
               then (writeErr 403 ''not_owner'' ''this key belongs to another user'', s)
               else (\<lparr>status = 204, body = NoBody\<rparr>, drop_peer parse_key key (p_IP peer) s)))"

section \<open>Background work\<close>

fun reconcile_loop :: "parse_key \<Rightarrow> (string \<Rightarrow> string \<Rightarrow> bool) \<Rightarrow> Peer list \<Rightarrow> 'd Server \<Rightarrow> 'd Server" where
  "reconcile_loop parse_key allowed [] s = s"
| "reconcile_loop parse_key allowed (p # ps) s =
     (if allowed (p_PublicKey p) (p_Subject p) then reconcile_loop parse_key allowed ps s
      else reconcile_loop parse_key allowed ps (drop_peer parse_key (p_PublicKey p) (p_IP p) s))"

definition Reconcile ::
    "parse_key \<Rightarrow> string list \<Rightarrow> (string \<Rightarrow> string \<Rightarrow> bool) \<Rightarrow> 'd Server \<Rightarrow> 'd Server" where
  "Reconcile parse_key ks allowed s = reconcile_loop parse_key allowed (List_Peers ks (store s)) s"

fun reap_loop :: "parse_key \<Rightarrow> Peer list \<Rightarrow> 'd Server \<Rightarrow> 'd Server" where
  "reap_loop parse_key [] s = s"
| "reap_loop parse_key (p # ps) s =
     reap_loop parse_key ps (drop_peer parse_key (p_PublicKey p) (p_IP p) s)"

definition ReapExpired :: "parse_key \<Rightarrow> time \<Rightarrow> string list \<Rightarrow> 'd Server \<Rightarrow> 'd Server" where
  "ReapExpired parse_key now ks s = reap_loop parse_key (Expired ks (store s) now) s"

section \<open>The mux\<close>

datatype call =
    Healthz
  | Enroll "EnrollRequest result"
  | Heartbeat "string result"
  | Deregister "string result"
  | Tenants

text \<open>The four authenticated routes behind \<open>authenticated\<close>.\<close>

definition authenticated ::
    "verifier \<Rightarrow> string \<Rightarrow> (Claims \<Rightarrow> 'd Server \<Rightarrow> (response \<times> 'd Server) outcome) \<Rightarrow> 'd Server \<Rightarrow>
       (response \<times> 'd Server) outcome" where
  "authenticated verify header next_h s =
     (let raw = bearerToken header
      in if raw = [] then
           Ok (writeErr 401 ''missing_token'' ''Authorization: Bearer <id_token> required'', s)
         else (case verify raw of
            Inl err \<Rightarrow> Ok (writeErr 401 ''invalid_token'' err, s)
          | Inr claims \<Rightarrow> next_h claims s))"

definition Handler ::
    "parse_key \<Rightarrow> verifier \<Rightarrow> time \<Rightarrow> string list \<Rightarrow> string \<Rightarrow> call \<Rightarrow> 'd Server \<Rightarrow>
       (response \<times> 'd Server) outcome" where
  "Handler parse_key verify now ks header c s =
     (case c of
        Healthz \<Rightarrow> Ok (handleHealthz s)
      | Enroll b \<Rightarrow> authenticated verify header (handleEnroll parse_key now ks b) s
      | Heartbeat b \<Rightarrow> authenticated verify header (handleHeartbeat now ks b) s
      | Deregister b \<Rightarrow> authenticated verify header (\<lambda>cl s. Ok (handleDeregister parse_key b cl s)) s
      | Tenants \<Rightarrow> authenticated verify header (handleTenants ks) s)"

end
