(* ===== verification/Api_Correct.thy ===== *)
theory Api_Correct
  imports Api
begin

text \<open>
  What the enrolment API guarantees. \<open>srv_inv\<close> ties the three stores together: every peer is
  stored under its key, the tenant store is well formed, and the addresses of the enrolled peers
  together with the gateway's own are exactly the pool's used addresses, no two peers sharing
  one. The proofs about addresses are those of the pool's contract, through its interpretation
  \<open>ipool\<close>.
\<close>

section \<open>The server's invariant\<close>

definition address_of :: "'d Server \<Rightarrow> string \<Rightarrow> ip option" where
  "address_of s k = map_option p_IP (Get (store s) k)"

definition srv_inv :: "nat \<Rightarrow> 'd Server \<Rightarrow> bool" where
  "srv_inv p s \<longleftrightarrow> keyed (store s) \<and> ts_inv (tstore s) \<and> ipool.leases p (alloc s) (address_of s)"

lemma srv_invD:
  assumes "srv_inv p s"
  shows "keyed (store s)" "ts_inv (tstore s)" "ipool.leases p (alloc s) (address_of s)"
  using assms by (simp_all add: srv_inv_def)

lemma srv_inv_peer:
  assumes "srv_inv p s" "Get (store s) k = Some q"
  shows "p_PublicKey q = k" "p_IP q \<in> hosts (network (alloc s)) p" "p_IP q \<noteq> serverIP (alloc s)"
    "p_IP q \<in> taken (alloc s)" "length (p_IP q) = 4"
  using assms ipool.leases_busy [of p "alloc s" "address_of s" k "p_IP q"]
  by (auto simp: srv_inv_def keyed_def address_of_def hosts_length)

lemma address_of_Put [api_simps]:
  "address_of (s\<lparr>store := Put (store s) q\<rparr>) = (address_of s)(p_PublicKey q \<mapsto> p_IP q)"
  by (auto simp: address_of_def store_simps)

lemma address_of_drop [api_simps]: "address_of (drop_peer pk k ip s) = (address_of s)(k := None)"
  by (auto simp: address_of_def drop_peer_def store_simps Let_def)

lemma address_of_Renew [api_simps]:
  "address_of (s\<lparr>store := snd (Renew (store s) k t)\<rparr>) = address_of s"
  by (auto simp: address_of_def store_simps option.map_comp o_def)

lemma address_of_frame [simp]:
  "address_of (s\<lparr>dev := d\<rparr>) = address_of s" "address_of (s\<lparr>alloc := a\<rparr>) = address_of s"
  "address_of (EnrollInc tid s) = address_of s" "address_of (s\<lparr>registry := r\<rparr>) = address_of s"
  "address_of (s\<lparr>tstore := ts\<rparr>) = address_of s"
  by (auto simp: address_of_def EnrollInc_def)

lemma drop_peer_frame [simp]:
  "tstore (drop_peer pk k ip s) = tstore s" "registry (drop_peer pk k ip s) = registry s"
  "cfg (drop_peer pk k ip s) = cfg s" "gw (drop_peer pk k ip s) = gw s"
  "alloc (drop_peer pk k ip s) = Release (alloc s) ip"
  "store (drop_peer pk k ip s) = snd (Delete (store s) k)"
  by (simp_all add: drop_peer_def Let_def)

lemma srv_inv_drop:
  assumes inv: "srv_inv p s" and k: "Get (store s) k = Some q"
  shows "srv_inv p (drop_peer pk k (p_IP q) s)"
proof -
  have "address_of s k = Some (p_IP q)" using k by (simp add: address_of_def)
  with srv_invD(3) [OF inv]
  have "ipool.leases p (Release (alloc s) (p_IP q)) ((address_of s)(k := None))"
    by (rule ipool.leases_release)
  with srv_invD [OF inv] show ?thesis by (simp add: srv_inv_def api_simps)
qed

text \<open>The used addresses are the gateway's and the leased ones.\<close>

lemma srv_inv_taken:
  assumes "srv_inv p s"
  shows "taken (alloc s) = insert (serverIP (alloc s)) {p_IP q |q k. Get (store s) k = Some q}"
proof -
  have "taken (alloc s) = insert (serverIP (alloc s)) (ran (address_of s))"
    using srv_invD(3) [OF assms] by (simp add: ipool.leases_def)
  also have "ran (address_of s) = {p_IP q |q k. Get (store s) k = Some q}"
    by (auto simp: ran_def address_of_def)
  finally show ?thesis .
qed

section \<open>Loops that drop peers\<close>

text \<open>Dropping a list of peers with distinct keys, each as the store has it.\<close>

definition as_stored :: "Peer list \<Rightarrow> 'd Server \<Rightarrow> bool" where
  "as_stored ps s \<longleftrightarrow> distinct (map p_PublicKey ps) \<and> (\<forall>q \<in> set ps. Get (store s) (p_PublicKey q) = Some q)"

lemma as_stored_tl:
  "as_stored (q # ps) s \<Longrightarrow> as_stored ps (drop_peer pk (p_PublicKey q) ip s)"
  by (auto simp: as_stored_def store_simps image_iff)

lemma reap_loop_inv: "srv_inv p s \<Longrightarrow> as_stored ps s \<Longrightarrow> srv_inv p (reap_loop pk ps s)"
proof (induction ps arbitrary: s)
  case (Cons q ps)
  then have "srv_inv p (drop_peer pk (p_PublicKey q) (p_IP q) s)"
    by (intro srv_inv_drop) (simp_all add: as_stored_def)
  with Cons show ?case using as_stored_tl [OF Cons.prems(2)] by simp
qed simp

lemma reap_loop_Get:
  "Get (store (reap_loop pk ps s)) k = (if k \<in> p_PublicKey ` set ps then None else Get (store s) k)"
  by (induction ps arbitrary: s) (auto simp: store_simps)

text \<open>The reconciliation drops what the filter refuses.\<close>

lemma reconcile_loop_reap:
  "reconcile_loop pk allowed ps s =
     reap_loop pk (filter (\<lambda>q. \<not> allowed (p_PublicKey q) (p_Subject q)) ps) s"
  by (induction ps arbitrary: s) auto

lemma as_stored_range:
  assumes "keyed (store s)" "ranges_over ks (peers (store s))"
  shows "as_stored (filter P (range_values ks (peers (store s)))) s"
proof -
  have "q \<in> set (range_values ks (peers (store s))) \<Longrightarrow> Get (store s) (p_PublicKey q) = Some q" for q
    using assms by (auto simp: set_range_values keyed_def Get_def)
  moreover have "distinct (map p_PublicKey (filter P (range_values ks (peers (store s)))))"
    using assms by (intro distinct_keys_filter distinct_keys_range) (simp_all add: ranges_over_def)
  ultimately show ?thesis by (simp add: as_stored_def)
qed

lemma ReapExpired_inv:
  assumes "srv_inv p s" "ranges_over ks (peers (store s))"
  shows "srv_inv p (ReapExpired pk now ks s)"
  unfolding ReapExpired_def Expired_def
  using assms by (intro reap_loop_inv as_stored_range) (simp_all add: srv_inv_def)

lemma ReapExpired_Get:
  assumes "srv_inv p s" "ranges_over ks (peers (store s))"
  shows "Get (store (ReapExpired pk now ks s)) k =
    (case Get (store s) k of None \<Rightarrow> None | Some q \<Rightarrow> if p_LeaseExpiry q \<le> now then None else Some q)"
proof -
  have "k \<in> p_PublicKey ` set (Expired ks (store s) now) \<longleftrightarrow>
      (\<exists>q. Get (store s) k = Some q \<and> p_LeaseExpiry q \<le> now)"
    using set_Expired [OF assms(2), of _ now] srv_inv_peer(1) [OF assms(1)] by (force simp: image_iff)
  then show ?thesis
    by (auto simp: ReapExpired_def reap_loop_Get split: option.splits)
qed

lemma Reconcile_inv:
  assumes "srv_inv p s" "ranges_over ks (peers (store s))"
  shows "srv_inv p (Reconcile pk ks allowed s)"
  unfolding Reconcile_def List_Peers_def reconcile_loop_reap
  using assms by (intro reap_loop_inv as_stored_range) (simp_all add: srv_inv_def)

lemma Reconcile_Get:
  assumes "srv_inv p s" "ranges_over ks (peers (store s))"
  shows "Get (store (Reconcile pk ks allowed s)) k =
    (case Get (store s) k of None \<Rightarrow> None | Some q \<Rightarrow> if allowed k (p_Subject q) then Some q else None)"
proof -
  have "k \<in> p_PublicKey ` set (filter (\<lambda>q. \<not> allowed (p_PublicKey q) (p_Subject q)) (List_Peers ks (store s)))
      \<longleftrightarrow> (\<exists>q. Get (store s) k = Some q \<and> \<not> allowed k (p_Subject q))"
    using set_List_Peers [OF assms(2)] srv_inv_peer(1) [OF assms(1)] by (force simp: image_iff)
  then show ?thesis
    by (auto simp: Reconcile_def reconcile_loop_reap reap_loop_Get split: option.splits)
qed

section \<open>How an enrolment ends\<close>

definition new_peer :: "time \<Rightarrow> EnrollRequest \<Rightarrow> Claims \<Rightarrow> time \<Rightarrow> string \<Rightarrow> ip \<Rightarrow> Peer" where
  "new_peer now req claims expiry tid ip =
     \<lparr>p_PublicKey = er_PublicKey req, p_Subject = c_Subject claims, p_Email = c_Email claims,
      p_IP = ip, p_Device = er_Device req, p_EnrolledAt = now, p_LeaseExpiry = expiry, p_Tenant = tid\<rparr>"

lemma new_peer_simps [simp]:
  "p_PublicKey (new_peer now req claims expiry tid ip) = er_PublicKey req"
  "p_Subject (new_peer now req claims expiry tid ip) = c_Subject claims"
  "p_IP (new_peer now req claims expiry tid ip) = ip"
  "p_LeaseExpiry (new_peer now req claims expiry tid ip) = expiry"
  "p_Tenant (new_peer now req claims expiry tid ip) = tid"
  by (simp_all add: new_peer_def)

text \<open>The address an enrolment may use, and the pool after it was taken.\<close>

definition address_for :: "EnrollRequest \<Rightarrow> Claims \<Rightarrow> 'd Server \<Rightarrow> ip \<Rightarrow> Allocator \<Rightarrow> bool" where
  "address_for req claims s ip a \<longleftrightarrow>
     (case Get (store s) (er_PublicKey req) of
        Some q \<Rightarrow> p_Subject q = c_Subject claims \<and> ip = p_IP q \<and> a = alloc s
      | None \<Rightarrow> Allocate (alloc s) = (Inr ip, a))"

text \<open>Everything an enrolment that reached the gateway has passed.\<close>

definition admitted ::
    "parse_key \<Rightarrow> time \<Rightarrow> string list \<Rightarrow> EnrollRequest \<Rightarrow> Claims \<Rightarrow> 'd Server \<Rightarrow> wgkey \<Rightarrow> time \<Rightarrow> string \<Rightarrow> bool" where
  "admitted pk now ks req claims s pub expiry tid \<longleftrightarrow>
     pk (er_PublicKey req) = Inr pub \<and>
     registered now s (er_PublicKey req) claims (now + LeaseTTL (cfg s)) = Some expiry \<and>
     chooseTenant ks s (er_Tenant req) claims = Ok (Inr tid)"

lemma enroll_address_Inr:
  "enroll_address req claims s = (Inr ip, s1) \<longleftrightarrow>
     (\<exists>a. address_for req claims s ip a \<and> s1 = s\<lparr>alloc := a\<rparr>)"
  by (auto simp: enroll_address_def address_for_def split: option.splits prod.splits sum.splits if_splits)

lemma enroll_address_Inl:
  assumes "pool_inv p (alloc s)" "enroll_address req claims s = (Inl r, s1)"
  shows "s1 = s" and "status r \<in> {409, 503}"
  using assms Allocate_Inl(1) [OF assms(1)]
  by (auto simp: enroll_address_def writeErr_def writeJSON_def
      split: option.splits prod.splits sum.splits if_splits)

lemma chooseTenant_code:
  "chooseTenant ks s asked claims = Ok (Inl (code, why, msg)) \<Longrightarrow> code \<in> {403, 409}"
  by (auto simp: chooseTenant_def obind_Ok_iff split: if_splits)

lemma srv_inv_pool: "srv_inv p s \<Longrightarrow> pool_inv p (alloc s)"
  by (simp add: srv_inv_def ipool.leases_def)

text \<open>The tenant whose routes a session gets, and the answer to a successful enrolment.\<close>

definition session_tenant :: "TStore \<Rightarrow> string \<Rightarrow> Tenant" where
  "session_tenant ts tid = the (Get_Tenant ts (if Get_Tenant ts tid = None then DefaultID else tid))"

definition enroll_reply :: "'d Server \<Rightarrow> time \<Rightarrow> string \<Rightarrow> ip \<Rightarrow> response" where
  "enroll_reply s expiry tid ip = writeJSON 200 (EnrollBody
     \<lparr>AssignedIP = ip_String ip @ ''/32'', ServerPublicKey = serverPubKey s,
      Endpoint = WGEndpoint (cfg s), AllowedIPs = t_AllowedIPs (session_tenant (tstore s) tid),
      resp_DNS = t_DNS (session_tenant (tstore s) tid), resp_GRPCEndpoint = GRPCEndpoint (cfg s),
      PersistentKeepalive = Keepalive (cfg s), LeaseExpiresAt = expiry\<rparr>)"

lemma enroll_reply_status [simp]: "status (enroll_reply s expiry tid ip) = 200"
  by (simp add: enroll_reply_def writeJSON_def)

lemma enroll_reply_alloc [simp]: "enroll_reply (s\<lparr>alloc := a\<rparr>) = enroll_reply s"
  by (simp add: enroll_reply_def fun_eq_iff)

lemma enroll_commit_Ok:
  assumes "ts_inv (tstore s)"
  shows "enroll_commit now pub req claims expiry tid ip s =
    (case AddPeer (gw s) pub ip (dev s) of
       (d, Some err) \<Rightarrow> Ok (writeErr 500 ''gateway_error'' ''could not program gateway'',
           s\<lparr>dev := d, alloc := Release (alloc s) ip\<rparr>)
     | (d, None) \<Rightarrow> Ok (enroll_reply s expiry tid ip, EnrollInc tid
           (s\<lparr>dev := d, store := Put (store s) (new_peer now req claims expiry tid ip)\<rparr>)))"
  using Routes_Ok [OF assms, of tid]
  by (simp add: enroll_commit_def new_peer_def enroll_reply_def session_tenant_def route_set_def
      Let_def split: prod.splits option.splits)

lemma handleEnroll_admitted:
  "admitted pk now ks req claims s pub expiry tid \<Longrightarrow>
     handleEnroll pk now ks (Inr req) claims s =
       (case enroll_address req claims s of
          (Inl resp, s1) \<Rightarrow> Ok (resp, s1)
        | (Inr ip, s1) \<Rightarrow> enroll_commit now pub req claims expiry tid ip s1)"
  by (simp add: handleEnroll_def decode_def admitted_def)

lemma handleEnroll_not_admitted:
  assumes h: "handleEnroll pk now ks b claims s = Ok (r, s')"
    and na: "\<And>req pub expiry tid. b = Inr req \<Longrightarrow> \<not> admitted pk now ks req claims s pub expiry tid"
  shows "s' = s \<and> status r \<in> {400, 403, 409}"
proof (cases b)
  case (Inl e)
  with h show ?thesis by (auto simp: handleEnroll_def decode_def writeErr_def writeJSON_def)
next
  case (Inr req)
  note b = Inr
  show ?thesis
  proof (cases "pk (er_PublicKey req)")
    case (Inl e)
    with h b show ?thesis by (auto simp: handleEnroll_def decode_def writeErr_def writeJSON_def)
  next
    case (Inr pub)
    note pub = Inr
    show ?thesis
    proof (cases "registered now s (er_PublicKey req) claims (now + LeaseTTL (cfg s))")
      case None
      with h b pub show ?thesis by (auto simp: handleEnroll_def decode_def writeErr_def writeJSON_def)
    next
      case (Some expiry)
      note reg = Some
      from h b pub reg obtain choice where c: "chooseTenant ks s (er_Tenant req) claims = Ok choice"
        by (auto simp: handleEnroll_def decode_def obind_Ok_iff)
      show ?thesis
      proof (cases choice)
        case (Inl x)
        with h b pub reg c show ?thesis
          using chooseTenant_code [of ks s "er_Tenant req" claims "fst x" "fst (snd x)" "snd (snd x)"]
          by (cases x) (auto simp: handleEnroll_def decode_def writeErr_def writeJSON_def)
      next
        case (Inr tid)
        with b pub reg c na [of req pub expiry tid] show ?thesis by (simp add: admitted_def)
      qed
    qed
  qed
qed

lemma handleEnroll_cases:
  assumes inv: "srv_inv p s"
    and h: "handleEnroll pk now ks b claims s = Ok (r, s')"
  obtains (refused) "s' = s" "status r \<in> {400, 403, 409, 503}"
  | (gateway_error) req pub expiry tid ip a d err where "b = Inr req"
      "admitted pk now ks req claims s pub expiry tid" "address_for req claims s ip a"
      "AddPeer (gw s) pub ip (dev s) = (d, Some err)" "status r = 500"
      "s' = s\<lparr>alloc := Release a ip, dev := d\<rparr>"
  | (enrolled) req pub expiry tid ip a d where "b = Inr req"
      "admitted pk now ks req claims s pub expiry tid" "address_for req claims s ip a"
      "AddPeer (gw s) pub ip (dev s) = (d, None)" "r = enroll_reply s expiry tid ip"
      "s' = EnrollInc tid
        (s\<lparr>alloc := a, dev := d, store := Put (store s) (new_peer now req claims expiry tid ip)\<rparr>)"
proof -
  show ?thesis
  proof (cases "\<exists>req pub expiry tid. b = Inr req \<and> admitted pk now ks req claims s pub expiry tid")
    case False
    then have "s' = s \<and> status r \<in> {400, 403, 409}"
      by (intro handleEnroll_not_admitted [OF h]) blast
    then show ?thesis using refused by auto
  next
    case True
    then obtain req pub expiry tid where b: "b = Inr req"
      and adm: "admitted pk now ks req claims s pub expiry tid" by blast
    have late: "(case enroll_address req claims s of (Inl resp, s1) \<Rightarrow> Ok (resp, s1)
        | (Inr ip, s1) \<Rightarrow> enroll_commit now pub req claims expiry tid ip s1) = Ok (r, s')"
      using h handleEnroll_admitted [OF adm] b by simp
    show ?thesis
    proof (cases "enroll_address req claims s")
      case (Pair x s1)
      show ?thesis
      proof (cases x)
        case (Inl resp)
        with Pair late have "r = resp" "s' = s1" by simp_all
        with enroll_address_Inl [OF srv_inv_pool [OF inv] Pair [unfolded Inl]]
        show ?thesis using refused by auto
      next
        case (Inr ip)
        with Pair obtain a where a: "address_for req claims s ip a" "s1 = s\<lparr>alloc := a\<rparr>"
          by (auto simp: enroll_address_Inr)
        have ts: "ts_inv (tstore (s\<lparr>alloc := a\<rparr>))" using srv_invD(2) [OF inv] by simp
        from late Pair Inr a(2)
        have c: "enroll_commit now pub req claims expiry tid ip (s\<lparr>alloc := a\<rparr>) = Ok (r, s')"
          by simp
        obtain d e where ap: "AddPeer (gw s) pub ip (dev s) = (d, e)"
          by (cases "AddPeer (gw s) pub ip (dev s)")
        then show ?thesis
          using c gateway_error [OF b adm a(1)] enrolled [OF b adm a(1)]
          by (cases e) (auto simp: enroll_commit_Ok [OF ts] writeErr_def writeJSON_def)
      qed
    qed
  qed
qed

section \<open>Enrolment keeps the invariant\<close>

lemma address_for_leases:
  assumes inv: "srv_inv p s" and a: "address_for req claims s ip a"
  shows "ipool.leases p a ((address_of s)(er_PublicKey req \<mapsto> ip))"
proof (cases "Get (store s) (er_PublicKey req)")
  case None
  then have "address_of s (er_PublicKey req) = None" and "Allocate (alloc s) = (Inr ip, a)"
    using a by (simp_all add: address_of_def address_for_def)
  with srv_invD(3) [OF inv] show ?thesis by (intro ipool.leases_allocate)
next
  case (Some q)
  then have "(address_of s)(er_PublicKey req \<mapsto> ip) = address_of s" and "a = alloc s"
    using a by (auto simp: address_of_def address_for_def)
  with srv_invD(3) [OF inv] show ?thesis by simp
qed

lemma address_of_enrolled [api_simps]:
  "address_of (s\<lparr>alloc := a, dev := d, store := Put (store s) q\<rparr>) =
     (address_of s)(p_PublicKey q \<mapsto> p_IP q)"
  by (auto simp: address_of_def store_simps)

lemma EnrollInc_frame [simp]:
  "store (EnrollInc tid s) = store s" "alloc (EnrollInc tid s) = alloc s"
  "tstore (EnrollInc tid s) = tstore s" "dev (EnrollInc tid s) = dev s"
  "gw (EnrollInc tid s) = gw s" "registry (EnrollInc tid s) = registry s"
  "cfg (EnrollInc tid s) = cfg s"
  by (simp_all add: EnrollInc_def)

text \<open>
  The one exception: the gateway refusing a device that is already enrolled. The handler then
  releases an address the store still holds.
\<close>

definition reenroll_failed :: "EnrollRequest result \<Rightarrow> 'd Server \<Rightarrow> response \<Rightarrow> bool" where
  "reenroll_failed b s r \<longleftrightarrow>
     status r = 500 \<and> (\<exists>req. b = Inr req \<and> Get (store s) (er_PublicKey req) \<noteq> None)"

lemma handleEnroll_inv:
  assumes inv: "srv_inv p s" and h: "handleEnroll pk now ks b claims s = Ok (r, s')"
    and ok: "\<not> reenroll_failed b s r"
  shows "srv_inv p s'"
  using inv h
proof (cases rule: handleEnroll_cases)
  case refused
  with inv show ?thesis by simp
next
  case (gateway_error req pub expiry tid ip a d err)
  let ?k = "er_PublicKey req"
  have none: "address_of s ?k = None"
    using ok gateway_error(1,5) by (auto simp: reenroll_failed_def address_of_def)
  have "ipool.leases p (Release a ip) (((address_of s)(?k \<mapsto> ip))(?k := None))"
    using address_for_leases [OF inv gateway_error(3)] by (rule ipool.leases_release) simp
  moreover have "((address_of s)(?k \<mapsto> ip))(?k := None) = address_of s"
    using none by (simp add: fun_upd_idem)
  ultimately show ?thesis
    using srv_invD [OF inv] gateway_error(6) by (simp add: srv_inv_def)
next
  case (enrolled req pub expiry tid ip a d)
  then show ?thesis
    using srv_invD [OF inv] address_for_leases [OF inv enrolled(3)]
    by (simp add: srv_inv_def api_simps)
qed

section \<open>No handler panics\<close>

lemma chooseTenant_Ok:
  assumes inv: "ts_inv (tstore s)" and ks: "ranges_over ks (tenants (tstore s))"
  obtains (chosen) tid where "chooseTenant ks s asked claims = Ok (Inr tid)"
      "tid \<in> tenants_of (tstore s) (Tenancy claims)"
      "asked \<noteq> [] \<longrightarrow> tid = asked" "asked = [] \<longrightarrow> tenants_of (tstore s) (Tenancy claims) = {tid}"
  | (required) msg where "chooseTenant ks s asked claims = Ok (Inl (409, ''tenant_required'', msg))"
      "asked = []" "\<exists>t u. t \<noteq> u \<and> {t, u} \<subseteq> tenants_of (tstore s) (Tenancy claims)"
  | (stranger) msg where "chooseTenant ks s asked claims = Ok (Inl (403, ''not_a_member'', msg))"
      "asked \<noteq> []" "asked \<notin> tenants_of (tstore s) (Tenancy claims)"
proof (rule For_Ok [OF inv ks, of "Tenancy claims"])
  fix ts
  assume f: "For ks (tstore s) (Tenancy claims) = Ok ts" and d: "distinct (map t_ID ts)"
    and ne: "ts \<noteq> []" and ids: "t_ID ` set ts = tenants_of (tstore s) (Tenancy claims)"
  show thesis
  proof (cases "asked = []")
    case True
    show ?thesis
    proof (cases ts)
      case (Cons t us)
      show ?thesis
      proof (cases us)
        case Nil
        then show ?thesis
          using True Cons f ids by (intro chosen [of "t_ID t"]) (auto simp: chooseTenant_def)
      next
        case (Cons u vs)
        with \<open>ts = t # us\<close> d ids have "t_ID t \<noteq> t_ID u \<and> {t_ID t, t_ID u} \<subseteq> tenants_of (tstore s) (Tenancy claims)"
          by auto
        then show ?thesis
          using True \<open>ts = t # us\<close> Cons f by (intro required) (auto simp: chooseTenant_def)
      qed
    qed (use ne in simp)
  next
    case False
    show ?thesis
    proof (cases "asked \<in> t_ID ` set ts")
      case True
      then have "list_ex (\<lambda>t. t_ID t = asked) ts" by (auto simp: list_ex_iff)
      with False True f ids show ?thesis
        by (intro chosen [of asked]) (simp_all add: chooseTenant_def)
    next
      case out: False
      then show ?thesis
        using False f ids by (intro stranger) (auto simp: chooseTenant_def list_ex_iff)
    qed
  qed
qed

lemma chooseTenant_total:
  assumes "ts_inv (tstore s)" "ranges_over ks (tenants (tstore s))"
  shows "\<exists>c. chooseTenant ks s asked claims = Ok c"
  by (rule For_Ok [OF assms, of "Tenancy claims"]) (simp add: chooseTenant_def)

lemma handleEnroll_total:
  assumes inv: "srv_inv p s" and ks: "ranges_over ks (tenants (tstore s))"
  shows "\<exists>r s'. handleEnroll pk now ks b claims s = Ok (r, s')"
proof -
  have commit: "\<exists>r s'. (case enroll_address req claims s of (Inl resp, s1) \<Rightarrow> Ok (resp, s1)
      | (Inr ip, s1) \<Rightarrow> enroll_commit now pub req claims expiry tid ip s1) = Ok (r, s')"
    for req pub expiry tid
  proof (cases "enroll_address req claims s")
    case (Pair x s1)
    show ?thesis
    proof (cases x)
      case (Inr ip)
      with Pair have "ts_inv (tstore s1)" using srv_invD(2) [OF inv] by (auto simp: enroll_address_Inr)
      with Pair Inr show ?thesis
        using enroll_commit_Ok [of s1] by (auto split: prod.splits option.splits)
    qed (use Pair in simp)
  qed
  show ?thesis
  proof (cases b)
    case (Inr req)
    obtain c where "chooseTenant ks s (er_Tenant req) claims = Ok c"
      using chooseTenant_total [OF srv_invD(2) [OF inv] ks] by blast
    with Inr commit [where req = req] show ?thesis
      by (simp add: handleEnroll_def decode_def split: sum.splits option.splits)
  qed (simp add: handleEnroll_def decode_def)
qed

end
