(* ===== verification/Api_Requests.thy ===== *)
theory Api_Requests
  imports Api_Correct
begin

text \<open>
  The other requests, and the mux over all of them: how a heartbeat and a deregistration end,
  what an answered request can have changed, and that every request is answered. The facts about
  one request are what the system's step relation is built on.
\<close>

section \<open>Registration\<close>

lemma registered_Some:
  assumes "registered now s k claims lease = Some e"
  shows "e \<le> lease"
    and "registry s = Some r \<Longrightarrow> \<exists>w. Lookup now r k = Some w \<and> wg_Subject w = c_Subject claims \<and>
      e = min lease (wg_Expires w)"
proof -
  show "e \<le> lease"
    using assms by (auto simp: registered_def split: option.splits if_splits)
  assume r: "registry s = Some r"
  with assms obtain w where "Lookup now r k = Some w" "wg_Subject w = c_Subject claims"
    "e = (if wg_Expires w < lease then wg_Expires w else lease)"
    by (auto simp: registered_def split: option.splits if_splits)
  then show "\<exists>w. Lookup now r k = Some w \<and> wg_Subject w = c_Subject claims \<and> e = min lease (wg_Expires w)"
    by (intro exI [of _ w]) (simp add: min_def)
qed

lemma registered_running:
  assumes "registered now s k claims lease = Some e" "now < lease"
  shows "now < e"
  using assms reg.in_time [of now] by (auto simp: registered_def split: option.splits if_splits)

section \<open>Heartbeat\<close>

lemma handleHeartbeat_cases:
  assumes inv: "ts_inv (tstore s)" and ks: "ranges_over ks (tenants (tstore s))"
  obtains (undecodable) e where "b = Inl e"
      "handleHeartbeat now ks b claims s = Ok (writeErr 400 ''bad_request'' e, s)"
  | (not_enrolled) k where "b = Inr k" "\<forall>q. Get (store s) k = Some q \<longrightarrow> p_Subject q \<noteq> c_Subject claims"
      "handleHeartbeat now ks b claims s =
         Ok (writeErr 404 ''not_enrolled'' ''no active enrollment for this key'', s)"
  | (not_a_member) k q where "b = Inr k" "Get (store s) k = Some q" "p_Subject q = c_Subject claims"
      "p_Tenant q \<notin> tenants_of (tstore s) (Tenancy claims)"
      "handleHeartbeat now ks b claims s =
         Ok (writeErr 403 ''not_a_member'' ''you are no longer a member of this tenant'', s)"
  | (not_registered) k q where "b = Inr k" "Get (store s) k = Some q" "p_Subject q = c_Subject claims"
      "p_Tenant q \<in> tenants_of (tstore s) (Tenancy claims)"
      "registered now s k claims (now + LeaseTTL (cfg s)) = None"
      "handleHeartbeat now ks b claims s = Ok (writeErr 403 ''key_not_registered''
         ''this device's key is no longer registered with the identity provider'', s)"
  | (renewed) k q e where "b = Inr k" "Get (store s) k = Some q" "p_Subject q = c_Subject claims"
      "p_Tenant q \<in> tenants_of (tstore s) (Tenancy claims)"
      "registered now s k claims (now + LeaseTTL (cfg s)) = Some e"
      "handleHeartbeat now ks b claims s =
         Ok (writeJSON 200 (HeartbeatBody e), s\<lparr>store := snd (Renew (store s) k e)\<rparr>)"
proof (cases b)
  case (Inl e)
  then show ?thesis by (intro undecodable) (simp_all add: handleHeartbeat_def decode_def)
next
  case (Inr k)
  note b = Inr
  show ?thesis
  proof (cases "\<exists>q. Get (store s) k = Some q \<and> p_Subject q = c_Subject claims")
    case False
    then show ?thesis
      using b by (intro not_enrolled [OF b])
        (auto simp: handleHeartbeat_def decode_def split: option.splits)
  next
    case True
    then obtain q where q: "Get (store s) k = Some q" "p_Subject q = c_Subject claims" by blast
    note hb = b q handleHeartbeat_def decode_def IsMember_Ok [OF inv ks, of "p_Tenant q" "Tenancy claims"]
    show ?thesis
    proof (cases "p_Tenant q \<in> tenants_of (tstore s) (Tenancy claims)")
      case False
      then show ?thesis by (intro not_a_member [OF b q]) (simp_all add: hb)
    next
      case True
      then show ?thesis
        using not_registered [OF b q True] renewed [OF b q True]
        by (cases "registered now s k claims (now + LeaseTTL (cfg s))") (simp_all add: hb)
    qed
  qed
qed

lemma srv_inv_Renew: "srv_inv p s \<Longrightarrow> srv_inv p (s\<lparr>store := snd (Renew (store s) k e)\<rparr>)"
  by (simp add: srv_inv_def api_simps)

section \<open>Deregistration\<close>

lemma handleDeregister_cases:
  obtains (undecodable) e where "b = Inl e"
      "handleDeregister pk b claims s = (writeErr 400 ''bad_request'' e, s)"
  | (unknown) k where "b = Inr k" "Get (store s) k = None"
      "handleDeregister pk b claims s = (\<lparr>status = 204, body = NoBody\<rparr>, s)"
  | (not_owner) k q where "b = Inr k" "Get (store s) k = Some q" "p_Subject q \<noteq> c_Subject claims"
      "handleDeregister pk b claims s =
         (writeErr 403 ''not_owner'' ''this key belongs to another user'', s)"
  | (removed) k q where "b = Inr k" "Get (store s) k = Some q" "p_Subject q = c_Subject claims"
      "handleDeregister pk b claims s = (\<lparr>status = 204, body = NoBody\<rparr>, drop_peer pk k (p_IP q) s)"
  by (cases b; cases "Get (store s) (projr b)"; cases "p_Subject (the (Get (store s) (projr b))) = c_Subject claims")
    (auto simp: handleDeregister_def decode_def)

lemma handleDeregister_inv:
  "srv_inv p s \<Longrightarrow> handleDeregister pk b claims s = (r, s') \<Longrightarrow> srv_inv p s'"
  by (cases rule: handleDeregister_cases [of b pk claims s]) (auto simp: srv_inv_drop)

section \<open>The mux\<close>

text \<open>Behind \<open>authenticated\<close>: without a verified token nothing runs.\<close>

lemma authenticated_cases:
  obtains (missing) "bearerToken h = []" "authenticated verify h next_h s =
      Ok (writeErr 401 ''missing_token'' ''Authorization: Bearer <id_token> required'', s)"
  | (invalid) e where "bearerToken h \<noteq> []" "verify (bearerToken h) = Inl e"
      "authenticated verify h next_h s = Ok (writeErr 401 ''invalid_token'' e, s)"
  | (verified) claims where "bearerToken h \<noteq> []" "verify (bearerToken h) = Inr claims"
      "authenticated verify h next_h s = next_h claims s"
  by (cases "bearerToken h = []"; cases "verify (bearerToken h)") (auto simp: authenticated_def Let_def)

text \<open>The handler of a route, by the identity it runs under.\<close>

definition dispatch ::
    "parse_key \<Rightarrow> time \<Rightarrow> string list \<Rightarrow> call \<Rightarrow> Claims \<Rightarrow> 'd Server \<Rightarrow> (response \<times> 'd Server) outcome" where
  "dispatch pk now ks c claims s =
     (case c of
        Healthz \<Rightarrow> Ok (handleHealthz s)
      | Enroll b \<Rightarrow> handleEnroll pk now ks b claims s
      | Heartbeat b \<Rightarrow> handleHeartbeat now ks b claims s
      | Deregister b \<Rightarrow> Ok (handleDeregister pk b claims s)
      | Tenants \<Rightarrow> handleTenants ks claims s)"

lemma Handler_cases:
  obtains (public) "c = Healthz" "Handler pk verify now ks h c s = Ok (writeJSON 200 (StatusBody ''ok''), s)"
  | (unauthenticated) r where "c \<noteq> Healthz" "status r = 401" "Handler pk verify now ks h c s = Ok (r, s)"
      "bearerToken h = [] \<or> (\<exists>e. verify (bearerToken h) = Inl e)"
  | (verified) claims where "c \<noteq> Healthz" "bearerToken h \<noteq> []" "verify (bearerToken h) = Inr claims"
      "Handler pk verify now ks h c s = dispatch pk now ks c claims s"
proof (cases "c = Healthz")
  case True
  then show ?thesis using public by (simp add: Handler_def handleHealthz_def)
next
  case False
  have H: "Handler pk verify now ks h c s = authenticated verify h (dispatch pk now ks c) s"
    using False by (cases c) (simp_all add: Handler_def dispatch_def [abs_def])
  show ?thesis
  proof (cases rule: authenticated_cases [of h verify "dispatch pk now ks c" s])
    case missing
    then show ?thesis using H by (intro unauthenticated [OF False]) (auto simp: writeErr_def writeJSON_def)
  next
    case (invalid e)
    then show ?thesis using H by (intro unauthenticated [OF False]) (auto simp: writeErr_def writeJSON_def)
  next
    case (verified claims)
    then show ?thesis using \<open>c \<noteq> Healthz\<close> H that(3) by simp
  qed
qed

lemma handleTenants_state: "handleTenants ks claims s = Ok (r, s') \<Longrightarrow> s' = s"
  by (auto simp: handleTenants_def obind_Ok_iff)

text \<open>What the exception of \<open>reenroll_failed\<close> is for a request.\<close>

definition call_failed_reenroll :: "call \<Rightarrow> 'd Server \<Rightarrow> response \<Rightarrow> bool" where
  "call_failed_reenroll c s r \<longleftrightarrow> (\<exists>b. c = Enroll b \<and> reenroll_failed b s r)"

lemma dispatch_inv:
  assumes inv: "srv_inv p s" and ks: "ranges_over ks (tenants (tstore s))"
    and h: "dispatch pk now ks c claims s = Ok (r, s')" and ok: "\<not> call_failed_reenroll c s r"
  shows "srv_inv p s'"
proof (cases c)
  case Healthz
  with h inv show ?thesis by (simp add: dispatch_def handleHealthz_def)
next
  case (Enroll b)
  with h ok show ?thesis
    by (intro handleEnroll_inv [OF inv]) (auto simp: dispatch_def call_failed_reenroll_def)
next
  case (Heartbeat b)
  with h have "handleHeartbeat now ks b claims s = Ok (r, s')" by (simp add: dispatch_def)
  then show ?thesis
    using inv by (cases rule: handleHeartbeat_cases [OF srv_invD(2) [OF inv] ks, of b now claims])
      (auto simp: srv_inv_Renew)
next
  case (Deregister b)
  with h show ?thesis by (intro handleDeregister_inv [OF inv]) (simp add: dispatch_def)
next
  case Tenants
  with h inv show ?thesis using handleTenants_state by (force simp: dispatch_def)
qed

lemma Handler_inv:
  assumes inv: "srv_inv p s" and ks: "ranges_over ks (tenants (tstore s))"
    and h: "Handler pk verify now ks hdr c s = Ok (r, s')" and ok: "\<not> call_failed_reenroll c s r"
  shows "srv_inv p s'"
proof (cases rule: Handler_cases [of c pk verify now ks hdr s])
  case (verified claims)
  with h show ?thesis by (intro dispatch_inv [OF inv ks _ ok]) simp
qed (use inv h in auto)

lemma Handler_total:
  assumes inv: "srv_inv p s" and ks: "ranges_over ks (tenants (tstore s))"
  shows "\<exists>r s'. Handler pk verify now ks hdr c s = Ok (r, s')"
proof -
  have "\<exists>r s'. dispatch pk now ks c claims s = Ok (r, s')" for claims
  proof (cases c)
    case (Enroll b)
    then show ?thesis using handleEnroll_total [OF inv ks] by (simp add: dispatch_def)
  next
    case (Heartbeat b)
    then show ?thesis
      by (cases rule: handleHeartbeat_cases [OF srv_invD(2) [OF inv] ks, of b now claims])
        (simp_all add: dispatch_def)
  next
    case Tenants
    obtain ts where "For ks (tstore s) (Tenancy claims) = Ok ts"
      by (rule For_Ok [OF srv_invD(2) [OF inv] ks])
    with Tenants show ?thesis by (simp add: dispatch_def handleTenants_def)
  qed (simp_all add: dispatch_def handleHealthz_def)
  then show ?thesis by (cases rule: Handler_cases [of c pk verify now ks hdr s]) auto
qed

section \<open>What one request can change\<close>

text \<open>
  Everything an answered request may have done to the record of a key: nothing; or, on behalf of
  the identity the token proved, a change to a record that was absent or that person's own. A
  record that is there afterwards is that person's, for a tenant the person is a member of, with
  a lease the configuration and the registration allow, and on the address it had before.
\<close>

definition granted :: "time \<Rightarrow> 'd Server \<Rightarrow> Claims \<Rightarrow> string \<Rightarrow> Peer \<Rightarrow> bool" where
  "granted now s claims k q \<longleftrightarrow>
     p_Subject q = c_Subject claims \<and> p_Tenant q \<in> tenants_of (tstore s) (Tenancy claims) \<and>
     registered now s k claims (now + LeaseTTL (cfg s)) = Some (p_LeaseExpiry q)"

definition own_change :: "time \<Rightarrow> 'd Server \<Rightarrow> Claims \<Rightarrow> string \<Rightarrow> Peer option \<Rightarrow> bool" where
  "own_change now s claims k new \<longleftrightarrow>
     (\<forall>q0. Get (store s) k = Some q0 \<longrightarrow> p_Subject q0 = c_Subject claims) \<and>
     (\<forall>q. new = Some q \<longrightarrow> granted now s claims k q \<and>
        (\<forall>q0. Get (store s) k = Some q0 \<longrightarrow> p_IP q = p_IP q0))"

lemma chooseTenant_member:
  assumes "ts_inv (tstore s)" "ranges_over ks (tenants (tstore s))"
    and c: "chooseTenant ks s asked claims = Ok (Inr tid)"
  shows "tid \<in> tenants_of (tstore s) (Tenancy claims)"
  by (cases rule: chooseTenant_Ok [OF assms(1,2), of asked claims]) (use c in auto)

lemma handleEnroll_change:
  assumes inv: "srv_inv p s" and ks: "ranges_over ks (tenants (tstore s))"
    and h: "handleEnroll pk now ks b claims s = Ok (r, s')"
  shows "Get (store s') k = Get (store s) k \<or> own_change now s claims k (Get (store s') k)"
  using inv h
proof (cases rule: handleEnroll_cases)
  case (enrolled req pub expiry tid ip a d)
  have "tid \<in> tenants_of (tstore s) (Tenancy claims)"
    using enrolled(2) by (auto simp: admitted_def intro: chooseTenant_member [OF srv_invD(2) [OF inv] ks])
  with enrolled(2,3) have
    "own_change now s claims (er_PublicKey req) (Some (new_peer now req claims expiry tid ip))"
    by (auto simp: own_change_def granted_def admitted_def address_for_def)
  with enrolled(6) show ?thesis by (simp add: store_simps)
qed auto

lemma handleHeartbeat_change:
  assumes inv: "ts_inv (tstore s)" and ks: "ranges_over ks (tenants (tstore s))"
    and h: "handleHeartbeat now ks b claims s = Ok (r, s')"
  shows "Get (store s') k = Get (store s) k \<or> own_change now s claims k (Get (store s') k)"
  using inv ks
proof (cases rule: handleHeartbeat_cases [where b = b and now = now and claims = claims])
  case (renewed k' q e)
  with h have s': "s' = s\<lparr>store := snd (Renew (store s) k' e)\<rparr>" by simp
  have "own_change now s claims k' (Some (q\<lparr>p_LeaseExpiry := e\<rparr>))"
    using renewed by (simp add: own_change_def granted_def)
  with s' renewed(2) show ?thesis by (simp add: store_simps)
qed (use h in auto)

lemma handleDeregister_change:
  assumes h: "handleDeregister pk b claims s = (r, s')"
  shows "Get (store s') k = Get (store s) k \<or> own_change now s claims k (Get (store s') k)"
proof (cases rule: handleDeregister_cases [of b pk claims s])
  case (removed k' q)
  with h show ?thesis by (auto simp: own_change_def store_simps)
qed (use h in auto)

lemma Handler_change:
  assumes inv: "srv_inv p s" and ks: "ranges_over ks (tenants (tstore s))"
    and h: "Handler pk verify now ks hdr c s = Ok (r, s')"
    and ch: "Get (store s') k \<noteq> Get (store s) k"
  obtains claims where "bearerToken hdr \<noteq> []" "verify (bearerToken hdr) = Inr claims"
    "own_change now s claims k (Get (store s') k)"
proof (cases rule: Handler_cases [of c pk verify now ks hdr s])
  case (verified claims)
  with h have d: "dispatch pk now ks c claims s = Ok (r, s')" by simp
  have "Get (store s') k = Get (store s) k \<or> own_change now s claims k (Get (store s') k)"
  proof (cases c)
    case (Enroll b)
    with d show ?thesis by (intro handleEnroll_change [OF inv ks]) (simp add: dispatch_def)
  next
    case (Heartbeat b)
    with d show ?thesis
      by (intro handleHeartbeat_change [OF srv_invD(2) [OF inv] ks]) (simp add: dispatch_def)
  next
    case (Deregister b)
    with d show ?thesis by (intro handleDeregister_change) (simp add: dispatch_def)
  qed (use d handleTenants_state in \<open>force simp: dispatch_def handleHealthz_def\<close>)+
  with ch verified that show ?thesis by blast
qed (use h ch in auto)

text \<open>No request touches the tenants, the registry or the configuration.\<close>

lemma Handler_frame:
  assumes inv: "srv_inv p s" and ks: "ranges_over ks (tenants (tstore s))"
    and h: "Handler pk verify now ks hdr c s = Ok (r, s')"
  shows "tstore s' = tstore s" "registry s' = registry s" "cfg s' = cfg s" "gw s' = gw s"
proof -
  have "tstore s' = tstore s \<and> registry s' = registry s \<and> cfg s' = cfg s \<and> gw s' = gw s"
  proof (cases rule: Handler_cases [of c pk verify now ks hdr s])
    case (verified claims)
    with h have d: "dispatch pk now ks c claims s = Ok (r, s')" by simp
    show ?thesis
    proof (cases c)
      case (Enroll b)
      with d have "handleEnroll pk now ks b claims s = Ok (r, s')" by (simp add: dispatch_def)
      with inv show ?thesis by (cases rule: handleEnroll_cases) simp_all
    next
      case (Heartbeat b)
      with d show ?thesis
        by (cases rule: handleHeartbeat_cases [OF srv_invD(2) [OF inv] ks, of b now claims])
          (auto simp: dispatch_def)
    next
      case (Deregister b)
      with d show ?thesis
        by (cases rule: handleDeregister_cases [of b pk claims s]) (auto simp: dispatch_def)
    qed (use d handleTenants_state in \<open>force simp: dispatch_def handleHealthz_def\<close>)+
  qed (use h in auto)
  then show "tstore s' = tstore s" "registry s' = registry s" "cfg s' = cfg s" "gw s' = gw s"
    by simp_all
qed

end
