(* ===== verification/Api_Device.thy ===== *)
theory Api_Device
  imports Api_Requests
begin

text \<open>
  What the WireGuard device holds, against what the server believes it holds. \<open>programmed\<close> is
  the relation between the leases and the device: every lease is on the device, under its key and
  with exactly its address, and a pool address is routed to nobody without that lease. It is kept
  as long as the gateway reports no error and the texts of the keys are canonical, that is, no
  two texts in use denote one key.
\<close>

definition canonical :: "parse_key \<Rightarrow> string set \<Rightarrow> bool" where
  "canonical pk C \<longleftrightarrow> (\<forall>k \<in> C. \<forall>k' \<in> C. \<forall>pub. pk k = Inr pub \<longrightarrow> pk k' = Inr pub \<longrightarrow> k = k')"

definition removes :: "'d Gateway \<Rightarrow> bool" where
  "removes g \<longleftrightarrow> (\<forall>pub d. snd (RemovePeer g pub d) = None)"

definition programmed ::
    "parse_key \<Rightarrow> string set \<Rightarrow> ip set \<Rightarrow> (string \<rightharpoonup> ip) \<Rightarrow> (wgkey, IPNet list) fmap \<Rightarrow> bool" where
  "programmed pk C H l v \<longleftrightarrow>
     dom l \<subseteq> C \<and>
     (\<forall>k i. l k = Some i \<longrightarrow> (\<exists>pub. pk k = Inr pub \<and> fmlookup v pub = Some [host_net i])) \<and>
     (\<forall>pub nets i. fmlookup v pub = Some nets \<longrightarrow> i \<in> H \<longrightarrow> host_net i \<in> set nets \<longrightarrow>
        (\<exists>k. l k = Some i \<and> pk k = Inr pub))"

lemma host_net_inject [simp]: "host_net i = host_net j \<longleftrightarrow> i = j"
  by (simp add: host_net_def)

lemma programmedD:
  assumes "programmed pk C H l v"
  shows "dom l \<subseteq> C"
    and "l k = Some i \<Longrightarrow> \<exists>pub. pk k = Inr pub \<and> fmlookup v pub = Some [host_net i]"
    and "fmlookup v pub = Some nets \<Longrightarrow> i \<in> H \<Longrightarrow> host_net i \<in> set nets \<Longrightarrow>
      \<exists>k. l k = Some i \<and> pk k = Inr pub"
  using assms unfolding programmed_def by blast+

text \<open>Giving a key an address nobody else leases.\<close>

lemma programmed_add:
  assumes P: "programmed pk C H l v" and C: "canonical pk C" "k \<in> C" "pk k = Inr pub"
    and fresh: "\<And>k'. l k' = Some i \<Longrightarrow> k' = k" and same: "\<And>j. l k = Some j \<Longrightarrow> j = i"
    and v': "\<And>x. fmlookup v' x = (if x = pub then Some [host_net i]
      else map_option (filter (\<lambda>n. n \<noteq> host_net i)) (fmlookup v x))"
  shows "programmed pk C H (l(k \<mapsto> i)) v'"
  unfolding programmed_def
proof (intro conjI allI impI)
  show "dom (l(k \<mapsto> i)) \<subseteq> C" using programmedD(1) [OF P] C(2) by simp
next
  fix k' j
  assume j: "(l(k \<mapsto> i)) k' = Some j"
  show "\<exists>pub. pk k' = Inr pub \<and> fmlookup v' pub = Some [host_net j]"
  proof (cases "k' = k")
    case True
    with j C v' show ?thesis by simp
  next
    case False
    with j have l: "l k' = Some j" by simp
    obtain pub' where p: "pk k' = Inr pub'" "fmlookup v pub' = Some [host_net j]"
      using programmedD(2) [OF P l] by blast
    have "k' \<in> C" using programmedD(1) [OF P] l by blast
    with C p(1) False have "pub' \<noteq> pub" unfolding canonical_def by blast
    moreover have "j \<noteq> i" using fresh [of k'] l False by auto
    ultimately show ?thesis using p v' [of pub'] by auto
  qed
next
  fix x nets j
  assume n: "fmlookup v' x = Some nets" and j: "j \<in> H" "host_net j \<in> set nets"
  show "\<exists>k'. (l(k \<mapsto> i)) k' = Some j \<and> pk k' = Inr x"
  proof (cases "x = pub")
    case True
    with n v' j have "j = i" by auto
    with True C show ?thesis by (intro exI [of _ k]) simp
  next
    case False
    with n v' obtain ns where ns: "fmlookup v x = Some ns" "nets = filter (\<lambda>n. n \<noteq> host_net i) ns"
      by auto
    with j obtain k' where k': "l k' = Some j" "pk k' = Inr x" using programmedD(3) [OF P ns(1)] by auto
    with False C have "k' \<noteq> k" by auto
    with k' show ?thesis by (intro exI [of _ k']) simp
  qed
qed

text \<open>Taking a lease back.\<close>

lemma programmed_drop:
  assumes P: "programmed pk C H l v" and C: "canonical pk C" and k: "l k = Some i" "pk k = Inr pub"
  shows "programmed pk C H (l(k := None)) (fmdrop pub v)"
  unfolding programmed_def
proof (intro conjI allI impI)
  show "dom (l(k := None)) \<subseteq> C" using programmedD(1) [OF P] by auto
next
  fix k' j
  assume "(l(k := None)) k' = Some j"
  then have l: "l k' = Some j" and ne: "k' \<noteq> k" by (auto split: if_splits)
  obtain pub' where p: "pk k' = Inr pub'" "fmlookup v pub' = Some [host_net j]"
    using programmedD(2) [OF P l] by blast
  have "k \<in> C" "k' \<in> C" using programmedD(1) [OF P] l k by blast+
  with C p(1) k(2) ne have "pub' \<noteq> pub" unfolding canonical_def by blast
  with p show "\<exists>pub'. pk k' = Inr pub' \<and> fmlookup (fmdrop pub v) pub' = Some [host_net j]" by simp
next
  fix x nets j
  assume n: "fmlookup (fmdrop pub v) x = Some nets" and j: "j \<in> H" "host_net j \<in> set nets"
  then have "x \<noteq> pub" "fmlookup v x = Some nets" by (auto split: if_splits)
  with programmedD(3) [OF P _ j] obtain k' where "l k' = Some j" "pk k' = Inr x" by blast
  with k(2) \<open>x \<noteq> pub\<close> show "\<exists>k'. (l(k := None)) k' = Some j \<and> pk k' = Inr x" by (intro exI [of _ k']) auto
qed

section \<open>The server and its device\<close>

definition dev_inv :: "parse_key \<Rightarrow> string set \<Rightarrow> 'd view \<Rightarrow> nat \<Rightarrow> 'd Server \<Rightarrow> bool" where
  "dev_inv pk C view p s \<longleftrightarrow>
     gateway_ok view (gw s) \<and> removes (gw s) \<and>
     programmed pk C (hosts (network (alloc s)) p) (address_of s) (view (dev s))"

lemma dev_inv_drop:
  assumes D: "dev_inv pk C view p s" and C: "canonical pk C" and k: "Get (store s) k = Some q"
  shows "dev_inv pk C view p (drop_peer pk k (p_IP q) s)"
proof -
  have l: "address_of s k = Some (p_IP q)" using k by (simp add: address_of_def)
  have P: "programmed pk C (hosts (network (alloc s)) p) (address_of s) (view (dev s))"
    and g: "gateway_ok view (gw s)" and r: "removes (gw s)" using D by (simp_all add: dev_inv_def)
  obtain pub where pub: "pk k = Inr pub" using programmedD(2) [OF P l] by blast
  have "dev (drop_peer pk k (p_IP q) s) = fst (RemovePeer (gw s) pub (dev s))"
    by (simp add: drop_peer_def Let_def pub)
  moreover have "view (fst (RemovePeer (gw s) pub (dev s))) = fmdrop pub (view (dev s))"
    using r by (intro gateway_RemovePeer [OF g]) (simp add: removes_def prod_eq_iff)
  ultimately show ?thesis
    using programmed_drop [OF P C l pub] g r by (simp add: dev_inv_def api_simps)
qed

lemma dev_inv_reap_loop:
  "dev_inv pk C view p s \<Longrightarrow> canonical pk C \<Longrightarrow> as_stored ps s \<Longrightarrow> dev_inv pk C view p (reap_loop pk ps s)"
proof (induction ps arbitrary: s)
  case (Cons q ps)
  then have "dev_inv pk C view p (drop_peer pk (p_PublicKey q) (p_IP q) s)"
    by (intro dev_inv_drop) (simp_all add: as_stored_def)
  with Cons show ?case using as_stored_tl [OF Cons.prems(3)] by simp
qed simp

lemma dev_inv_ReapExpired:
  assumes "dev_inv pk C view p s" "canonical pk C" "keyed (store s)" "ranges_over ks (peers (store s))"
  shows "dev_inv pk C view p (ReapExpired pk now ks s)"
  unfolding ReapExpired_def Expired_def using assms by (intro dev_inv_reap_loop as_stored_range)

lemma dev_inv_Reconcile:
  assumes "dev_inv pk C view p s" "canonical pk C" "keyed (store s)" "ranges_over ks (peers (store s))"
  shows "dev_inv pk C view p (Reconcile pk ks allowed s)"
  unfolding Reconcile_def List_Peers_def reconcile_loop_reap
  using assms by (intro dev_inv_reap_loop as_stored_range)

lemma address_for_fresh:
  assumes inv: "srv_inv p s" and a: "address_for req claims s ip a"
  shows "address_of s k' = Some ip \<Longrightarrow> k' = er_PublicKey req"
    and "address_of s (er_PublicKey req) = Some j \<Longrightarrow> j = ip"
    and "network a = network (alloc s)"
proof -
  have l: "ipool.leases p a ((address_of s)(er_PublicKey req \<mapsto> ip))"
    by (rule address_for_leases [OF inv a])
  show "k' = er_PublicKey req" if "address_of s k' = Some ip"
    using ipool.leases_distinct [OF l, of k' ip "er_PublicKey req"] that by (cases "k' = er_PublicKey req") auto
  show "j = ip" if "address_of s (er_PublicKey req) = Some j"
    using a that by (auto simp: address_for_def address_of_def)
  show "network a = network (alloc s)"
    using a by (auto simp: address_for_def Allocate_def split: option.splits prod.splits sum.splits if_splits)
qed

lemma dev_inv_Enroll:
  assumes inv: "srv_inv p s" and D: "dev_inv pk C view p s" and C: "canonical pk C"
    and h: "handleEnroll pk now ks b claims s = Ok (r, s')" and r: "status r \<noteq> 500"
    and k: "\<And>req. b = Inr req \<Longrightarrow> er_PublicKey req \<in> C"
  shows "dev_inv pk C view p s'"
  using inv h
proof (cases rule: handleEnroll_cases)
  case refused
  with D show ?thesis by simp
next
  case gateway_error
  with r show ?thesis by simp
next
  case (enrolled req pub expiry tid ip a d)
  have P: "programmed pk C (hosts (network (alloc s)) p) (address_of s) (view (dev s))"
    and g: "gateway_ok view (gw s)" using D by (simp_all add: dev_inv_def)
  have "pk (er_PublicKey req) = Inr pub" using enrolled(2) by (simp add: admitted_def)
  then have "programmed pk C (hosts (network (alloc s)) p) ((address_of s)(er_PublicKey req \<mapsto> ip)) (view d)"
    by (rule programmed_add [OF P C k [OF enrolled(1)] _ address_for_fresh(1,2) [OF inv enrolled(3)]
          gateway_AddPeer [OF g enrolled(4)]])
  with D enrolled(6) address_for_fresh(3) [OF inv enrolled(3)] show ?thesis
    by (simp add: dev_inv_def api_simps)
qed

lemma dev_inv_Renew: "dev_inv pk C view p s \<Longrightarrow> dev_inv pk C view p (s\<lparr>store := snd (Renew (store s) k e)\<rparr>)"
  by (simp add: dev_inv_def api_simps)

lemma dev_inv_Handler:
  assumes inv: "srv_inv p s" and ks: "ranges_over ks (tenants (tstore s))"
    and D: "dev_inv pk C view p s" and C: "canonical pk C"
    and h: "Handler pk verify now ks hdr c s = Ok (r, s')" and r: "status r \<noteq> 500"
    and k: "\<And>req. c = Enroll (Inr req) \<Longrightarrow> er_PublicKey req \<in> C"
  shows "dev_inv pk C view p s'"
proof (cases rule: Handler_cases [of c pk verify now ks hdr s])
  case (verified claims)
  with h have d: "dispatch pk now ks c claims s = Ok (r, s')" by simp
  show ?thesis
  proof (cases c)
    case (Enroll b)
    with d k show ?thesis by (intro dev_inv_Enroll [OF inv D C _ r]) (auto simp: dispatch_def)
  next
    case (Heartbeat b)
    with d D show ?thesis
      by (cases rule: handleHeartbeat_cases [OF srv_invD(2) [OF inv] ks, of b now claims])
        (auto simp: dispatch_def dev_inv_Renew)
  next
    case (Deregister b)
    with d D C show ?thesis
      by (cases rule: handleDeregister_cases [of b pk claims s]) (auto simp: dispatch_def dev_inv_drop)
  qed (use d D handleTenants_state in \<open>force simp: dispatch_def handleHealthz_def\<close>)+
qed (use D h in auto)

end
