(* ===== verification/Route_Push.thy ===== *)
theory Route_Push
  imports Tenant
begin

text \<open>
  The tenant store as the system of its operations: any number of administrators and watchers,
  each call atomic under the store's lock, in any order. \<open>ts_step\<close> is one call. Invariants are
  proved by rule induction over it: \<open>ts_inv\<close>, and that an update waiting in a watcher's channel
  is never stale.
\<close>

inductive ts_step :: "TStore \<Rightarrow> TStore \<Rightarrow> bool" where
  create: "Create s t = (r, s') \<Longrightarrow> ts_step s s'"
| update: "Update subs s k t = Ok (r, s') \<Longrightarrow>
    (\<forall>st. fmlookup (tenants s) k = Some st \<longrightarrow> ranges_over subs (st_subs st)) \<Longrightarrow> ts_step s s'"
| delete: "Delete_Tenant subs s k = Ok (r, s') \<Longrightarrow>
    (\<forall>st. fmlookup (tenants s) k = Some st \<longrightarrow> ranges_over subs (st_subs st)) \<Longrightarrow> ts_step s s'"
| subscribe: "Subscribe s k = Ok (i, r, x, s') \<Longrightarrow> ts_step s s'"
| unsubscribe: "Unsubscribe s k i = Ok s' \<Longrightarrow> ts_step s s'"
| receive: "recv_chan r s = (x, s') \<Longrightarrow> ts_step s s'"

inductive_cases ts_stepE: "ts_step s s'"

definition ts_reachable :: "TStore \<Rightarrow> TStore \<Rightarrow> bool" where
  "ts_reachable s s' \<longleftrightarrow> ts_step\<^sup>*\<^sup>* s s'"

lemma ts_inv_step: "ts_step s s' \<Longrightarrow> ts_inv s \<Longrightarrow> ts_inv s'"
proof (induction rule: ts_step.induct)
  case (receive r s x s')
  then show ?case using ts_inv_recv [of s r] by simp
qed (auto intro: ts_inv_Create ts_inv_Update ts_inv_Delete_Tenant ts_inv_Subscribe ts_inv_Unsubscribe)

section \<open>An update that waits is the newest\<close>

definition ts_fresh :: "TStore \<Rightarrow> bool" where
  "ts_fresh s \<longleftrightarrow> (\<forall>k i r t. sub_of s k i = Some r \<longrightarrow> Get_Tenant s k = Some t \<longrightarrow>
     ch_buf (chans s ! r) = [] \<or> ch_buf (chans s ! r) = [route_set t])"

lemma ts_freshD:
  "ts_fresh s \<Longrightarrow> sub_of s k i = Some r \<Longrightarrow> Get_Tenant s k = Some t \<Longrightarrow>
     ch_buf (chans s ! r) = [] \<or> ch_buf (chans s ! r) = [route_set t]"
  unfolding ts_fresh_def by blast

text \<open>Steps that touch neither the watched tenant nor what waits in its channel.\<close>

lemma ts_fresh_frame:
  assumes fresh: "ts_fresh s"
    and "\<And>k i r t. sub_of s' k i = Some r \<Longrightarrow> Get_Tenant s' k = Some t \<Longrightarrow>
      ch_buf (chans s' ! r) = [] \<or> ch_buf (chans s' ! r) = [route_set t] \<or>
      (sub_of s k i = Some r \<and> Get_Tenant s k = Some t \<and> ch_buf (chans s' ! r) = ch_buf (chans s ! r))"
  shows "ts_fresh s'"
  unfolding ts_fresh_def using assms(2) ts_freshD [OF fresh] by metis

lemma ts_fresh_Create:
  assumes inv: "ts_inv s" and fresh: "ts_fresh s" and c: "Create s t = (r, s')"
  shows "ts_fresh s'"
proof (cases r)
  case (Inr t')
  note eff = Create_Inr [OF c [unfolded Inr]]
  have "sub_of s (t_ID t') i = None" for i
    using eff(1) by (auto simp: sub_of_def Get_Tenant_def)
  then show ?thesis
    by (intro ts_fresh_frame [OF fresh]) (auto simp: eff(2-4) split: if_splits)
qed (use fresh c in \<open>auto dest: Create_Inl\<close>)

lemma ts_fresh_Update:
  assumes inv: "ts_inv s" and fresh: "ts_fresh s"
    and subs: "\<forall>st. fmlookup (tenants s) k = Some st \<longrightarrow> ranges_over subs (st_subs st)"
    and upd: "Update subs s k in_t = Ok (r, s')"
  shows "ts_fresh s'"
proof (cases "fmlookup (tenants s) k")
  case (Some st)
  let ?t = "updated (st_t st) in_t"
  have rg: "ranges_over subs (st_subs st)" using subs Some by simp
  show ?thesis
  proof (rule Update_known [OF inv Some rg, of in_t])
    fix s1
    assume u: "Update subs s k in_t = Ok (Inr ?t, s1)"
      and g: "\<And>j. Get_Tenant s1 j = (if j = k then Some ?t else Get_Tenant s j)"
      and sb: "\<And>j i. sub_of s1 j i = sub_of s j i"
      and ch: "\<And>i r. sub_of s k i = Some r \<Longrightarrow>
        chans s1 ! r = \<lparr>ch_buf = [route_set ?t], ch_closed = False\<rparr>"
      and oth: "\<And>r. \<forall>i. sub_of s k i \<noteq> Some r \<Longrightarrow> chans s1 ! r = chans s ! r"
    have "ts_fresh s1"
    proof (rule ts_fresh_frame [OF fresh])
      fix j i q t
      assume q: "sub_of s1 j i = Some q" and t: "Get_Tenant s1 j = Some t"
      show "ch_buf (chans s1 ! q) = [] \<or> ch_buf (chans s1 ! q) = [route_set t] \<or>
        (sub_of s j i = Some q \<and> Get_Tenant s j = Some t \<and> ch_buf (chans s1 ! q) = ch_buf (chans s ! q))"
      proof (cases "j = k")
        case True
        with q t show ?thesis using ch [of i q] by (simp add: sb g)
      next
        case False
        with q have "\<forall>n. sub_of s k n \<noteq> Some q" using live_other_tenant [OF inv] by (auto simp: sb)
        with oth q t False show ?thesis by (simp add: sb g)
      qed
    qed
    with u upd show "ts_fresh s'" by simp
  qed
qed (use fresh upd in \<open>auto simp: Update_unknown\<close>)

lemma ts_fresh_Delete:
  assumes inv: "ts_inv s" and fresh: "ts_fresh s"
    and subs: "\<forall>st. fmlookup (tenants s) k = Some st \<longrightarrow> ranges_over subs (st_subs st)"
    and del: "Delete_Tenant subs s k = Ok (r, s')"
  shows "ts_fresh s'"
proof (cases "k \<noteq> DefaultID \<and> fmlookup (tenants s) k \<noteq> None")
  case True
  then obtain st where st: "fmlookup (tenants s) k = Some st" and k: "k \<noteq> DefaultID" by auto
  have rg: "ranges_over subs (st_subs st)" using subs st by simp
  show ?thesis
  proof (rule Delete_Tenant_known [OF inv st k rg])
    fix s1
    assume d: "Delete_Tenant subs s k = Ok (None, s1)"
      and g: "\<And>j. Get_Tenant s1 j = (if j = k then None else Get_Tenant s j)"
      and sb: "\<And>j i. sub_of s1 j i = (if j = k then None else sub_of s j i)"
      and ch: "\<And>i r. sub_of s k i = Some r \<Longrightarrow> chans s1 ! r = (chans s ! r)\<lparr>ch_closed := True\<rparr>"
      and oth: "\<And>r. \<forall>i. sub_of s k i \<noteq> Some r \<Longrightarrow> chans s1 ! r = chans s ! r"
    have "ch_buf (chans s1 ! q) = ch_buf (chans s ! q)" for q
      using ch [of _ q] oth [of q] by (cases "\<exists>i. sub_of s k i = Some q") auto
    then have "ts_fresh s1"
      by (intro ts_fresh_frame [OF fresh]) (auto simp: g sb split: if_splits)
    with d del show "ts_fresh s'" by simp
  qed
qed (use fresh del in \<open>auto simp: Delete_Tenant_def split: if_splits\<close>)

lemma ts_fresh_Subscribe:
  assumes inv: "ts_inv s" and fresh: "ts_fresh s" and sub: "Subscribe s tid = Ok (i, r, x, s')"
  shows "ts_fresh s'"
proof (rule Subscribe_ok [OF inv, of tid])
  fix k st s1
  assume eq: "Subscribe s tid = Ok (nextSub s, length (chans s), route_set (st_t st), s1)"
    and g: "\<And>j. Get_Tenant s1 j = Get_Tenant s j"
    and sb: "\<And>j n. sub_of s1 j n =
      (if j = k \<and> n = nextSub s then Some (length (chans s)) else sub_of s j n)"
    and ch: "chans s1 = chans s @ [make_chan]"
  have "ts_fresh s1"
  proof (rule ts_fresh_frame [OF fresh])
    fix j n q t
    assume q: "sub_of s1 j n = Some q" and t: "Get_Tenant s1 j = Some t"
    show "ch_buf (chans s1 ! q) = [] \<or> ch_buf (chans s1 ! q) = [route_set t] \<or>
      (sub_of s j n = Some q \<and> Get_Tenant s j = Some t \<and> ch_buf (chans s1 ! q) = ch_buf (chans s ! q))"
    proof (cases "j = k \<and> n = nextSub s")
      case True
      with q show ?thesis by (auto simp: sb ch make_chan_def)
    next
      case False
      with q have s: "sub_of s j n = Some q" by (auto simp: sb)
      with ts_inv_sub [OF inv s] t show ?thesis by (simp add: ch g nth_append)
    qed
  qed
  with eq sub show "ts_fresh s'" by simp
qed

lemma ts_fresh_Unsubscribe:
  assumes inv: "ts_inv s" and fresh: "ts_fresh s" and un: "Unsubscribe s tid i = Ok s'"
  shows "ts_fresh s'"
proof (rule Unsubscribe_ok [OF inv, of tid i])
  fix k s1
  assume eq: "Unsubscribe s tid i = Ok s1"
    and g: "\<And>j. Get_Tenant s1 j = Get_Tenant s j"
    and sb: "\<And>j n. sub_of s1 j n = (if j = k \<and> n = i then None else sub_of s j n)"
    and ch: "\<And>r. sub_of s k i = Some r \<Longrightarrow> chans s1 ! r = (chans s ! r)\<lparr>ch_closed := True\<rparr>"
    and oth: "\<And>r. sub_of s k i \<noteq> Some r \<Longrightarrow> chans s1 ! r = chans s ! r"
  have "ch_buf (chans s1 ! q) = ch_buf (chans s ! q)" for q
    using ch [of q] oth [of q] by (cases "sub_of s k i = Some q") auto
  then have "ts_fresh s1"
    by (intro ts_fresh_frame [OF fresh]) (auto simp: g sb split: if_splits)
  with eq un show "ts_fresh s'" by simp
qed

lemma ts_fresh_recv:
  assumes fresh: "ts_fresh s" shows "ts_fresh (snd (recv_chan c s))"
proof (rule ts_fresh_frame [OF fresh])
  fix k i r t
  assume q: "sub_of (snd (recv_chan c s)) k i = Some r" and t: "Get_Tenant (snd (recv_chan c s)) k = Some t"
  have s: "sub_of s k i = Some r" "Get_Tenant s k = Some t"
    using q t by (auto simp: recv_chan_def sub_of_def Get_Tenant_def split: list.splits)
  show "ch_buf (chans (snd (recv_chan c s)) ! r) = [] \<or>
    ch_buf (chans (snd (recv_chan c s)) ! r) = [route_set t] \<or>
    (sub_of s k i = Some r \<and> Get_Tenant s k = Some t \<and>
      ch_buf (chans (snd (recv_chan c s)) ! r) = ch_buf (chans s ! r))"
    using s ts_freshD [OF fresh s]
    by (cases "c = r"; cases "c < length (chans s)")
      (auto simp: recv_chan_def drain_chan_def list_update_beyond split: list.splits)
qed

lemma ts_fresh_step: "ts_step s s' \<Longrightarrow> ts_inv s \<Longrightarrow> ts_fresh s \<Longrightarrow> ts_fresh s'"
proof (induction rule: ts_step.induct)
  case (receive r s x s')
  then show ?case using ts_fresh_recv [of s r] by simp
qed (auto intro: ts_fresh_Create ts_fresh_Update ts_fresh_Delete ts_fresh_Subscribe ts_fresh_Unsubscribe)

lemma ts_fresh_New: "ts_fresh (New_TStore a d)"
  by (simp add: ts_fresh_def New_TStore_def sub_of_def)

text \<open>Both invariants, from the start.\<close>

lemma ts_reachable_inv:
  assumes "ts_reachable s s'" "ts_inv s" "ts_fresh s" shows "ts_inv s'" "ts_fresh s'"
proof -
  have "ts_step\<^sup>*\<^sup>* s s' \<Longrightarrow> ts_inv s' \<and> ts_fresh s'"
    by (induction rule: rtranclp_induct) (use assms ts_inv_step ts_fresh_step in blast)+
  then show "ts_inv s'" "ts_fresh s'" using assms(1) by (simp_all add: ts_reachable_def)
qed

lemma recv_newest:
  assumes "ts_fresh s" "sub_of s k i = Some r" "Get_Tenant s k = Some t"
    and "recv_chan r s = (Received x, s')"
  shows "x = route_set t"
  using ts_freshD [OF assms(1-3)] assms(4) by (auto simp: recv_chan_def split: if_splits)

section \<open>A subscription number is used once\<close>

lemma ts_step_sub:
  assumes st: "ts_step s s'" and inv: "ts_inv s"
  shows "nextSub s \<le> nextSub s'"
    and "i < nextSub s \<Longrightarrow> sub_of s' k i = Some r \<Longrightarrow> sub_of s k i = Some r"
proof -
  have "nextSub s \<le> nextSub s' \<and>
      (\<forall>k i r. i < nextSub s \<longrightarrow> sub_of s' k i = Some r \<longrightarrow> sub_of s k i = Some r)"
    using st inv
  proof (induction rule: ts_step.induct)
    case (create s t r s')
    then show ?case by (cases r) (auto dest: Create_Inl simp: Create_Inr(3,5))
  next
    case (update subs s k t r s')
    show ?case
    proof (cases "fmlookup (tenants s) k")
      case (Some st)
      show ?thesis
        by (rule Update_known [OF update.prems Some, of subs t]) (use Some update in auto)
    qed (use update in \<open>auto simp: Update_unknown\<close>)
  next
    case (delete subs s k r s')
    show ?case
    proof (cases "k \<noteq> DefaultID \<and> fmlookup (tenants s) k \<noteq> None")
      case True
      then obtain st where st: "fmlookup (tenants s) k = Some st" and k: "k \<noteq> DefaultID" by auto
      show ?thesis
        by (rule Delete_Tenant_known [OF delete.prems st k, of subs]) (use st delete in \<open>auto split: if_splits\<close>)
    qed (use delete in \<open>auto simp: Delete_Tenant_def split: if_splits\<close>)
  next
    case (subscribe s k i r x s')
    show ?case
      by (rule Subscribe_ok [OF subscribe.prems, of k]) (use subscribe in \<open>auto split: if_splits\<close>)
  next
    case (unsubscribe s k i s')
    show ?case
      by (rule Unsubscribe_ok [OF unsubscribe.prems, of k i]) (use unsubscribe in \<open>auto split: if_splits\<close>)
  next
    case (receive r s x s')
    then show ?case by (auto simp: recv_chan_def sub_of_def split: list.splits)
  qed
  then show "nextSub s \<le> nextSub s'"
    and "i < nextSub s \<Longrightarrow> sub_of s' k i = Some r \<Longrightarrow> sub_of s k i = Some r" by blast+
qed

lemma ts_reachable_sub:
  assumes r: "ts_reachable s s'" and inv: "ts_inv s" and i: "i < nextSub s"
    and s': "sub_of s' k i = Some r"
  shows "sub_of s k i = Some r"
proof -
  have "ts_step\<^sup>*\<^sup>* s s' \<Longrightarrow> ts_inv s' \<and> i < nextSub s' \<and> (sub_of s' k i = Some r \<longrightarrow> sub_of s k i = Some r)"
  proof (induction rule: rtranclp_induct)
    case (step t u)
    then show ?case using ts_inv_step [OF step(2)] ts_step_sub(1) [OF step(2)] ts_step_sub(2) [OF step(2), of i k r] by auto
  qed (use inv i in simp)
  then show ?thesis using r s' by (simp add: ts_reachable_def)
qed

end
