(* ===== verification/Grpcsrv.thy ===== *)
theory Grpcsrv
  imports Route_Push Peer_Store Auth Api
begin

text \<open>
  \<open>internal/grpcsrv\<close>: the RouteService. A watch is one long call that other goroutines run
  beside; \<open>Watch_loop\<close> takes, for each turn of its loop, what they did to the tenant store since
  the last one and which case the \<open>select\<close> took. A turn with no update waiting is a turn the
  goroutine spent blocked. \<open>Open\<close> is a watch that has not returned when the trace ends.
\<close>

datatype grpc_code = Unauthenticated | NotFound | PermissionDenied

datatype watch_end =
    Finished
  | Failed grpc_code string
  | SendFailed error
  | Open

record RouteUpdate =
  AllowedIps :: "string list"
  Dns :: "string list"
  Serial :: u64

definition toProto :: "RouteSet \<Rightarrow> RouteUpdate" where
  "toProto s = \<lparr>AllowedIps = rs_AllowedIPs s, Dns = rs_DNS s, Serial = rs_Serial s\<rparr>"

section \<open>Authentication\<close>

text \<open>The first value of the \<open>authorization\<close> metadata that is a bearer token, if it came with any.\<close>

fun bearer_of :: "string list \<Rightarrow> string" where
  "bearer_of [] = []"
| "bearer_of (v # vs) =
     (if 7 < length v \<and> EqualFold (take 7 v) ''Bearer '' then TrimSpace (drop 7 v) else bearer_of vs)"

definition bearerFromContext :: "string list option \<Rightarrow> string" where
  "bearerFromContext md = (case md of None \<Rightarrow> [] | Some vs \<Rightarrow> bearer_of vs)"

definition AuthStreamInterceptor ::
    "verifier \<Rightarrow> string list option \<Rightarrow> (Claims option \<Rightarrow> 's \<Rightarrow> (RouteUpdate list \<times> watch_end \<times> 's) outcome) \<Rightarrow>
       's \<Rightarrow> (RouteUpdate list \<times> watch_end \<times> 's) outcome" where
  "AuthStreamInterceptor verify md handler s =
     (let tok = bearerFromContext md
      in if tok = [] then Ok ([], Failed Unauthenticated ''missing bearer token'', s)
         else (case verify tok of
            Inl err \<Rightarrow> Ok ([], Failed Unauthenticated (''invalid token: '' @ err), s)
          | Inr claims \<Rightarrow> handler (Some claims) s))"

section \<open>Watch\<close>

text \<open>The checks before the subscription, and the tenant they end with.\<close>

definition Watch_admit ::
    "string list \<Rightarrow> Claims option \<Rightarrow> string \<Rightarrow> Store \<Rightarrow> TStore \<Rightarrow> (watch_end + string) outcome" where
  "Watch_admit ks claims key ps ts =
     (case claims of
        None \<Rightarrow> Ok (Inl (Failed Unauthenticated ''no identity''))
      | Some c \<Rightarrow>
          (case Get ps key of
             None \<Rightarrow> Ok (Inl (Failed NotFound ''no enrollment of yours for this key''))
           | Some p \<Rightarrow>
               if p_Subject p \<noteq> c_Subject c
               then Ok (Inl (Failed NotFound ''no enrollment of yours for this key''))
               else if Get_Tenant ts (p_Tenant p) = None
               then Ok (Inl (Failed PermissionDenied
                 ''you are not a member of the tenant this device enrolled into''))
               else obind (IsMember ks ts (p_Tenant p) (Tenancy c)) (\<lambda>member.
                 if \<not> member
                 then Ok (Inl (Failed PermissionDenied
                   ''you are not a member of the tenant this device enrolled into''))
                 else Ok (Inr (p_Tenant p)))))"

datatype watch_event = Ctx_Done | Receive "error option"

type_synonym turn = "(TStore \<Rightarrow> TStore) \<times> watch_event"

fun Watch_loop :: "turn list \<Rightarrow> chan_ref \<Rightarrow> TStore \<Rightarrow> RouteUpdate list \<times> watch_end \<times> TStore" where
  "Watch_loop [] ch ts = ([], Open, ts)"
| "Watch_loop ((others, ev) # turns) ch ts =
     (case ev of
        Ctx_Done \<Rightarrow> ([], Finished, others ts)
      | Receive send_err \<Rightarrow>
          (case recv_chan ch (others ts) of
             (Received rs, ts1) \<Rightarrow>
               (case send_err of
                  Some err \<Rightarrow> ([], SendFailed err, ts1)
                | None \<Rightarrow>
                    (let (sent, e, ts2) = Watch_loop turns ch ts1 in (toProto rs # sent, e, ts2)))
           | (ChannelClosed, ts1) \<Rightarrow> ([], Finished, ts1)
           | (NothingYet, ts1) \<Rightarrow> Watch_loop turns ch ts1))"

text \<open>\<open>defer s.tenants.Unsubscribe(tenantID, id)\<close>, when the call has returned.\<close>

definition Watch_return ::
    "string \<Rightarrow> int \<Rightarrow> RouteUpdate list \<times> watch_end \<times> TStore \<Rightarrow> (RouteUpdate list \<times> watch_end \<times> TStore) outcome" where
  "Watch_return tid sid res =
     (case res of (sent, e, ts) \<Rightarrow>
        if e = Open then Ok (sent, e, ts)
        else obind (Unsubscribe ts tid sid) (\<lambda>ts'. Ok (sent, e, ts')))"

definition Watch ::
    "string list \<Rightarrow> Claims option \<Rightarrow> string \<Rightarrow> Store \<Rightarrow> error option \<Rightarrow> turn list \<Rightarrow> TStore \<Rightarrow>
       (RouteUpdate list \<times> watch_end \<times> TStore) outcome" where
  "Watch ks claims key ps first_send turns ts =
     obind (Watch_admit ks claims key ps ts) (\<lambda>adm.
       case adm of
         Inl e \<Rightarrow> Ok ([], e, ts)
       | Inr tid \<Rightarrow>
           obind (Subscribe ts tid) (\<lambda>(sid, ch, cur, ts1).
             Watch_return tid sid
               (case first_send of
                  Some err \<Rightarrow> ([], SendFailed err, ts1)
                | None \<Rightarrow>
                    (let (sent, e, ts2) = Watch_loop turns ch ts1 in (toProto cur # sent, e, ts2)))))"

section \<open>Who may watch\<close>

lemma Watch_admit_Ok:
  assumes inv: "ts_inv ts" and ks: "ranges_over ks (tenants ts)"
  obtains (admitted) c p where "claims = Some c" "Get ps key = Some p" "p_Subject p = c_Subject c"
      "p_Tenant p \<in> tenants_of ts (Tenancy c)" "Watch_admit ks claims key ps ts = Ok (Inr (p_Tenant p))"
  | (refused) code msg where "Watch_admit ks claims key ps ts = Ok (Inl (Failed code msg))"
      "\<not> (\<exists>c p. claims = Some c \<and> Get ps key = Some p \<and> p_Subject p = c_Subject c \<and>
         p_Tenant p \<in> tenants_of ts (Tenancy c))"
proof (cases "\<exists>c p. claims = Some c \<and> Get ps key = Some p \<and> p_Subject p = c_Subject c \<and>
    p_Tenant p \<in> tenants_of ts (Tenancy c)")
  case True
  then obtain c p where cp: "claims = Some c" "Get ps key = Some p" "p_Subject p = c_Subject c"
    "p_Tenant p \<in> tenants_of ts (Tenancy c)" by blast
  then show ?thesis
    using tenants_of_exist [OF inv cp(4)]
    by (intro admitted [OF cp]) (simp add: Watch_admit_def IsMember_Ok [OF inv ks])
next
  case False
  then have "\<exists>code msg. Watch_admit ks claims key ps ts = Ok (Inl (Failed code msg))"
    by (auto simp: Watch_admit_def IsMember_Ok [OF inv ks] split: option.splits)
  with False refused show ?thesis by blast
qed

section \<open>A watch and the store\<close>

text \<open>The other goroutines use the store only through its operations.\<close>

definition well_behaved :: "turn list \<Rightarrow> bool" where
  "well_behaved turns \<longleftrightarrow> (\<forall>(others, ev) \<in> set turns. \<forall>ts. ts_inv ts \<longrightarrow> ts_reachable ts (others ts))"

lemma Watch_loop_reachable:
  assumes "well_behaved turns" "ts_inv ts" "ts_fresh ts" "Watch_loop turns ch ts = (sent, e, ts')"
  shows "ts_reachable ts ts'"
  using assms
proof (induction turns arbitrary: ts sent)
  case Nil
  then show ?case by (simp add: ts_reachable_def)
next
  case (Cons turn turns)
  obtain others ev where t: "turn = (others, ev)" by (cases turn)
  have r1: "ts_reachable ts (others ts)"
    using Cons.prems(1,2) by (simp add: well_behaved_def t)
  note i1 = ts_reachable_inv [OF r1 Cons.prems(2,3)]
  define rc where "rc = recv_chan ch (others ts)"
  have r2: "ts_reachable ts (snd rc)"
    using r1 ts_step.receive [of ch "others ts" "fst rc" "snd rc"] unfolding ts_reachable_def
    by (auto simp: rc_def intro: rtranclp.rtrancl_into_rtrancl)
  have i2: "ts_inv (snd rc)" "ts_fresh (snd rc)"
    unfolding rc_def using i1 by (simp_all add: ts_inv_recv ts_fresh_recv)
  have wb: "well_behaved turns" using Cons.prems(1) by (simp add: well_behaved_def)
  have rest: "Watch_loop turns ch (snd rc) = (sent', e, ts') \<Longrightarrow> ts_reachable ts ts'" for sent'
    using Cons.IH [OF wb i2, of sent'] r2 unfolding ts_reachable_def by (meson rtranclp_trans)
  show ?case
    using Cons.prems(4) r1 r2 rest
    by (cases "fst rc"; cases rc)
      (auto simp: t rc_def [symmetric] split: watch_event.splits option.splits prod.splits)
qed

text \<open>Whatever happens meanwhile, a watch neither panics nor blocks the store.\<close>

lemma Watch_total:
  assumes inv: "ts_inv ts" "ts_fresh ts" and ks: "ranges_over ks (tenants ts)" and wb: "well_behaved turns"
  shows "\<exists>sent e ts'. Watch ks claims key ps fs turns ts = Ok (sent, e, ts') \<and> ts_reachable ts ts'"
  using inv(1) ks
proof (cases rule: Watch_admit_Ok [where claims = claims and ps = ps and key = key])
  case (refused code msg)
  then show ?thesis by (simp add: Watch_def ts_reachable_def)
next
  case (admitted c p)
  obtain sid ch cur ts1 where sub: "Subscribe ts (p_Tenant p) = Ok (sid, ch, cur, ts1)"
    by (rule Subscribe_ok [OF inv(1), of "p_Tenant p"])
  have r1: "ts_reachable ts ts1"
    using ts_step.subscribe [OF sub] by (auto simp: ts_reachable_def)
  note i1 = ts_reachable_inv [OF r1 inv]
  have ret: "\<exists>sent' e' ts'. Watch_return (p_Tenant p) sid (sent, e, ts2) = Ok (sent', e', ts') \<and> ts_reachable ts ts'"
    if r: "ts_reachable ts ts2" for sent e ts2
  proof (cases "e = Open")
    case False
    obtain ts3 where u: "Unsubscribe ts2 (p_Tenant p) sid = Ok ts3"
      by (rule Unsubscribe_ok [OF ts_reachable_inv(1) [OF r inv], of "p_Tenant p" sid])
    have "ts_reachable ts ts3"
      using r ts_step.unsubscribe [OF u] unfolding ts_reachable_def by (rule rtranclp.rtrancl_into_rtrancl)
    with False u show ?thesis by (simp add: Watch_return_def)
  qed (use r in \<open>simp add: Watch_return_def\<close>)
  obtain sent e ts2 where l: "Watch_loop turns ch ts1 = (sent, e, ts2)" by (cases "Watch_loop turns ch ts1")
  have r2: "ts_reachable ts ts2"
    using Watch_loop_reachable [OF wb i1 l] r1 unfolding ts_reachable_def by (meson rtranclp_trans)
  show ?thesis
    using admitted(5) sub l ret [OF r1, of "[]"] ret [OF r2] by (cases fs) (simp_all add: Watch_def)
qed

text \<open>A watch that has returned has left no subscription behind.\<close>

lemma Unsubscribe_gone:
  assumes inv: "ts_inv ts0" "ts_fresh ts0" and tid: "Get_Tenant ts0 tid \<noteq> None"
    and sub: "Subscribe ts0 tid = Ok (sid, ch, cur, ts1)" and r: "ts_reachable ts1 ts2"
    and un: "Unsubscribe ts2 tid sid = Ok ts3"
  shows "sub_of ts3 k sid = None"
proof -
  have s1: "ts_step ts0 ts1" by (rule ts_step.subscribe [OF sub])
  have i1: "ts_inv ts1" "ts_fresh ts1" using s1 inv ts_inv_step ts_fresh_step by blast+
  have i2: "ts_inv ts2" by (rule ts_reachable_inv(1) [OF r i1])
  have n0: "nextSub ts0 = int (length (chans ts0))" using inv(1) by (simp add: ts_inv_def)
  have home: "sid < nextSub ts1 \<and> (\<forall>j q. sub_of ts1 j sid = Some q \<longrightarrow> j = tid)"
  proof (rule Subscribe_ok [OF inv(1), of tid])
    fix k st s'
    assume k: "k = (if fmlookup (tenants ts0) tid = None then DefaultID else tid)"
      and eq: "Subscribe ts0 tid = Ok (nextSub ts0, length (chans ts0), route_set (st_t st), s')"
      and sb: "\<And>j i. sub_of s' j i =
        (if j = k \<and> i = nextSub ts0 then Some (length (chans ts0)) else sub_of ts0 j i)"
      and ns: "nextSub s' = nextSub ts0 + 1"
    have "sub_of ts0 j (nextSub ts0) = None" for j
      using ts_inv_sub [OF inv(1), of j "nextSub ts0"] n0 by (cases "sub_of ts0 j (nextSub ts0)") auto
    with sub eq tid k ns sb show ?thesis by (auto simp: Get_Tenant_def split: if_splits)
  qed
  have other: "j \<noteq> tid \<Longrightarrow> sub_of ts2 j sid = None" for j
    using ts_reachable_sub [OF r i1(1), of sid j] home by (cases "sub_of ts2 j sid") auto
  show ?thesis
  proof (rule Unsubscribe_ok [OF i2, of tid sid])
    fix k' s'
    assume k': "k' = (if fmlookup (tenants ts2) tid = None then DefaultID else tid)"
      and eq: "Unsubscribe ts2 tid sid = Ok s'"
      and sb: "\<And>j n. sub_of s' j n = (if j = k' \<and> n = sid then None else sub_of ts2 j n)"
    have "sub_of ts2 tid sid = None" if "fmlookup (tenants ts2) tid = None"
      using that by (simp add: sub_of_def)
    with k' other [of k] eq un sb show ?thesis by (cases "k = tid") (auto split: if_splits)
  qed
qed

lemma Watch_no_leak:
  assumes inv: "ts_inv ts" "ts_fresh ts" and ks: "ranges_over ks (tenants ts)" and wb: "well_behaved turns"
    and w: "Watch ks claims key ps fs turns ts = Ok (sent, e, ts')" and e: "e \<noteq> Open"
  shows "sub_of ts' k (nextSub ts) = None"
proof -
  have fresh: "sub_of ts k (nextSub ts) = None"
    using ts_inv_sub [OF inv(1), of k "nextSub ts"] inv(1)
    by (cases "sub_of ts k (nextSub ts)") (auto simp: ts_inv_def)
  show ?thesis
    using inv(1) ks
  proof (cases rule: Watch_admit_Ok [where claims = claims and ps = ps and key = key])
    case (refused code msg)
    with w fresh show ?thesis by (simp add: Watch_def)
  next
    case (admitted c p)
    obtain cur ts1 where sub: "Subscribe ts (p_Tenant p) = Ok (nextSub ts, length (chans ts), cur, ts1)"
      by (rule Subscribe_ok [OF inv(1), of "p_Tenant p"])
    have s1: "ts_step ts ts1" by (rule ts_step.subscribe [OF sub])
    have i1: "ts_inv ts1" "ts_fresh ts1" using s1 inv ts_inv_step ts_fresh_step by blast+
    obtain snt e2 ts2 where l: "Watch_loop turns (length (chans ts)) ts1 = (snt, e2, ts2)"
      by (cases "Watch_loop turns (length (chans ts)) ts1")
    have r2: "ts_reachable ts1 ts2" by (rule Watch_loop_reachable [OF wb i1 l])
    have r1: "ts_reachable ts1 ts1" by (simp add: ts_reachable_def)
    have "\<exists>t2. ts_reachable ts1 t2 \<and> Unsubscribe t2 (p_Tenant p) (nextSub ts) = Ok ts'"
      using w admitted(5) sub l e r1 r2
      by (cases fs) (auto simp: Watch_def Watch_return_def obind_Ok_iff split: if_splits)
    then show ?thesis
      using Unsubscribe_gone [OF inv tenants_of_exist [OF inv(1) admitted(4)] sub] by blast
  qed
qed

end
