(* ===== verification/Go_Float.thy ===== *)
theory Go_Float
  imports Prelude
begin

text \<open>
  Go's conversion of an unsigned integer to \<open>float64\<close>: IEEE 754 binary64, to nearest, ties to
  even. The value of such a float is a natural number, which is what \<open>float64\<close> returns.
\<close>

text \<open>The number of binary digits.\<close>

fun bits :: "nat \<Rightarrow> nat" where
  "bits n = (if n = 0 then 0 else Suc (bits (n div 2)))"

declare bits.simps [simp del]

lemma bits_0 [simp]: "bits 0 = 0"
  by (simp add: bits.simps)

lemma bits_upper: "n < 2 ^ bits n"
proof (induction n rule: bits.induct)
  case (1 n)
  then show ?case by (cases "n = 0") (simp_all add: bits.simps [of n])
qed

lemma bits_lower: "0 < n \<Longrightarrow> 2 ^ (bits n - 1) \<le> n"
proof (induction n rule: bits.induct)
  case (1 n)
  show ?case
  proof (cases "n div 2 = 0")
    case False
    with 1 have "2 ^ (bits (n div 2) - 1) \<le> n div 2" by simp
    moreover have "bits (n div 2) \<noteq> 0" using False by (simp add: bits.simps [of "n div 2"])
    then have "(2 :: nat) ^ bits (n div 2) = 2 * 2 ^ (bits (n div 2) - 1)"
      by (cases "bits (n div 2)") simp_all
    ultimately show ?thesis using 1(2) by (simp add: bits.simps [of n])
  qed (use 1(2) in \<open>simp add: bits.simps [of n] bits.simps [of "n div 2"]\<close>)
qed

text \<open>A quotient rounded to nearest, ties to even.\<close>

definition round_even :: "nat \<Rightarrow> nat \<Rightarrow> nat" where
  "round_even n d =
     (let q = n div d; r = n mod d
      in if 2 * r < d \<or> 2 * r = d \<and> even q then q else q + 1)"

definition float64 :: "nat \<Rightarrow> nat" where
  "float64 n = (let u = 2 ^ (bits n - 53) in round_even n u * u)"

lemma round_even_1 [simp]: "round_even n 1 = n" "round_even n (Suc 0) = n"
  by (simp_all add: round_even_def)

lemma round_even_near:
  assumes "0 < d"
  shows "2 * \<bar>int (round_even n d * d) - int n\<bar> \<le> int d"
proof -
  have n: "n = n div d * d + n mod d" by simp
  have r: "n mod d < d" using assms by simp
  show ?thesis
  proof (cases "2 * (n mod d) < d \<or> 2 * (n mod d) = d \<and> even (n div d)")
    case True
    then have e: "round_even n d = n div d" by (simp add: round_even_def)
    have "int (n div d * d) - int n = - int (n mod d)"
      using n by (metis add_diff_cancel_left' diff_minus_eq_add minus_diff_eq of_nat_add uminus_add_conv_diff)
    with True show ?thesis unfolding e by auto
  next
    case False
    then have e: "round_even n d = n div d + 1" by (auto simp: round_even_def)
    have "int n = int (n div d * d) + int (n mod d)" by (metis n of_nat_add)
    then have "int ((n div d + 1) * d) - int n = int d - int (n mod d)" by simp
    with False r show ?thesis unfolding e by auto
  qed
qed

text \<open>Up to \<open>2^53\<close> the conversion is exact; beyond, it is off by at most one part in \<open>2^53\<close>.\<close>

lemma float64_exact:
  assumes "n \<le> 2 ^ 53"
  shows "float64 n = n"
proof (cases "n = 2 ^ 53")
  case True
  show ?thesis unfolding True by (simp add: float64_def bits.simps round_even_def)
next
  case False
  have "bits n \<le> 53"
  proof (rule ccontr)
    assume "\<not> bits n \<le> 53"
    then have "(2 :: nat) ^ 53 \<le> 2 ^ (bits n - 1)" by (intro power_increasing) simp_all
    with bits_lower [of n] False assms show False by (cases "n = 0") simp_all
  qed
  then show ?thesis by (simp add: float64_def Let_def)
qed

lemma float64_near: "\<bar>int (float64 n) - int n\<bar> * 2 ^ 53 \<le> int n"
proof (cases "n \<le> 2 ^ 53")
  case False
  have b: "53 < bits n"
  proof (rule ccontr)
    assume "\<not> 53 < bits n"
    then have "(2 :: nat) ^ bits n \<le> 2 ^ 53" by (intro power_increasing) simp_all
    with bits_upper [of n] False show False by linarith
  qed
  let ?u = "2 ^ (bits n - 53) :: nat"
  have "2 * \<bar>int (float64 n) - int n\<bar> \<le> int ?u"
    using round_even_near [of ?u n] by (simp add: float64_def Let_def)
  then have "2 * (\<bar>int (float64 n) - int n\<bar> * 2 ^ 53) \<le> int (?u * 2 ^ 53)" by simp
  also have "?u * 2 ^ 53 = 2 * 2 ^ (bits n - 1)"
    using b power_add [of "2 :: nat" "bits n - 53" 53] power_Suc [of "2 :: nat" "bits n - 1"] by simp
  also have "\<dots> \<le> 2 * n" using bits_lower [of n] False by simp
  finally show ?thesis by simp
qed (simp add: float64_exact)

end
