(* ===== verification/Admin.thy ===== *)
theory Admin
  imports Route_Push Peer_Store Go_Float
begin

text \<open>
  \<open>internal/admin\<close>: the management API over the tenant store, behind one static token, and
  \<open>internal/metrics\<close>: what a scrape reads from the two stores. The visiting orders of the
  maps are arguments: \<open>ks\<close> for the tenants, \<open>subs\<close> for the subscriptions of the tenant a
  request changes, \<open>pks\<close> for the peers. The single-page application is a directory of files
  and is not modelled.
\<close>

datatype admin_body =
    AdminError string
  | Overview nat nat nat
  | TenantBody Tenant
  | TenantList "Tenant list"
  | AdminDisabled
  | AdminNoBody

record admin_response =
  a_status :: nat
  a_body :: admin_body

definition admin_writeErr :: "nat \<Rightarrow> string \<Rightarrow> admin_response" where
  "admin_writeErr st msg = \<lparr>a_status = st, a_body = AdminError msg\<rparr>"

definition admin_writeJSON :: "nat \<Rightarrow> admin_body \<Rightarrow> admin_response" where
  "admin_writeJSON st b = \<lparr>a_status = st, a_body = b\<rparr>"

definition admin_decode :: "'a result \<Rightarrow> admin_response + 'a" where
  "admin_decode b = (case b of Inl err \<Rightarrow> Inl (admin_writeErr 400 err) | Inr v \<Rightarrow> Inr v)"

definition Enabled :: "string \<Rightarrow> bool" where
  "Enabled token \<longleftrightarrow> token \<noteq> []"

section \<open>Handlers\<close>

definition overview :: "string list \<Rightarrow> string list \<Rightarrow> Store \<Rightarrow> TStore \<Rightarrow> admin_response" where
  "overview ks pks ps ts =
     admin_writeJSON 200 (Overview (length (List_Tenants ks ts)) (length (List_Peers pks ps)) (WatcherCount ks ts))"

definition listTenants :: "string list \<Rightarrow> TStore \<Rightarrow> admin_response" where
  "listTenants ks ts = admin_writeJSON 200 (TenantList (List_Tenants ks ts))"

definition getTenant :: "string \<Rightarrow> TStore \<Rightarrow> admin_response" where
  "getTenant tid ts =
     (case Get_Tenant ts tid of
        None \<Rightarrow> admin_writeErr 404 ''tenant not found''
      | Some t \<Rightarrow> admin_writeJSON 200 (TenantBody t))"

definition createTenant :: "Tenant result \<Rightarrow> TStore \<Rightarrow> admin_response \<times> TStore" where
  "createTenant b ts =
     (case admin_decode b of
        Inl r \<Rightarrow> (r, ts)
      | Inr in_t \<Rightarrow>
          (case Create ts in_t of
             (Inl err, ts') \<Rightarrow> (admin_writeErr 400 err, ts')
           | (Inr t, ts') \<Rightarrow> (admin_writeJSON 200 (TenantBody t), ts')))"

definition updateTenant ::
    "int list \<Rightarrow> string \<Rightarrow> Tenant result \<Rightarrow> TStore \<Rightarrow> (admin_response \<times> TStore) outcome" where
  "updateTenant subs tid b ts =
     (case admin_decode b of
        Inl r \<Rightarrow> Ok (r, ts)
      | Inr in_t \<Rightarrow>
          obind (Update subs ts tid in_t) (\<lambda>(res, ts').
            case res of
              Inl err \<Rightarrow> Ok (admin_writeErr 400 err, ts')
            | Inr t \<Rightarrow> Ok (admin_writeJSON 200 (TenantBody t), ts')))"

definition deleteTenant :: "int list \<Rightarrow> string \<Rightarrow> TStore \<Rightarrow> (admin_response \<times> TStore) outcome" where
  "deleteTenant subs tid ts =
     obind (Delete_Tenant subs ts tid) (\<lambda>(res, ts').
       case res of
         Some err \<Rightarrow> Ok (admin_writeErr 400 err, ts')
       | None \<Rightarrow> Ok (\<lparr>a_status = 204, a_body = AdminNoBody\<rparr>, ts'))"

section \<open>The guard and the routes\<close>

definition admin_bearer :: "string \<Rightarrow> string" where
  "admin_bearer h = (if 7 < length h \<and> EqualFold (take 7 h) ''Bearer '' then TrimSpace (drop 7 h) else [])"

definition guard ::
    "string \<Rightarrow> string \<Rightarrow> (TStore \<Rightarrow> (admin_response \<times> TStore) outcome) \<Rightarrow> TStore \<Rightarrow>
       (admin_response \<times> TStore) outcome" where
  "guard token header h ts =
     (if admin_bearer header \<noteq> token then Ok (admin_writeErr 401 ''unauthorized'', ts) else h ts)"

datatype admin_call =
    GetOverview
  | ListTenants
  | CreateTenant "Tenant result"
  | GetTenant string
  | UpdateTenant string "Tenant result"
  | DeleteTenant string

definition admin_route ::
    "string list \<Rightarrow> int list \<Rightarrow> string list \<Rightarrow> Store \<Rightarrow> admin_call \<Rightarrow> TStore \<Rightarrow>
       (admin_response \<times> TStore) outcome" where
  "admin_route ks subs pks ps c ts =
     (case c of
        GetOverview \<Rightarrow> Ok (overview ks pks ps ts, ts)
      | ListTenants \<Rightarrow> Ok (listTenants ks ts, ts)
      | CreateTenant b \<Rightarrow> Ok (createTenant b ts)
      | GetTenant tid \<Rightarrow> Ok (getTenant tid ts, ts)
      | UpdateTenant tid b \<Rightarrow> updateTenant subs tid b ts
      | DeleteTenant tid \<Rightarrow> deleteTenant subs tid ts)"

text \<open>\<open>Register\<close>: without a token the whole of \<open>/admin/\<close> answers 503.\<close>

definition Register ::
    "string \<Rightarrow> string \<Rightarrow> string list \<Rightarrow> int list \<Rightarrow> string list \<Rightarrow> Store \<Rightarrow> admin_call \<Rightarrow> TStore \<Rightarrow>
       (admin_response \<times> TStore) outcome" where
  "Register token header ks subs pks ps c ts =
     (if \<not> Enabled token then Ok (\<lparr>a_status = 503, a_body = AdminDisabled\<rparr>, ts)
      else guard token header (admin_route ks subs pks ps c) ts)"

section \<open>What an administrator can do\<close>

text \<open>The visiting order fits the subscriptions of the tenant the call names.\<close>

definition call_subs :: "admin_call \<Rightarrow> int list \<Rightarrow> TStore \<Rightarrow> bool" where
  "call_subs c subs ts \<longleftrightarrow>
     (\<forall>tid. (c = DeleteTenant tid \<or> (\<exists>b. c = UpdateTenant tid b)) \<longrightarrow>
        (\<forall>st. fmlookup (tenants ts) tid = Some st \<longrightarrow> ranges_over subs (st_subs st)))"

lemma Update_total:
  assumes "ts_inv s" "\<forall>st. fmlookup (tenants s) k = Some st \<longrightarrow> ranges_over subs (st_subs st)"
  shows "\<exists>r s'. Update subs s k t = Ok (r, s')"
proof (cases "fmlookup (tenants s) k")
  case (Some st)
  show ?thesis by (rule Update_known [OF assms(1) Some, of subs t]) (use Some assms in auto)
qed (simp add: Update_unknown)

lemma Delete_Tenant_total:
  assumes "ts_inv s" "\<forall>st. fmlookup (tenants s) k = Some st \<longrightarrow> ranges_over subs (st_subs st)"
  shows "\<exists>r s'. Delete_Tenant subs s k = Ok (r, s')"
proof (cases "k \<noteq> DefaultID \<and> fmlookup (tenants s) k \<noteq> None")
  case True
  then obtain st where st: "fmlookup (tenants s) k = Some st" and k: "k \<noteq> DefaultID" by auto
  show ?thesis by (rule Delete_Tenant_known [OF assms(1) st k, of subs]) (use st assms in auto)
qed (auto simp: Delete_Tenant_def)

text \<open>Every call is answered, and is at most one step of the tenant store.\<close>

lemma admin_route_step:
  assumes inv: "ts_inv ts" and subs: "call_subs c subs ts"
  shows "\<exists>r ts'. admin_route ks subs pks ps c ts = Ok (r, ts') \<and> (ts' = ts \<or> ts_step ts ts')"
proof (cases c)
  case (CreateTenant b)
  show ?thesis
  proof (cases b)
    case (Inr t)
    obtain r ts' where "Create ts t = (r, ts')" by (cases "Create ts t")
    then show ?thesis
      using CreateTenant Inr ts_step.create
      by (cases r) (auto simp: admin_route_def createTenant_def admin_decode_def)
  qed (simp add: CreateTenant admin_route_def createTenant_def admin_decode_def)
next
  case (UpdateTenant tid b)
  with subs have sb: "\<forall>st. fmlookup (tenants ts) tid = Some st \<longrightarrow> ranges_over subs (st_subs st)"
    by (simp add: call_subs_def)
  show ?thesis
  proof (cases b)
    case (Inr t)
    obtain r ts' where u: "Update subs ts tid t = Ok (r, ts')" using Update_total [OF inv sb] by blast
    then show ?thesis
      using UpdateTenant Inr ts_step.update [OF u sb]
      by (cases r) (simp_all add: admin_route_def updateTenant_def admin_decode_def)
  qed (simp add: UpdateTenant admin_route_def updateTenant_def admin_decode_def)
next
  case (DeleteTenant tid)
  with subs have sb: "\<forall>st. fmlookup (tenants ts) tid = Some st \<longrightarrow> ranges_over subs (st_subs st)"
    by (simp add: call_subs_def)
  obtain r ts' where d: "Delete_Tenant subs ts tid = Ok (r, ts')" using Delete_Tenant_total [OF inv sb] by blast
  then show ?thesis
    using DeleteTenant ts_step.delete [OF d sb]
    by (cases r) (simp_all add: admin_route_def deleteTenant_def)
qed (simp_all add: admin_route_def)

lemma Register_step:
  assumes "ts_inv ts" "call_subs c subs ts"
  shows "\<exists>r ts'. Register token hdr ks subs pks ps c ts = Ok (r, ts') \<and> (ts' = ts \<or> ts_step ts ts')"
  using admin_route_step [OF assms] by (simp add: Register_def guard_def)

section \<open>Metrics\<close>

text \<open>
  A scrape: one gauge per family, and the serial of every tenant. The values are
  \<open>float64\<close>, converted from the counts and the serials.
\<close>

datatype sample =
    TenantsGauge nat
  | PeersGauge nat
  | WatchersGauge nat
  | SerialGauge string nat

definition Collect :: "string list \<Rightarrow> string list \<Rightarrow> Store \<Rightarrow> TStore \<Rightarrow> sample list" where
  "Collect ks pks ps ts =
     (let tenants = List_Tenants ks ts
      in [TenantsGauge (float64 (length tenants)), PeersGauge (float64 (length (List_Peers pks ps))),
          WatchersGauge (float64 (WatcherCount ks ts))] @
         map (\<lambda>t. SerialGauge (t_ID t) (float64 (unat (t_Serial t)))) tenants)"

lemma foldl_add_sum: "foldl (\<lambda>n x. n + f x) (a :: nat) xs = a + sum_list (map f xs)"
  by (induction xs arbitrary: a) simp_all

text \<open>The watcher gauge counts the subscriptions of all tenants.\<close>

lemma WatcherCount_subs:
  assumes ks: "ranges_over ks (tenants ts)"
  shows "WatcherCount ks ts = card {(k, i). sub_of ts k i \<noteq> None}"
proof -
  let ?subs = "\<lambda>k. st_subs (the (fmlookup (tenants ts) k))"
  have dom: "\<forall>k \<in> set ks. fmlookup (tenants ts) k \<noteq> None"
    using ks by (auto simp: ranges_over_def fmlookup_dom'_iff)
  then have "range_values ks (tenants ts) = map (\<lambda>k. the (fmlookup (tenants ts) k)) ks"
    unfolding range_values_def by (induction ks) auto
  then have "WatcherCount ks ts = (\<Sum>k\<leftarrow>ks. fcard (fmdom (?subs k)))"
    by (simp add: WatcherCount_def foldl_add_sum o_def)
  also have "\<dots> = (\<Sum>k\<in>set ks. card (fmdom' (?subs k)))"
    using ks by (simp add: sum_list_distinct_conv_sum_set ranges_over_def fcard.rep_eq fmdom'_alt_def)
  also have "\<dots> = card (SIGMA k:set ks. fmdom' (?subs k))"
    by (simp add: card_SigmaI)
  also have "(SIGMA k:set ks. fmdom' (?subs k)) = {(k, i). sub_of ts k i \<noteq> None}"
  proof (rule set_eqI)
    fix x :: "string \<times> int"
    obtain k i where x: "x = (k, i)" by (cases x)
    have "k \<in> set ks \<longleftrightarrow> fmlookup (tenants ts) k \<noteq> None"
      using ks by (simp add: ranges_over_def fmlookup_dom'_iff)
    then show "x \<in> (SIGMA k:set ks. fmdom' (?subs k)) \<longleftrightarrow> x \<in> {(k, i). sub_of ts k i \<noteq> None}"
      unfolding x by (cases "fmlookup (tenants ts) k") (simp_all add: sub_of_def fmlookup_dom'_iff)
  qed
  finally show ?thesis .
qed

end
