(* ===== verification/Startup.thy ===== *)
theory Startup
  imports Api_Device Grpcsrv Admin
begin

text \<open>
  \<open>cmd/claimward-server\<close>: how \<open>run\<close> puts the parts together, in its order, up to the point
  where it serves, and the two loops it leaves running beside the requests: the reaper and the
  refresh of the key list. What the machine and the libraries answer is the record \<open>Machine\<close>.
\<close>

record 'd Machine =
  m_load :: "Config result"
  m_parse_key :: parse_key
  m_public :: "wgkey \<Rightarrow> string"
  m_providers :: Providers
  m_parse_cidr :: "string \<Rightarrow> (ip \<times> IPNet) result"
  m_wg_open :: "error option"
  m_wg_close :: "'d \<Rightarrow> error option"
  m_configure :: "'d configure"
  m_device :: "string \<Rightarrow> 'd \<Rightarrow> WGPeer list result"
  m_source :: "error option"
  m_first_list :: "WgList result"
  m_listen :: "string \<Rightarrow> error option"
  m_tls :: "string \<Rightarrow> string \<Rightarrow> error option"

record 'd Running =
  run_srv :: "'d Server"
  run_verify :: verifier
  run_secure :: bool
  run_admin :: bool

definition auth_options :: "Config \<Rightarrow> Options" where
  "auth_options c =
     \<lparr>o_Provider = AuthProvider c, o_Issuer = OIDCIssuer c, o_ClientID = OIDCClientID c,
      o_AllowedDomains = AllowedDomains c, o_GitHubAPIURL = GitHubAPIURL c,
      o_GitHubAllowedOrgs = GitHubAllowedOrgs c\<rparr>"

text \<open>\<open>grpcOptions\<close>: whether the RouteService has TLS. \<open>tls\<close> loads the key pair.\<close>

definition grpcOptions :: "(string \<Rightarrow> string \<Rightarrow> error option) \<Rightarrow> string \<Rightarrow> string \<Rightarrow> bool result" where
  "grpcOptions tls certFile keyFile =
     (if certFile = [] \<or> keyFile = [] then Inr False
      else case tls certFile keyFile of
        Some err \<Rightarrow> Inl (''gRPC TLS: '' @ err)
      | None \<Rightarrow> Inr True)"

text \<open>The gateway of the configuration: the dry run, or the WireGuard device.\<close>

definition open_gateway :: "'d Machine \<Rightarrow> Config \<Rightarrow> 'd \<Rightarrow> 'd Gateway result" where
  "open_gateway m c d =
     (if DryRun c then Inr dryRunGateway
      else NewGateway (m_wg_open m) (m_wg_close m) (m_configure m) (m_device m) (WGInterface c) d)"

text \<open>The registry, for go-authn: the first list is read before anything is served.\<close>

definition use_registry :: "'d Machine \<Rightarrow> Config \<Rightarrow> 'd Server \<Rightarrow> 'd Server result" where
  "use_registry m c srv =
     (if AuthProvider c \<noteq> ''go-authn'' then Inr srv
      else case m_source m of
        Some err \<Rightarrow> Inl err
      | None \<Rightarrow>
          (case Refresh (m_first_list m) New_Registry of
             (Inl err, _) \<Rightarrow> Inl err
           | (Inr _, reg) \<Rightarrow> Inr (UsePeers reg srv)))"

text \<open>The RouteService's listener and whether it has TLS.\<close>

definition run_listen :: "'d Machine \<Rightarrow> Config \<Rightarrow> bool result" where
  "run_listen m c =
     (case m_listen m (GRPCAddr c) of
        Some err \<Rightarrow> Inl err
      | None \<Rightarrow> grpcOptions (m_tls m) (TLSCert c) (TLSKey c))"

text \<open>The stores and the server, then the registry and the listener, up to where it serves.\<close>

definition run_servers ::
    "'d Machine \<Rightarrow> Config \<Rightarrow> verifier \<Rightarrow> string \<Rightarrow> Allocator \<Rightarrow> 'd Gateway \<Rightarrow> 'd \<Rightarrow> 'd Running result" where
  "run_servers m c verify pub a g d =
     (let st = New_Store; ts = New_TStore (PushRoutes c) (DNS c);
          srv = New_Server c a st g d ts pub
      in case use_registry m c srv of
           Inl err \<Rightarrow> Inl err
         | Inr srv' \<Rightarrow>
             (case run_listen m c of
                Inl err \<Rightarrow> Inl err
              | Inr secure \<Rightarrow>
                  Inr \<lparr>run_srv = srv', run_verify = verify, run_secure = secure,
                       run_admin = Enabled (AdminToken c)\<rparr>))"

definition run :: "'d Machine \<Rightarrow> 'd \<Rightarrow> 'd Running result \<times> 'd" where
  "run m d =
     (case m_load m of
        Inl err \<Rightarrow> (Inl err, d)
      | Inr c \<Rightarrow>
     (case m_parse_key m (WGPrivateKey c) of
        Inl _ \<Rightarrow> (Inl ''WG_PRIVATE_KEY is not a valid WireGuard key'', d)
      | Inr priv \<Rightarrow>
     (case New_Verifier (m_providers m) (auth_options c) of
        Inl err \<Rightarrow> (Inl err, d)
      | Inr verify \<Rightarrow>
     (case New_Allocator (m_parse_cidr m) (VPNCIDR c) of
        Inl err \<Rightarrow> (Inl err, d)
      | Inr a \<Rightarrow>
     (case open_gateway m c d of
        Inl err \<Rightarrow> (Inl err, d)
      | Inr g \<Rightarrow>
     (case m_parse_cidr m (VPNCIDR c) of
        Inl err \<Rightarrow> (Inl err, d)
      | Inr (_, pool) \<Rightarrow>
     (case Sweep g pool d of
        (d', _, Some err) \<Rightarrow>
          (Inl (''remove the peers a previous run left on '' @ WGInterface c @ '': '' @ err), d')
      | (d', _, None) \<Rightarrow> (run_servers m c verify (m_public m priv) a g d', d'))))))))"

section \<open>The loops beside the requests\<close>

text \<open>
  One turn of \<open>reg.Run\<close> with \<open>main\<close>'s \<open>onList\<close>: the registry is shared with the
  handlers, so the new list is theirs before the reconciliation starts.
\<close>

definition refresh_turn ::
    "parse_key \<Rightarrow> time \<Rightarrow> string list \<Rightarrow> WgList result \<Rightarrow> 'd Server \<Rightarrow> 'd Server" where
  "refresh_turn pk now ks fetched s =
     (case registry s of
        None \<Rightarrow> s
      | Some r \<Rightarrow>
          (case Refresh fetched r of
             (Inl _, r') \<Rightarrow> s\<lparr>registry := Some r'\<rparr>
           | (Inr _, r') \<Rightarrow> Reconcile pk ks (Allowed now r') (s\<lparr>registry := Some r'\<rparr>)))"

text \<open>\<open>reaper\<close>: a reap at every tick, each with its visiting order.\<close>

fun reaper :: "parse_key \<Rightarrow> (time \<times> string list) list \<Rightarrow> 'd Server \<Rightarrow> 'd Server" where
  "reaper pk [] s = s"
| "reaper pk ((now, ks) # ticks) s = reaper pk ticks (ReapExpired pk now ks s)"

section \<open>What a started server has\<close>

text \<open>
  A machine whose prefix parser reads IPv4 text as the standard library does. On other text it
  may do anything: \<open>net.ParseCIDR\<close> also reads IPv6, and IPv4-mapped addresses.
\<close>

definition parses_ipv4 :: "(string \<Rightarrow> (ip \<times> IPNet) result) \<Rightarrow> bool" where
  "parses_ipv4 parse_cidr \<longleftrightarrow> (\<forall>s x. parse_ipv4_cidr s = Some x \<longrightarrow> parse_cidr s = Inr x)"

lemma New_Allocator_inv:
  assumes "parses_ipv4 pc" "parse_ipv4_cidr cidr \<noteq> None" "New_Allocator pc cidr = Inr a"
  obtains p ip where "pool_inv p a" "taken a = {serverIP a}" "pc cidr = Inr (ip, network a)"
proof -
  obtain ip n where v4: "parse_ipv4_cidr cidr = Some (ip, n)" using assms(2) by auto
  then have pc: "pc cidr = Inr (ip, n)" using assms(1) by (simp add: parses_ipv4_def)
  then have a: "a = \<lparr>network = n, serverIP = firstHost n, used = fmupd (ip_String (firstHost n)) True fmempty\<rparr>"
    using assms(3) by (auto simp: New_Allocator_def Let_def split: if_splits)
  obtain p where p: "ipv4_net n p" using v4 by (elim parse_ipv4_cidr_net)
  have len: "length (firstHost n) = 4" using p by simp
  have t: "taken a = {firstHost n}"
    using len by (auto simp: taken_def used_at_def a dotted_inject)
  then have "pool_inv p a" using p by (simp add: pool_inv_def) (simp add: a)
  with t pc show ?thesis by (intro that) (simp_all add: a)
qed

lemma New_Server_inv:
  assumes "pool_inv p a" "taken a = {serverIP a}"
  shows "srv_inv p (New_Server c a New_Store g d (New_TStore al ds) pub)"
proof -
  have "address_of (New_Server c a New_Store g d (New_TStore al ds) pub) = Map.empty"
    by (simp add: fun_eq_iff address_of_def New_Server_def)
  then show ?thesis using assms by (simp add: srv_inv_def ipool.leases_def) (simp add: New_Server_def ts_inv_New)
qed

lemma run_Inr:
  assumes "run m d = (Inr r, d')"
  obtains c priv verify a g ip pool n where "m_load m = Inr c" "m_parse_key m (WGPrivateKey c) = Inr priv"
    "New_Verifier (m_providers m) (auth_options c) = Inr verify"
    "New_Allocator (m_parse_cidr m) (VPNCIDR c) = Inr a" "open_gateway m c d = Inr g"
    "m_parse_cidr m (VPNCIDR c) = Inr (ip, pool)" "Sweep g pool d = (d', n, None)"
    "run_servers m c verify (m_public m priv) a g d' = Inr r"
proof -
  obtain c where c: "m_load m = Inr c" using assms by (cases "m_load m") (simp_all add: run_def)
  obtain priv where priv: "m_parse_key m (WGPrivateKey c) = Inr priv"
    using assms by (cases "m_parse_key m (WGPrivateKey c)") (simp_all add: run_def c)
  obtain v where v: "New_Verifier (m_providers m) (auth_options c) = Inr v"
    using assms by (cases "New_Verifier (m_providers m) (auth_options c)") (simp_all add: run_def c priv)
  obtain a where a: "New_Allocator (m_parse_cidr m) (VPNCIDR c) = Inr a"
    using assms by (cases "New_Allocator (m_parse_cidr m) (VPNCIDR c)") (simp_all add: run_def c priv v)
  obtain g where g: "open_gateway m c d = Inr g"
    using assms by (cases "open_gateway m c d") (simp_all add: run_def c priv v a)
  obtain ip pool where pool: "m_parse_cidr m (VPNCIDR c) = Inr (ip, pool)"
    using assms by (cases "m_parse_cidr m (VPNCIDR c)") (auto simp: run_def c priv v a g)
  obtain d1 n e where s: "Sweep g pool d = (d1, n, e)" by (cases "Sweep g pool d")
  with assms have "e = None" "d1 = d'" "run_servers m c v (m_public m priv) a g d' = Inr r"
    by (cases e; simp add: run_def c priv v a g pool)+
  with s that [OF c priv v a g pool] show ?thesis by simp
qed

lemma use_registry_frame:
  assumes "use_registry m c s = Inr s'"
  shows "s' = s\<lparr>registry := registry s'\<rparr>"
    and "AuthProvider c = ''go-authn'' \<Longrightarrow> \<exists>l. m_first_list m = Inr l \<and>
      registry s' = Some \<lparr>reg_list = Some l, byKey = index_peers (wl_Peers l)\<rparr>"
  using assms
  by (auto simp: use_registry_def UsePeers_def Refresh_def split: if_splits option.splits sum.splits prod.splits)

lemma srv_inv_registry: "srv_inv p (s\<lparr>registry := r\<rparr>) = srv_inv p s"
  by (simp add: srv_inv_def)

lemma run_servers_Inr:
  assumes "run_servers m c verify pub a g d = Inr r"
  shows "run_srv r = (New_Server c a New_Store g d (New_TStore (PushRoutes c) (DNS c)) pub)
      \<lparr>registry := registry (run_srv r)\<rparr>"
    and "AuthProvider c = ''go-authn'' \<Longrightarrow> \<exists>l. m_first_list m = Inr l \<and>
      registry (run_srv r) = Some \<lparr>reg_list = Some l, byKey = index_peers (wl_Peers l)\<rparr>"
    and "run_verify r = verify"
proof -
  let ?s = "New_Server c a New_Store g d (New_TStore (PushRoutes c) (DNS c)) pub"
  obtain s' where "use_registry m c ?s = Inr s'" "run_srv r = s'" "run_verify r = verify"
    using assms by (auto simp: run_servers_def Let_def split: sum.splits option.splits)
  then show "run_srv r = ?s\<lparr>registry := registry (run_srv r)\<rparr>"
    and "AuthProvider c = ''go-authn'' \<Longrightarrow> \<exists>l. m_first_list m = Inr l \<and>
      registry (run_srv r) = Some \<lparr>reg_list = Some l, byKey = index_peers (wl_Peers l)\<rparr>"
    and "run_verify r = verify"
    using use_registry_frame [of m c ?s s'] by auto
qed

lemma run_srv_inv:
  assumes pc: "parses_ipv4 (m_parse_cidr m)" and r: "run m d = (Inr r, d')"
    and c0: "m_load m = Inr c0" "parse_ipv4_cidr (VPNCIDR c0) \<noteq> None"
  shows "\<exists>p. srv_inv p (run_srv r)"
proof (rule run_Inr [OF r])
  fix c priv verify a g ip pool n
  assume "m_load m = Inr c" and al: "New_Allocator (m_parse_cidr m) (VPNCIDR c) = Inr a"
    and s: "run_servers m c verify (m_public m priv) a g d' = Inr r"
  with c0 have v4: "parse_ipv4_cidr (VPNCIDR c) \<noteq> None" by simp
  obtain p where "pool_inv p a" "taken a = {serverIP a}" by (rule New_Allocator_inv [OF pc v4 al])
  then have "srv_inv p ((New_Server c a New_Store g d' (New_TStore (PushRoutes c) (DNS c)) (m_public m priv))
      \<lparr>registry := registry (run_srv r)\<rparr>)"
    by (simp add: srv_inv_registry New_Server_inv)
  then show ?thesis using run_servers_Inr(1) [OF s] by metis
qed

section \<open>Startup and the device\<close>

lemma Sweep_view:
  assumes ok: "gateway_ok view g" and l: "Lister g = Some peers_of" and s: "Sweep g pool d = (d', n, None)"
  shows "fmlookup (view d') k = (case fmlookup (view d) k of None \<Rightarrow> None
    | Some nets \<Rightarrow> if ours \<lparr>wp_PublicKey = k, wp_AllowedIPs = nets\<rparr> pool then None else Some nets)"
    and "n = card {k. \<exists>nets. fmlookup (view d) k = Some nets \<and> ours \<lparr>wp_PublicKey = k, wp_AllowedIPs = nets\<rparr> pool}"
proof -
  obtain ps where ps: "peers_of d = Inr ps" and loop: "sweep_loop g pool ps 0 d = (d', n, None)"
    using s l by (auto simp: Sweep_def split: sum.splits)
  have dist: "distinct (map wp_PublicKey ps)"
    and mem: "fmlookup (view d) k = Some as \<longleftrightarrow> (\<exists>p \<in> set ps. wp_PublicKey p = k \<and> wp_AllowedIPs p = as)" for k as
    using gateway_Lister [OF ok l ps] by blast+
  have ours: "ours p pool = ours \<lparr>wp_PublicKey = wp_PublicKey p, wp_AllowedIPs = wp_AllowedIPs p\<rparr> pool" for p :: WGPeer
    by (simp add: ours_def)
  have keys: "wp_PublicKey ` {p \<in> set ps. ours p pool} =
      {k. \<exists>nets. fmlookup (view d) k = Some nets \<and> ours \<lparr>wp_PublicKey = k, wp_AllowedIPs = nets\<rparr> pool}"
    (is "?L = ?R")
  proof (intro set_eqI iffI)
    fix k assume "k \<in> ?L"
    then obtain q where "q \<in> set ps" "ours q pool" "k = wp_PublicKey q" by blast
    then show "k \<in> ?R" using ours [of q] mem [of k "wp_AllowedIPs q"] by auto
  next
    fix k assume "k \<in> ?R"
    then obtain nets where "fmlookup (view d) k = Some nets" "ours \<lparr>wp_PublicKey = k, wp_AllowedIPs = nets\<rparr> pool"
      by blast
    with mem obtain q where "q \<in> set ps" "wp_PublicKey q = k" "wp_AllowedIPs q = nets"
      "ours \<lparr>wp_PublicKey = k, wp_AllowedIPs = nets\<rparr> pool" by blast
    then show "k \<in> ?L" using ours [of q] by blast
  qed
  show "fmlookup (view d') k = (case fmlookup (view d) k of None \<Rightarrow> None
    | Some nets \<Rightarrow> if ours \<lparr>wp_PublicKey = k, wp_AllowedIPs = nets\<rparr> pool then None else Some nets)"
    unfolding sweep_loop_view(1) [OF ok loop] keys by (auto split: option.splits)
  have "n = length (filter (\<lambda>p. ours p pool) ps)" using sweep_loop_view(2) [OF ok loop] by simp
  also have "\<dots> = card (wp_PublicKey ` set (filter (\<lambda>p. ours p pool) ps))"
    using distinct_map_filter [OF dist, of "\<lambda>p. ours p pool"] by (metis distinct_card length_map list.set_map)
  finally show "n = card {k. \<exists>nets. fmlookup (view d) k = Some nets \<and> ours \<lparr>wp_PublicKey = k, wp_AllowedIPs = nets\<rparr> pool}"
    by (simp add: keys [symmetric])
qed

text \<open>
  Peers configured by hand are not in the pool: what is not of the shape the server gives its
  peers has no host address of the pool.
\<close>

definition hand_made_elsewhere :: "'d view \<Rightarrow> IPNet \<Rightarrow> 'd \<Rightarrow> bool" where
  "hand_made_elsewhere view pool d \<longleftrightarrow>
     (\<forall>k nets ip. fmlookup (view d) k = Some nets \<longrightarrow>
        \<not> ours \<lparr>wp_PublicKey = k, wp_AllowedIPs = nets\<rparr> pool \<longrightarrow>
        host_net ip \<in> set nets \<longrightarrow> length ip = 4 \<longrightarrow> \<not> Contains pool ip)"

lemma Sweep_programmed:
  assumes ok: "gateway_ok view g" and l: "Lister g = Some peers_of" and s: "Sweep g pool d = (d', n, None)"
    and n: "ipv4_net pool p" and hand: "hand_made_elsewhere view pool d"
  shows "programmed pk C (hosts pool p) Map.empty (view d')"
proof -
  have False if v: "fmlookup (view d') k = Some nets" and i: "i \<in> hosts pool p" "host_net i \<in> set nets" for k nets i
  proof -
    have "fmlookup (view d) k = Some nets" "\<not> ours \<lparr>wp_PublicKey = k, wp_AllowedIPs = nets\<rparr> pool"
      using v Sweep_view(1) [OF ok l s, of k] by (auto split: option.splits if_splits)
    moreover have "length i = 4" "Contains pool i"
      using i(1) in_hosts_iff [OF n, of i] by (auto simp: hosts_def)
    ultimately show False using hand i(2) unfolding hand_made_elsewhere_def by blast
  qed
  then show ?thesis unfolding programmed_def by auto
qed

lemma New_Server_simps [simp]:
  "cfg (New_Server c a st g d ts pub) = c" "alloc (New_Server c a st g d ts pub) = a"
  "store (New_Server c a st g d ts pub) = st" "gw (New_Server c a st g d ts pub) = g"
  "dev (New_Server c a st g d ts pub) = d" "tstore (New_Server c a st g d ts pub) = ts"
  by (simp_all add: New_Server_def)

lemma open_gateway_real:
  "open_gateway m c d = Inr g \<Longrightarrow> \<not> DryRun c \<Longrightarrow> g = wgctrlGateway (m_wg_close m) (m_configure m) (m_device m) (WGInterface c)"
  by (auto simp: open_gateway_def NewGateway_def split: option.splits sum.splits)

lemma run_dev_inv:
  assumes pc: "parses_ipv4 (m_parse_cidr m)" and r: "run m d = (Inr r, d')"
    and c: "m_load m = Inr c" "\<not> DryRun c" and v4: "parse_ipv4_cidr (VPNCIDR c) \<noteq> None"
    and wg: "wgctrl_ok view (m_configure m) (m_device m) (WGInterface c)"
    and rm: "removes (wgctrlGateway (m_wg_close m) (m_configure m) (m_device m) (WGInterface c))"
    and hand: "\<And>ip pool. m_parse_cidr m (VPNCIDR c) = Inr (ip, pool) \<Longrightarrow> hand_made_elsewhere view pool d"
  shows "\<exists>p. srv_inv p (run_srv r) \<and> dev_inv pk C view p (run_srv r)"
proof (rule run_Inr [OF r])
  fix c' priv verify a g ip pool n
  assume c': "m_load m = Inr c'" and al: "New_Allocator (m_parse_cidr m) (VPNCIDR c') = Inr a"
    and g: "open_gateway m c' d = Inr g" and pool: "m_parse_cidr m (VPNCIDR c') = Inr (ip, pool)"
    and sw: "Sweep g pool d = (d', n, None)"
    and s: "run_servers m c' verify (m_public m priv) a g d' = Inr r"
  have cc: "c' = c" using c(1) c' by simp
  let ?s = "New_Server c a New_Store g d' (New_TStore (PushRoutes c) (DNS c)) (m_public m priv)"
  obtain p ip' where p: "pool_inv p a" "taken a = {serverIP a}" "m_parse_cidr m (VPNCIDR c) = Inr (ip', network a)"
    by (rule New_Allocator_inv [OF pc v4 al [unfolded cc]])
  have net: "network a = pool" using p(3) pool cc by simp
  have gg: "g = wgctrlGateway (m_wg_close m) (m_configure m) (m_device m) (WGInterface c)"
    using open_gateway_real [OF g] c(2) cc by simp
  have ok: "gateway_ok view g" unfolding gg by (rule wgctrlGateway_ok [OF wg])
  have lst: "Lister g = Some (wgctrl_Peers (m_device m) (WGInterface c))" by (simp add: gg wgctrlGateway_def)
  have ipv4: "ipv4_net pool p" using p(1) net by (simp add: pool_inv_def)
  have hm: "hand_made_elsewhere view pool d" using hand pool cc by blast
  have "programmed pk C (hosts pool p) Map.empty (view d')"
    by (rule Sweep_programmed [OF ok lst sw ipv4 hm])
  moreover have "address_of ?s = Map.empty" by (simp add: fun_eq_iff address_of_def)
  ultimately have "dev_inv pk C view p ?s" using ok rm gg net by (simp add: dev_inv_def)
  moreover have "srv_inv p ?s" by (rule New_Server_inv [OF p(1,2)])
  ultimately have "srv_inv p (?s\<lparr>registry := registry (run_srv r)\<rparr>) \<and> dev_inv pk C view p (?s\<lparr>registry := registry (run_srv r)\<rparr>)"
    by (simp add: srv_inv_registry dev_inv_def)
  then show ?thesis using run_servers_Inr(1) [OF s] cc by metis
qed

end
