(* ===== verification/System.thy ===== *)
theory System
  imports Startup
begin

text \<open>
  The running server as a transition system. A step is one request, one turn of the reaper or of
  the key-list refresh, one call of the management API, one step of a watcher, or the passing of
  time; requests are serialised, their interleavings are in \<open>Interleavings\<close>. Steps are labelled,
  so that theorems can speak of what happened on the way.
\<close>

record 'd System =
  sy_srv :: "'d Server"
  sy_now :: time

datatype event =
    Tick
  | Request string call response
  | Reaped
  | Refreshed "WgList result"
  | AdminCall admin_call admin_response
  | WatchStep

inductive sys_step :: "parse_key \<Rightarrow> verifier \<Rightarrow> 'd System \<Rightarrow> event \<Rightarrow> 'd System \<Rightarrow> bool"
  for pk :: parse_key and verify :: verifier where
  tick: "sy_now S \<le> t \<Longrightarrow> sys_step pk verify S Tick (S\<lparr>sy_now := t\<rparr>)"
| request: "ranges_over ks (tenants (tstore (sy_srv S))) \<Longrightarrow>
    Handler pk verify (sy_now S) ks hdr c (sy_srv S) = Ok (r, s') \<Longrightarrow>
    sys_step pk verify S (Request hdr c r) (S\<lparr>sy_srv := s'\<rparr>)"
| reap: "ranges_over ks (peers (store (sy_srv S))) \<Longrightarrow>
    sys_step pk verify S Reaped (S\<lparr>sy_srv := ReapExpired pk (sy_now S) ks (sy_srv S)\<rparr>)"
| refresh: "ranges_over ks (peers (store (sy_srv S))) \<Longrightarrow>
    sys_step pk verify S (Refreshed fetched) (S\<lparr>sy_srv := refresh_turn pk (sy_now S) ks fetched (sy_srv S)\<rparr>)"
| admin: "call_subs c subs (tstore (sy_srv S)) \<Longrightarrow>
    Register token hdr ks subs pks (store (sy_srv S)) c (tstore (sy_srv S)) = Ok (r, ts') \<Longrightarrow>
    sys_step pk verify S (AdminCall c r) (S\<lparr>sy_srv := (sy_srv S)\<lparr>tstore := ts'\<rparr>\<rparr>)"
| watch: "ts_step (tstore (sy_srv S)) ts' \<Longrightarrow>
    sys_step pk verify S WatchStep (S\<lparr>sy_srv := (sy_srv S)\<lparr>tstore := ts'\<rparr>\<rparr>)"

inductive_cases sys_requestE: "sys_step pk verify S (Request hdr c r) S'"
inductive_cases sys_reapE: "sys_step pk verify S Reaped S'"
inductive_cases sys_refreshE: "sys_step pk verify S (Refreshed f) S'"

inductive sys_run :: "parse_key \<Rightarrow> verifier \<Rightarrow> 'd System \<Rightarrow> event list \<Rightarrow> 'd System \<Rightarrow> bool"
  for pk :: parse_key and verify :: verifier where
  start: "sys_run pk verify S [] S"
| step: "sys_run pk verify S es S' \<Longrightarrow> sys_step pk verify S' e S'' \<Longrightarrow> sys_run pk verify S (es @ [e]) S''"

text \<open>
  Events after which the pool is as the store says: all but a gateway failure of a device that
  was already enrolled. The condition is on the answer, so it covers every request answered 500.
\<close>

definition calm :: "event \<Rightarrow> bool" where
  "calm e \<longleftrightarrow> (\<forall>hdr c r. e = Request hdr c r \<longrightarrow> status r \<noteq> 500)"

lemma calm_reenroll: "status r \<noteq> 500 \<Longrightarrow> \<not> call_failed_reenroll c s r"
  by (simp add: call_failed_reenroll_def reenroll_failed_def)

section \<open>The invariant\<close>

text \<open>Leases end within the configured time of the present.\<close>

definition leases_bounded :: "time \<Rightarrow> 'd Server \<Rightarrow> bool" where
  "leases_bounded now s \<longleftrightarrow> (\<forall>k q. Get (store s) k = Some q \<longrightarrow> p_LeaseExpiry q \<le> now + LeaseTTL (cfg s))"

definition sys_inv :: "nat \<Rightarrow> 'd System \<Rightarrow> bool" where
  "sys_inv p S \<longleftrightarrow> srv_inv p (sy_srv S) \<and> ts_fresh (tstore (sy_srv S)) \<and> leases_bounded (sy_now S) (sy_srv S)"

lemma srv_inv_tstore: "srv_inv p s \<Longrightarrow> ts_inv ts \<Longrightarrow> srv_inv p (s\<lparr>tstore := ts\<rparr>)"
  by (simp add: srv_inv_def)

lemma reap_loop_frame [simp]:
  "tstore (reap_loop pk ps s) = tstore s" "cfg (reap_loop pk ps s) = cfg s"
  "registry (reap_loop pk ps s) = registry s" "gw (reap_loop pk ps s) = gw s"
  by (induction ps arbitrary: s) simp_all

lemma ReapExpired_frame [simp]:
  "tstore (ReapExpired pk now ks s) = tstore s" "cfg (ReapExpired pk now ks s) = cfg s"
  "registry (ReapExpired pk now ks s) = registry s"
  by (simp_all add: ReapExpired_def)

lemma Reconcile_frame [simp]:
  "tstore (Reconcile pk ks al s) = tstore s" "cfg (Reconcile pk ks al s) = cfg s"
  "registry (Reconcile pk ks al s) = registry s"
  by (simp_all add: Reconcile_def reconcile_loop_reap)

lemma refresh_turn_frame [simp]:
  "tstore (refresh_turn pk now ks f s) = tstore s" "cfg (refresh_turn pk now ks f s) = cfg s"
  by (simp_all add: refresh_turn_def split: option.splits prod.splits sum.splits)

lemma refresh_turn_inv:
  assumes "srv_inv p s" "ranges_over ks (peers (store s))"
  shows "srv_inv p (refresh_turn pk now ks f s)"
  using assms Reconcile_inv [of p "s\<lparr>registry := r\<rparr>" ks pk al for r al]
  by (simp add: refresh_turn_def srv_inv_registry split: option.splits prod.splits sum.splits)

text \<open>A refresh drops peers or leaves them as they were.\<close>

lemma refresh_turn_Get:
  assumes inv: "srv_inv p s" and ks: "ranges_over ks (peers (store s))"
    and g: "Get (store (refresh_turn pk now ks f s)) k = Some q"
  shows "Get (store s) k = Some q"
proof (cases "registry s")
  case (Some r)
  have inv': "srv_inv p (s\<lparr>registry := r'\<rparr>)" for r' using inv by (simp add: srv_inv_registry)
  show ?thesis
    using g Reconcile_Get [OF inv', of ks _ pk _ k] ks Some
    by (auto simp: refresh_turn_def Refresh_def split: sum.splits option.splits if_splits)
qed (use g in \<open>simp add: refresh_turn_def\<close>)

lemma leases_bounded_shrink:
  assumes "leases_bounded now s" "cfg s' = cfg s"
    and "\<And>k q. Get (store s') k = Some q \<Longrightarrow> Get (store s) k = Some q"
  shows "leases_bounded now s'"
  using assms unfolding leases_bounded_def by metis

lemma leases_bounded_Handler:
  assumes inv: "srv_inv p s" and ks: "ranges_over ks (tenants (tstore s))"
    and h: "Handler pk verify now ks hdr c s = Ok (r, s')" and b: "leases_bounded now s"
  shows "leases_bounded now s'"
  unfolding leases_bounded_def
proof (intro allI impI)
  fix k q
  assume q: "Get (store s') k = Some q"
  have c: "cfg s' = cfg s" by (rule Handler_frame(3) [OF inv ks h])
  show "p_LeaseExpiry q \<le> now + LeaseTTL (cfg s')"
  proof (cases "Get (store s') k = Get (store s) k")
    case True
    with q b c show ?thesis by (auto simp: leases_bounded_def)
  next
    case False
    obtain claims where "own_change now s claims k (Get (store s') k)"
      by (rule Handler_change [OF inv ks h False])
    with q have "registered now s k claims (now + LeaseTTL (cfg s)) = Some (p_LeaseExpiry q)"
      by (simp add: own_change_def granted_def)
    from registered_Some(1) [OF this] c show ?thesis by simp
  qed
qed

lemma sys_inv_step:
  assumes "sys_step pk verify S e S'" "sys_inv p S" "calm e"
  shows "sys_inv p S'"
  using assms
proof (induction rule: sys_step.induct)
  case (tick S t)
  then show ?case by (force simp: sys_inv_def leases_bounded_def)
next
  case (request ks S hdr c r s')
  then have inv: "srv_inv p (sy_srv S)" and "\<not> call_failed_reenroll c (sy_srv S) r"
    by (simp_all add: sys_inv_def calm_def calm_reenroll)
  with request show ?case
    using Handler_inv [OF inv request(1,2)] leases_bounded_Handler [OF inv request(1,2)]
      Handler_frame(1) [OF inv request(1,2)]
    by (simp add: sys_inv_def)
next
  case (reap ks S)
  then have inv: "srv_inv p (sy_srv S)" and b: "leases_bounded (sy_now S) (sy_srv S)"
    by (simp_all add: sys_inv_def)
  have "leases_bounded (sy_now S) (ReapExpired pk (sy_now S) ks (sy_srv S))"
    by (rule leases_bounded_shrink [OF b])
      (simp_all add: ReapExpired_Get [OF inv reap(1)] split: option.splits if_splits)
  with reap ReapExpired_inv [OF inv reap(1)] show ?case by (simp add: sys_inv_def)
next
  case (refresh ks S fetched)
  then have inv: "srv_inv p (sy_srv S)" and b: "leases_bounded (sy_now S) (sy_srv S)"
    by (simp_all add: sys_inv_def)
  have "leases_bounded (sy_now S) (refresh_turn pk (sy_now S) ks fetched (sy_srv S))"
    by (rule leases_bounded_shrink [OF b refresh_turn_frame(2)]) (rule refresh_turn_Get [OF inv refresh(1)])
  with refresh refresh_turn_inv [OF inv refresh(1)] show ?case by (simp add: sys_inv_def)
next
  case (admin c subs S token hdr ks pks r ts')
  then have inv: "srv_inv p (sy_srv S)" by (simp add: sys_inv_def)
  have "ts' = tstore (sy_srv S) \<or> ts_step (tstore (sy_srv S)) ts'"
    using Register_step [OF srv_invD(2) [OF inv] admin(1), of token hdr ks pks "store (sy_srv S)"] admin(2) by auto
  with admin(3) show ?case
    using ts_inv_step ts_fresh_step srv_invD(2) [OF inv]
    by (auto simp: sys_inv_def srv_inv_tstore leases_bounded_def)
next
  case (watch S ts')
  then have inv: "srv_inv p (sy_srv S)" by (simp add: sys_inv_def)
  with watch show ?case
    using ts_inv_step ts_fresh_step srv_invD(2) [OF inv]
    by (auto simp: sys_inv_def srv_inv_tstore leases_bounded_def)
qed

lemma sys_inv_run:
  "sys_run pk verify S es S' \<Longrightarrow> sys_inv p S \<Longrightarrow> \<forall>e \<in> set es. calm e \<Longrightarrow> sys_inv p S'"
  by (induction rule: sys_run.induct) (auto intro: sys_inv_step)

section \<open>A device nobody speaks for\<close>

text \<open>The requests that name a key.\<close>

definition names_key :: "call \<Rightarrow> string \<Rightarrow> bool" where
  "names_key c k \<longleftrightarrow>
     (\<exists>req. c = Enroll (Inr req) \<and> er_PublicKey req = k) \<or> c = Heartbeat (Inr k) \<or> c = Deregister (Inr k)"

definition touches :: "string \<Rightarrow> event \<Rightarrow> bool" where
  "touches k e \<longleftrightarrow> (\<exists>hdr c r. e = Request hdr c r \<and> names_key c k)"

lemma Handler_key:
  assumes inv: "srv_inv p s" and ks: "ranges_over ks (tenants (tstore s))"
    and h: "Handler pk verify now ks hdr c s = Ok (r, s')" and k: "\<not> names_key c k"
  shows "Get (store s') k = Get (store s) k"
proof (cases rule: Handler_cases [of c pk verify now ks hdr s])
  case (verified claims)
  with h have d: "dispatch pk now ks c claims s = Ok (r, s')" by simp
  show ?thesis
  proof (cases c)
    case (Enroll b)
    with d have e: "handleEnroll pk now ks b claims s = Ok (r, s')" by (simp add: dispatch_def)
    from inv e show ?thesis
      by (cases rule: handleEnroll_cases) (use k Enroll in \<open>auto simp: store_simps names_key_def\<close>)
  next
    case (Heartbeat b)
    with d k show ?thesis
      by (cases rule: handleHeartbeat_cases [OF srv_invD(2) [OF inv] ks, of b now claims])
        (auto simp: dispatch_def store_simps names_key_def)
  next
    case (Deregister b)
    with d k show ?thesis
      by (cases rule: handleDeregister_cases [of b pk claims s])
        (auto simp: dispatch_def store_simps names_key_def)
  qed (use d handleTenants_state in \<open>force simp: dispatch_def handleHealthz_def\<close>)+
qed (use h in auto)

lemma untouched_step:
  assumes "sys_step pk verify S e S'" "sys_inv p S" "\<not> touches k e" "Get (store (sy_srv S')) k = Some q"
  shows "Get (store (sy_srv S)) k = Some q"
  using assms
proof (induction rule: sys_step.induct)
  case (request ks S hdr c r s')
  then have "srv_inv p (sy_srv S)" "\<not> names_key c k" by (auto simp: sys_inv_def touches_def)
  with request Handler_key [OF this(1) request(1,2) this(2)] show ?case by simp
next
  case (reap ks S)
  then show ?case
    using ReapExpired_Get [of p "sy_srv S" ks pk "sy_now S" k]
    by (auto simp: sys_inv_def split: option.splits if_splits)
next
  case (refresh ks S fetched)
  then show ?case using refresh_turn_Get [of p "sy_srv S" ks pk "sy_now S" fetched k q] by (simp add: sys_inv_def)
qed auto

lemma untouched_run:
  assumes "sys_run pk verify S es S'" "sys_inv p S" "\<forall>e \<in> set es. calm e \<and> \<not> touches k e"
    "Get (store (sy_srv S')) k = Some q"
  shows "Get (store (sy_srv S)) k = Some q"
  using assms
proof (induction rule: sys_run.induct)
  case (step S es S' e S'')
  then have "sys_inv p S'" by (auto intro: sys_inv_run)
  with step untouched_step [of pk verify S' e S'' p k q] show ?case by auto
qed simp

section \<open>What a new list revokes\<close>

lemma refresh_revokes:
  assumes inv: "srv_inv p s" and ks: "ranges_over ks (peers (store s))" and r: "registry s = Some r"
    and q: "Get (store (refresh_turn pk now ks (Inr l) s)) k = Some q"
  shows "Get (store s) k = Some q" and "now < wl_Expires l"
    and "\<exists>w \<in> set (wl_Peers l). wg_Key w = k \<and> wg_Subject w = p_Subject q \<and> now < wg_Expires w"
proof -
  show g: "Get (store s) k = Some q" by (rule refresh_turn_Get [OF inv ks q])
  define r' where "r' = snd (Refresh (Inr l) r)"
  have eq: "refresh_turn pk now ks (Inr l) s = Reconcile pk ks (Allowed now r') (s\<lparr>registry := Some r'\<rparr>)"
    by (simp add: refresh_turn_def r Refresh_def r'_def)
  have inv': "srv_inv p (s\<lparr>registry := Some r'\<rparr>)" using inv by (simp add: srv_inv_registry)
  have "Allowed now r' k (p_Subject q)"
    using q g Reconcile_Get [OF inv', of ks pk "Allowed now r'" k] ks
    by (simp add: eq split: if_splits)
  then obtain w where w: "Lookup now r' k = Some w" "wg_Subject w = p_Subject q"
    by (auto simp: Allowed_def split: option.splits)
  then show "now < wl_Expires l"
    by (auto simp: r'_def Lookup_Refresh split: if_splits)
  have "fmlookup (index_peers (wl_Peers l)) k = Some w" "now < wg_Expires w"
    using w(1) by (auto simp: r'_def Lookup_Refresh split: if_splits option.splits)
  with index_peers_mem [OF this(1)] w(2)
  show "\<exists>w \<in> set (wl_Peers l). wg_Key w = k \<and> wg_Subject w = p_Subject q \<and> now < wg_Expires w" by blast
qed

section \<open>The device along a run\<close>

definition keys_in :: "string set \<Rightarrow> event \<Rightarrow> bool" where
  "keys_in C e \<longleftrightarrow> (\<forall>hdr req r. e = Request hdr (Enroll (Inr req)) r \<longrightarrow> er_PublicKey req \<in> C)"

lemma dev_inv_frame [simp]:
  "dev_inv pk C view p (s\<lparr>registry := r\<rparr>) = dev_inv pk C view p s"
  "dev_inv pk C view p (s\<lparr>tstore := ts\<rparr>) = dev_inv pk C view p s"
  by (simp_all add: dev_inv_def)

lemma dev_inv_refresh:
  assumes "dev_inv pk C view p s" "canonical pk C" "keyed (store s)" "ranges_over ks (peers (store s))"
  shows "dev_inv pk C view p (refresh_turn pk now ks f s)"
  using assms dev_inv_Reconcile [of pk C view p "s\<lparr>registry := r\<rparr>" ks al for r al]
  by (simp add: refresh_turn_def split: option.splits prod.splits sum.splits)

lemma dev_inv_step:
  assumes "sys_step pk verify S e S'" "sys_inv p S" "dev_inv pk C view p (sy_srv S)" "canonical pk C"
    "calm e" "keys_in C e"
  shows "dev_inv pk C view p (sy_srv S')"
  using assms
proof (induction rule: sys_step.induct)
  case (request ks S hdr c r s')
  then show ?case
    using dev_inv_Handler [of p "sy_srv S" ks pk C view verify "sy_now S" hdr c r s']
    by (auto simp: sys_inv_def calm_def keys_in_def)
next
  case (reap ks S)
  then show ?case by (simp add: dev_inv_ReapExpired sys_inv_def srv_inv_def)
next
  case (refresh ks S fetched)
  then show ?case by (simp add: dev_inv_refresh sys_inv_def srv_inv_def)
qed auto

lemma dev_inv_run:
  assumes "sys_run pk verify S es S'" "sys_inv p S" "dev_inv pk C view p (sy_srv S)" "canonical pk C"
    "\<forall>e \<in> set es. calm e \<and> keys_in C e"
  shows "dev_inv pk C view p (sy_srv S')"
  using assms
proof (induction rule: sys_run.induct)
  case (step S es S' e S'')
  then have "sys_inv p S'" by (auto intro: sys_inv_run)
  with step dev_inv_step [of pk verify S' e S'' p C view] show ?case by auto
qed simp

section \<open>What stays fixed\<close>

lemma sys_step_fixed:
  assumes "sys_step pk verify S e S'" "sys_inv p S"
  shows "cfg (sy_srv S') = cfg (sy_srv S)" and "sy_now S \<le> sy_now S'"
proof -
  have "cfg (sy_srv S') = cfg (sy_srv S) \<and> sy_now S \<le> sy_now S'"
    using assms
  proof (induction rule: sys_step.induct)
    case (request ks S hdr c r s')
    then show ?case using Handler_frame(3) [of p "sy_srv S" ks pk verify "sy_now S" hdr c r s'] by (simp add: sys_inv_def)
  qed auto
  then show "cfg (sy_srv S') = cfg (sy_srv S)" and "sy_now S \<le> sy_now S'" by simp_all
qed

lemma sys_run_fixed:
  assumes "sys_run pk verify S es S'" "sys_inv p S" "\<forall>e \<in> set es. calm e"
  shows "cfg (sy_srv S') = cfg (sy_srv S)" and "sy_now S \<le> sy_now S'"
proof -
  have "cfg (sy_srv S') = cfg (sy_srv S) \<and> sy_now S \<le> sy_now S'"
    using assms
  proof (induction rule: sys_run.induct)
    case (step S es S' e S'')
    then have "sys_inv p S'" by (auto intro: sys_inv_run)
    with step sys_step_fixed [of pk verify S' e S'' p] show ?case by auto
  qed simp
  then show "cfg (sy_srv S') = cfg (sy_srv S)" and "sy_now S \<le> sy_now S'" by simp_all
qed

end
