(* ===== verification/Races.thy ===== *)
theory Races
  imports System
begin

text \<open>
  Requests that overlap. Each store locks its own operations, but a handler is several of them:
  \<open>handleEnroll\<close> finds its address (\<open>enroll_address\<close>) and then programs and stores it
  (\<open>enroll_commit\<close>), and the reaper lists the expired peers before it drops them. The lemmas
  here run those halves in the orders other goroutines allow.
\<close>

section \<open>Two enrolments of one new key\<close>

text \<open>Both look the key up and take an address before either stores its peer.\<close>

definition enroll_finish ::
    "time \<Rightarrow> wgkey \<Rightarrow> EnrollRequest \<Rightarrow> Claims \<Rightarrow> time \<Rightarrow> string \<Rightarrow> response + ip \<Rightarrow> 'd Server \<Rightarrow> (response \<times> 'd Server) outcome" where
  "enroll_finish now pub req claims expiry tid x s =
     (case x of Inl r \<Rightarrow> Ok (r, s) | Inr ip \<Rightarrow> enroll_commit now pub req claims expiry tid ip s)"

definition overlapping_enrolls ::
    "time \<Rightarrow> wgkey \<Rightarrow> EnrollRequest \<Rightarrow> Claims \<Rightarrow> time \<Rightarrow> string \<Rightarrow> EnrollRequest \<Rightarrow> Claims \<Rightarrow> time \<Rightarrow> string \<Rightarrow>
       'd Server \<Rightarrow> ((response \<times> 'd Server) outcome \<times> (response \<times> 'd Server) outcome)" where
  "overlapping_enrolls now pub reqA clA expA tidA reqB clB expB tidB s =
     (let (xA, s1) = enroll_address reqA clA s;
          (xB, s2) = enroll_address reqB clB s1;
          a = enroll_finish now pub reqA clA expA tidA xA s2
      in (a, obind a (\<lambda>(_, s3). enroll_finish now pub reqB clB expB tidB xB s3)))"

lemma enroll_race:
  assumes inv: "srv_inv p s" and fresh: "Get (store s) k = None"
    and A: "er_PublicKey reqA = k" and B: "er_PublicKey reqB = k"
    and up: "\<And>pub ip d. snd (AddPeer (gw s) pub ip d) = None"
    and a1: "Allocate (alloc s) = (Inr ipA, a)" and a2: "Allocate a = (Inr ipB, a')"
  shows "\<exists>sA sB. overlapping_enrolls now pub reqA clA eA tA reqB clB eB tB s =
      (Ok (enroll_reply s eA tA ipA, sA), Ok (enroll_reply s eB tB ipB, sB)) \<and>
    ipA \<noteq> ipB \<and> p_Subject (the (Get (store sB) k)) = c_Subject clB \<and>
    ipA \<in> taken (alloc sB) \<and> (\<forall>j q. Get (store sB) j = Some q \<longrightarrow> p_IP q \<noteq> ipA)"
proof -
  have ts: "ts_inv (tstore s)" by (rule srv_invD(2) [OF inv])
  define dA where "dA = fst (AddPeer (gw s) pub ipA (dev s))"
  define dB where "dB = fst (AddPeer (gw s) pub ipB dA)"
  have gA: "AddPeer (gw s) pub ipA (dev s) = (dA, None)" and gB: "AddPeer (gw s) pub ipB dA = (dB, None)"
    using up by (simp_all add: dA_def dB_def prod_eq_iff)
  define sA where "sA = EnrollInc tA (s\<lparr>alloc := a', dev := dA, store := Put (store s) (new_peer now reqA clA eA tA ipA)\<rparr>)"
  define sB where "sB = EnrollInc tB (sA\<lparr>dev := dB, store := Put (store sA) (new_peer now reqB clB eB tB ipB)\<rparr>)"
  have fA: "enroll_address reqA clA s = (Inr ipA, s\<lparr>alloc := a\<rparr>)"
    and fB: "enroll_address reqB clB (s\<lparr>alloc := a\<rparr>) = (Inr ipB, s\<lparr>alloc := a'\<rparr>)"
    using fresh A B a1 a2 by (simp_all add: enroll_address_def)
  have cA: "enroll_commit now pub reqA clA eA tA ipA (s\<lparr>alloc := a'\<rparr>) = Ok (enroll_reply s eA tA ipA, sA)"
    using enroll_commit_Ok [of "s\<lparr>alloc := a'\<rparr>" now pub reqA clA eA tA ipA] ts gA by (simp add: sA_def)
  have rep: "enroll_reply sA eB tB ipB = enroll_reply s eB tB ipB"
    by (simp add: enroll_reply_def sA_def EnrollInc_def)
  have tsA: "ts_inv (tstore sA)" and gwA: "gw sA = gw s" "dev sA = dA"
    using ts by (simp_all add: sA_def)
  have cB: "enroll_commit now pub reqB clB eB tB ipB sA = Ok (enroll_reply s eB tB ipB, sB)"
    using enroll_commit_Ok [OF tsA, of now pub reqB clB eB tB ipB] gB gwA rep by (simp add: sB_def)
  have pool: "pool_inv p (alloc s)" by (rule srv_inv_pool [OF inv])
  note okA = Allocate_Inr [OF pool a1]
  have pool': "pool_inv p a" using ipool.allocate_ok [OF pool a1] by blast
  note okB = Allocate_Inr [OF pool' a2]
  have ne: "ipA \<noteq> ipB" using okB(2) okA(4) by auto
  have st: "Get (store sB) j = (if j = k then Some (new_peer now reqB clB eB tB ipB) else Get (store s) j)" for j
    using A B by (simp add: sB_def sA_def store_simps)
  have "p_IP q \<noteq> ipA" if q: "Get (store sB) j = Some q" for j q
  proof (cases "j = k")
    case True
    with q st ne show ?thesis by auto
  next
    case False
    with q st have "Get (store s) j = Some q" by simp
    from srv_inv_peer(4) [OF inv this] okA(2) show ?thesis by auto
  qed
  moreover have "ipA \<in> taken (alloc sB)" using okA(4) okB(4) by (simp add: sB_def sA_def)
  moreover have "overlapping_enrolls now pub reqA clA eA tA reqB clB eB tB s =
      (Ok (enroll_reply s eA tA ipA, sA), Ok (enroll_reply s eB tB ipB, sB))"
    by (simp add: overlapping_enrolls_def enroll_finish_def fA fB cA cB Let_def)
  ultimately show ?thesis using ne st [of k] by auto
qed

section \<open>A renewal the reaper does not see\<close>

text \<open>
  The reaper has its list of expired peers; a heartbeat renews one of them; the reaper goes on.
\<close>

definition reap_around ::
    "parse_key \<Rightarrow> time \<Rightarrow> string list \<Rightarrow> ('d Server \<Rightarrow> (response \<times> 'd Server) outcome) \<Rightarrow> 'd Server \<Rightarrow>
       (response \<times> 'd Server) outcome" where
  "reap_around pk now ks request s =
     (let expired = Expired ks (store s) now
      in obind (request s) (\<lambda>(r, s'). Ok (r, reap_loop pk expired s')))"

lemma reap_race:
  assumes inv: "srv_inv p s" and ks: "ranges_over ks (tenants (tstore s))"
    and pks: "ranges_over pks (peers (store s))"
    and q: "Get (store s) k = Some q" "p_LeaseExpiry q \<le> now" "p_Subject q = c_Subject claims"
    and m: "p_Tenant q \<in> tenants_of (tstore s) (Tenancy claims)"
    and reg: "registered now s k claims (now + LeaseTTL (cfg s)) = Some e"
  shows "\<exists>s'. reap_around pk now pks (handleHeartbeat now ks (Inr k) claims) s =
      Ok (writeJSON 200 (HeartbeatBody e), s') \<and> Get (store s') k = None"
proof -
  have h: "handleHeartbeat now ks (Inr k) claims s =
      Ok (writeJSON 200 (HeartbeatBody e), s\<lparr>store := snd (Renew (store s) k e)\<rparr>)"
    using q m reg by (simp add: handleHeartbeat_def decode_def IsMember_Ok [OF srv_invD(2) [OF inv] ks])
  have "k \<in> p_PublicKey ` set (Expired pks (store s) now)"
    using set_Expired [OF pks, of q now] q srv_inv_peer(1) [OF inv q(1)] by (auto simp: image_iff)
  with h show ?thesis by (simp add: reap_around_def Let_def reap_loop_Get)
qed

end
