(* ===== verification/Ssf_Poll.thy ===== *)
theory Ssf_Poll
  imports Go_Strings
begin

text \<open>
  \<open>internal/ssfpoll\<close>: the poller that turns a Shared Signals event into an early fetch of the
  key list. Its state is the poller's fields, the pending flag of the \<open>kick\<close> channel (a buffer
  of one) and the log of the requests it has sent, with those its \<open>http.Client\<close> sends on its
  own when it follows a redirect. The answers of the network are a function of that log and the
  request; \<open>url.Parse\<close>, the resolution of a \<open>Location\<close>, \<open>url.QueryEscape\<close> and the JSON
  decoders the poller uses are arguments, a decoder that can leave a partly filled value returning
  it with its error.
\<close>

datatype auth_header = NoAuth | BearerAuth string | BasicAuth string string

datatype content = NoContent | PollContent "string list" | StreamContent | TokenForm

record http_request =
  rq_Method :: string
  rq_URL :: string
  rq_Auth :: auth_header
  rq_Content :: content

text \<open>
  The body of a response is a document of type \<open>'b\<close>, as the decoders see it; an absent
  \<open>Location\<close> header is the empty text.
\<close>

record 'b http_response =
  hr_Code :: int
  hr_Status :: string
  hr_Location :: string
  hr_Body :: 'b

record stream =
  s_Method :: string
  s_EndpointURL :: string

record token_answer =
  ta_AccessToken :: string
  ta_ExpiresIn :: int
  ta_Error :: string

record URL =
  u_Scheme :: string
  u_Hostname :: string

text \<open>
  The packages the poller calls. \<open>url_Resolve base loc\<close> is \<open>base.Parse(loc)\<close>, the text of the
  URL with its parts.
\<close>

record 'b Env =
  answer :: "http_request list \<Rightarrow> http_request \<Rightarrow> 'b http_response result"
  url_Parse :: "string \<Rightarrow> URL result"
  url_Resolve :: "string \<Rightarrow> string \<Rightarrow> (string \<times> URL) result"
  QueryEscape :: "string \<Rightarrow> string"
  body_text :: "'b \<Rightarrow> string"
  dec_config_endpoint :: "'b \<Rightarrow> string result"
  dec_token_endpoint :: "'b \<Rightarrow> string result"
  dec_raw :: "'b \<Rightarrow> 'b result"
  dec_streams :: "'b \<Rightarrow> stream list \<times> error option"
  dec_stream :: "'b \<Rightarrow> stream \<times> error option"
  dec_created :: "'b \<Rightarrow> stream result"
  dec_sets :: "'b \<Rightarrow> string list result"
  dec_token :: "'b \<Rightarrow> token_answer \<times> error option"

record SsfConfig =
  sc_Issuer :: string
  sc_ClientID :: string
  sc_ClientSecret :: string
  sc_Interval :: duration

record Poller =
  po_cfg :: SsfConfig
  kick_pending :: bool
  tokenURL :: string
  token :: string
  tokenEnd :: time
  pollURL :: string
  acks :: "string list"
  sent :: "http_request list"

definition sec :: duration where
  "sec = 1000000000"

definition deliveryPoll :: string where
  "deliveryPoll = ''urn:ietf:rfc:8936''"

definition wellKnown :: string where
  "wellKnown = ''/.well-known/ssf-configuration''"

definition New_Poller :: "SsfConfig \<Rightarrow> Poller" where
  "New_Poller c =
     \<lparr>po_cfg = c\<lparr>sc_Interval := (if sc_Interval c \<le> 0 then 5 * sec else sc_Interval c),
                 sc_Issuer := trim_char_right CHR ''/'' (sc_Issuer c)\<rparr>,
      kick_pending = False, tokenURL = [], token = [], tokenEnd = 0, pollURL = [], acks = [], sent = []\<rparr>"

section \<open>Requests\<close>

type_synonym 'a act = "Poller \<Rightarrow> 'a result \<times> Poller"

definition act_bind :: "'a act \<Rightarrow> ('a \<Rightarrow> 'b act) \<Rightarrow> 'b act" where
  "act_bind m f p = (case m p of (Inl e, p') \<Rightarrow> (Inl e, p') | (Inr a, p') \<Rightarrow> f a p')"

definition act_return :: "'a \<Rightarrow> 'a act" where
  "act_return a p = (Inr a, p)"

definition act_check :: "error option \<Rightarrow> unit act" where
  "act_check e p = (case e of Some err \<Rightarrow> (Inl err, p) | None \<Rightarrow> (Inr (), p))"

definition act_lift :: "'a result \<Rightarrow> 'a act" where
  "act_lift r p = (r, p)"

definition protected :: "'b Env \<Rightarrow> string \<Rightarrow> error option" where
  "protected env raw =
     (case url_Parse env raw of
        Inl err \<Rightarrow> Some err
      | Inr u \<Rightarrow>
          if u_Scheme u = ''https'' then None
          else if u_Scheme u = ''http'' \<and> u_Hostname u \<in> {''localhost'', ''127.0.0.1'', ''::1''} then None
          else Some (quoted raw @ '' is not https''))"

text \<open>
  The client the poller makes has no \<open>CheckRedirect\<close>, so \<open>Client.Do\<close> follows redirects by
  net/http's own rules. \<open>redirectBehavior\<close>: 301, 302 and 303 turn all but GET and HEAD into a
  GET without the body, 307 and 308 repeat the request; the poller's bodies can be sent again.
\<close>

definition redirectBehavior :: "string \<Rightarrow> int \<Rightarrow> (string \<times> bool) option" where
  "redirectBehavior meth code =
     (if code \<in> {301, 302, 303} then Some (if meth \<in> {''GET'', ''HEAD''} then meth else ''GET'', False)
      else if code \<in> {307, 308} then Some (meth, True)
      else None)"

definition isDomainOrSubdomain :: "string \<Rightarrow> string \<Rightarrow> bool" where
  "isDomainOrSubdomain sub parent \<longleftrightarrow>
     sub = parent \<or>
     (CHR '':'' \<notin> set sub \<and> CHR ''%'' \<notin> set sub \<and> length parent < length sub \<and>
      drop (length sub - length parent - 1) sub = CHR ''.'' # parent)"

definition hostname :: "'b Env \<Rightarrow> string \<Rightarrow> string" where
  "hostname env raw = (case url_Parse env raw of Inl _ \<Rightarrow> [] | Inr u \<Rightarrow> u_Hostname u)"

text \<open>
  The request that follows an answer, if one does. The headers are those of the first request
  \<open>ireq\<close>; once a target is neither its host nor below it, \<open>Authorization\<close> is left out of that
  request and of all later ones, as the body is once a method was changed.
\<close>

definition redirect :: "'b Env \<Rightarrow> http_request \<Rightarrow> http_request \<Rightarrow> 'b http_response \<Rightarrow> http_request option result" where
  "redirect env ireq rq res =
     (case redirectBehavior (rq_Method rq) (hr_Code res) of
        None \<Rightarrow> Inr None
      | Some (meth, body) \<Rightarrow>
          if hr_Location res = [] then Inr None
          else (case url_Resolve env (rq_URL rq) (hr_Location res) of
                  Inl err \<Rightarrow> Inl (''failed to parse Location header '' @ quoted (hr_Location res) @ '': '' @ err)
                | Inr (u, target) \<Rightarrow>
                    Inr (Some \<lparr>rq_Method = meth, rq_URL = u,
                      rq_Auth = (if isDomainOrSubdomain (u_Hostname target) (hostname env (rq_URL ireq))
                                 then rq_Auth rq else NoAuth),
                      rq_Content = (if body then rq_Content rq else NoContent)\<rparr>)))"

text \<open>\<open>Client.do\<close>, with \<open>n\<close> requests allowed after this one, and the log of what was sent.\<close>

fun client_do :: "nat \<Rightarrow> 'b Env \<Rightarrow> http_request \<Rightarrow> http_request \<Rightarrow> http_request list \<Rightarrow>
    'b http_response result \<times> http_request list" where
  "client_do n env ireq rq log =
     (case answer env log rq of
        Inl err \<Rightarrow> (Inl err, log @ [rq])
      | Inr res \<Rightarrow>
          (case redirect env ireq rq res of
             Inl err \<Rightarrow> (Inl err, log @ [rq])
           | Inr None \<Rightarrow> (Inr res, log @ [rq])
           | Inr (Some rq') \<Rightarrow>
               (case n of
                  0 \<Rightarrow> (Inl ''stopped after 10 redirects'', log @ [rq])
                | Suc m \<Rightarrow> client_do m env ireq rq' (log @ [rq]))))"

declare client_do.simps [simp del]

text \<open>
  \<open>http.NewRequestWithContext\<close> refuses a URL \<open>url.Parse\<close> refuses; \<open>Client.Do\<close> sends the
  request, and follows redirects until ten requests have been sent.
\<close>

definition send_request :: "'b Env \<Rightarrow> http_request \<Rightarrow> 'b http_response act" where
  "send_request env rq p =
     (case url_Parse env (rq_URL rq) of
        Inl err \<Rightarrow> (Inl err, p)
      | Inr _ \<Rightarrow> (case client_do 9 env rq rq (sent p) of (r, log) \<Rightarrow> (r, p\<lparr>sent := log\<rparr>)))"

definition po_get :: "'b Env \<Rightarrow> string \<Rightarrow> ('b \<Rightarrow> 'a result) \<Rightarrow> 'a act" where
  "po_get env u dec =
     act_bind (act_check (protected env u)) (\<lambda>_.
     act_bind (send_request env \<lparr>rq_Method = ''GET'', rq_URL = u, rq_Auth = NoAuth, rq_Content = NoContent\<rparr>) (\<lambda>res.
       if hr_Code res \<noteq> 200 then act_lift (Inl (''GET '' @ u @ '': '' @ hr_Status res))
       else act_lift (dec (hr_Body res))))"

text \<open>\<open>time.Duration(out.ExpiresIn) * time.Second\<close>, in 64 bits.\<close>

definition seconds :: "int \<Rightarrow> duration" where
  "seconds n = sint (word_of_int (n * sec) :: 64 word)"

definition token_endpoint :: "'b Env \<Rightarrow> unit act" where
  "token_endpoint env p =
     (if tokenURL p \<noteq> [] then (Inr (), p)
      else act_bind (po_get env (sc_Issuer (po_cfg p) @ ''/.well-known/openid-configuration'') (dec_token_endpoint env))
        (\<lambda>u. case protected env u of
               Some err \<Rightarrow> act_lift (Inl (''the token endpoint: '' @ err))
             | None \<Rightarrow> (\<lambda>p'. (Inr (), p'\<lparr>tokenURL := u\<rparr>))) p)"

definition fetch_token :: "'b Env \<Rightarrow> time \<Rightarrow> string act" where
  "fetch_token env now p =
     act_bind (send_request env
         \<lparr>rq_Method = ''POST'', rq_URL = tokenURL p,
          rq_Auth = BasicAuth (QueryEscape env (sc_ClientID (po_cfg p))) (QueryEscape env (sc_ClientSecret (po_cfg p))),
          rq_Content = TokenForm\<rparr>)
       (\<lambda>res p'. case dec_token env (hr_Body res) of (out, err) \<Rightarrow>
          if err \<noteq> None \<or> ta_AccessToken out = []
          then (Inl (''no SSF token for the gateway ('' @ hr_Status res @ ''): '' @ quoted (ta_Error out) @ '' '' @
                     (case err of None \<Rightarrow> ''<nil>'' | Some e \<Rightarrow> e)), p')
          else (Inr (ta_AccessToken out),
                p'\<lparr>token := ta_AccessToken out, tokenEnd := now + seconds (ta_ExpiresIn out)\<rparr>)) p"

definition bearer :: "'b Env \<Rightarrow> time \<Rightarrow> string act" where
  "bearer env now p =
     (if token p \<noteq> [] \<and> 30 * sec < tokenEnd p - now then (Inr (token p), p)
      else act_bind (token_endpoint env) (\<lambda>_. fetch_token env now) p)"

definition po_call ::
    "'b Env \<Rightarrow> time \<Rightarrow> string \<Rightarrow> string \<Rightarrow> content \<Rightarrow> ('b \<Rightarrow> 'a result) \<Rightarrow> 'a act" where
  "po_call env now meth u body dec =
     act_bind (act_check (protected env u)) (\<lambda>_.
     act_bind (bearer env now) (\<lambda>tok.
     act_bind (send_request env \<lparr>rq_Method = meth, rq_URL = u, rq_Auth = BearerAuth tok, rq_Content = body\<rparr>)
       (\<lambda>res p.
          if hr_Code res div 100 \<noteq> 2
          then (Inl (meth @ '' '' @ u @ '': '' @ hr_Status res @ '' '' @ TrimSpace (take 1024 (body_text env (hr_Body res)))),
                if hr_Code res = 401 then p\<lparr>token := []\<rparr> else p)
          else (dec (hr_Body res), p))))"

section \<open>The stream\<close>

definition usable :: "stream \<Rightarrow> bool" where
  "usable s \<longleftrightarrow> s_Method s = deliveryPoll \<and> s_EndpointURL s \<noteq> []"

definition parse_streams :: "'b Env \<Rightarrow> 'b \<Rightarrow> stream list" where
  "parse_streams env raw =
     (case dec_streams env raw of
        (streams, None) \<Rightarrow> streams
      | (streams, Some _) \<Rightarrow>
          (case dec_stream env raw of
             (one, err) \<Rightarrow> if err = None \<and> s_Method one \<noteq> [] then [one] else streams))"

definition setup_stream :: "'b Env \<Rightarrow> time \<Rightarrow> unit act" where
  "setup_stream env now p =
     act_bind (po_get env (sc_Issuer (po_cfg p) @ wellKnown) (dec_config_endpoint env)) (\<lambda>ep.
       if ep = [] then act_lift (Inl ''the provider publishes no SSF configuration endpoint'')
       else act_bind (po_call env now ''GET'' ep NoContent (dec_raw env)) (\<lambda>raw.
         case find usable (parse_streams env raw) of
           Some s \<Rightarrow> (\<lambda>p'. (Inr (), p'\<lparr>pollURL := s_EndpointURL s\<rparr>))
         | None \<Rightarrow>
             act_bind (po_call env now ''POST'' ep StreamContent (dec_created env)) (\<lambda>created.
               if s_EndpointURL created = []
               then act_lift (Inl ''the provider created a stream with no poll endpoint'')
               else (\<lambda>p'. (Inr (), p'\<lparr>pollURL := s_EndpointURL created\<rparr>))))) p"

text \<open>
  \<open>Once\<close>: the poll, its acknowledgements and the kick. \<open>PollContent\<close> carries the
  acknowledgements; an empty list stands for a body without the \<open>ack\<close> member.
\<close>

definition poll_once :: "'b Env \<Rightarrow> time \<Rightarrow> unit act" where
  "poll_once env now p =
     act_bind (po_call env now ''POST'' (pollURL p) (PollContent (acks p)) (dec_sets env))
       (\<lambda>jtis p'. (Inr (), p'\<lparr>acks := jtis, kick_pending := kick_pending p' \<or> jtis \<noteq> []\<rparr>)) p"

definition Once :: "'b Env \<Rightarrow> time \<Rightarrow> unit act" where
  "Once env now p =
     (if pollURL p = [] then act_bind (setup_stream env now) (\<lambda>_. poll_once env now) p
      else poll_once env now p)"

text \<open>One turn of \<open>Run\<close>, and the loop over the instants of its ticks.\<close>

definition poll_turn :: "'b Env \<Rightarrow> time \<Rightarrow> Poller \<Rightarrow> Poller" where
  "poll_turn env now p =
     (case Once env now p of
        (Inl _, p') \<Rightarrow> p'\<lparr>pollURL := []\<rparr>
      | (Inr _, p') \<Rightarrow> p')"

fun Run_Poller :: "'b Env \<Rightarrow> time list \<Rightarrow> Poller \<Rightarrow> Poller" where
  "Run_Poller env [] p = p"
| "Run_Poller env (now # ticks) p = Run_Poller env ticks (poll_turn env now p)"

section \<open>What the client sends\<close>

lemma client_do_length: "length (snd (client_do n env ireq rq log)) \<le> length log + Suc n"
proof (induction n arbitrary: rq log)
  case (Suc n)
  show ?case
    using Suc.IH [of _ "log @ [rq]"] by (subst client_do.simps) (simp split: sum.splits option.splits)
qed (simp add: client_do.simps split: sum.splits option.splits)

text \<open>An answer reached over the requests \<open>via\<close>, each the redirect of the answer before it.\<close>

fun redirects :: "'b Env \<Rightarrow> http_request \<Rightarrow> http_request list \<Rightarrow> http_request \<Rightarrow> http_request list \<Rightarrow> 'b http_response \<Rightarrow> bool" where
  "redirects env ireq log rq [] res \<longleftrightarrow> answer env log rq = Inr res \<and> redirect env ireq rq res = Inr None"
| "redirects env ireq log rq (rq' # via) res \<longleftrightarrow>
     (\<exists>res1. answer env log rq = Inr res1 \<and> redirect env ireq rq res1 = Inr (Some rq')) \<and>
     redirects env ireq (log @ [rq]) rq' via res"

lemma client_do_Inr:
  "client_do n env ireq rq log = (Inr res, log') \<Longrightarrow>
   \<exists>via. log' = log @ rq # via \<and> length via \<le> n \<and> redirects env ireq log rq via res"
proof (induction n arbitrary: rq log)
  case 0
  then show ?case by (subst (asm) client_do.simps) (auto intro!: exI [of _ "[]"] split: sum.splits option.splits)
next
  case (Suc n)
  obtain res1 where a: "answer env log rq = Inr res1"
    using Suc.prems by (subst (asm) client_do.simps) (auto split: sum.splits)
  obtain o' where r: "redirect env ireq rq res1 = Inr o'"
    using Suc.prems a by (subst (asm) client_do.simps) (auto split: sum.splits)
  show ?case
  proof (cases o')
    case None
    with Suc.prems a r show ?thesis by (subst (asm) client_do.simps) (auto intro!: exI [of _ "[]"])
  next
    case (Some rq')
    with Suc.prems a r have "client_do n env ireq rq' (log @ [rq]) = (Inr res, log')"
      by (subst (asm) client_do.simps) simp
    from Suc.IH [OF this] obtain via where
      "log' = (log @ [rq]) @ rq' # via" "length via \<le> n" "redirects env ireq (log @ [rq]) rq' via res" by blast
    with a r Some show ?thesis by (intro exI [of _ "rq' # via"]) simp
  qed
qed

text \<open>Request \<open>i\<close> of a log follows from the answer to the one before it, on behalf of \<open>ireq\<close>.\<close>

definition follows :: "'b Env \<Rightarrow> http_request list \<Rightarrow> nat \<Rightarrow> http_request \<Rightarrow> bool" where
  "follows env log i ireq \<longleftrightarrow>
     0 < i \<and> rq_Auth (log ! i) \<in> {NoAuth, rq_Auth ireq} \<and>
     (\<exists>res. answer env (take (i - 1) log) (log ! (i - 1)) = Inr res \<and>
        redirect env ireq (log ! (i - 1)) res = Inr (Some (log ! i)))"

text \<open>Every request was checked by the poller, or is a redirect of one that was.\<close>

definition accounted :: "'b Env \<Rightarrow> http_request list \<Rightarrow> nat \<Rightarrow> bool" where
  "accounted env log i \<longleftrightarrow>
     protected env (rq_URL (log ! i)) = None \<or>
     (\<exists>ireq \<in> set (take i log). protected env (rq_URL ireq) = None \<and> follows env log i ireq)"

definition all_accounted :: "'b Env \<Rightarrow> http_request list \<Rightarrow> bool" where
  "all_accounted env log \<longleftrightarrow> (\<forall>i < length log. accounted env log i)"

lemma accounted_append: "i < length log \<Longrightarrow> accounted env (log @ log2) i = accounted env log i"
  by (cases i) (simp_all add: accounted_def follows_def nth_append)

lemma all_accounted_snoc:
  "all_accounted env (log @ [rq]) \<longleftrightarrow> all_accounted env log \<and> accounted env (log @ [rq]) (length log)"
  by (auto simp: all_accounted_def accounted_append less_Suc_eq)

lemma redirect_auth:
  "redirect env ireq rq res = Inr (Some rq') \<Longrightarrow> rq_Auth rq' = rq_Auth rq \<or> rq_Auth rq' = NoAuth"
  by (auto simp: redirect_def split: option.splits sum.splits if_splits)

lemma redirect_Some:
  assumes "redirect env ireq rq res = Inr (Some rq')"
  shows "hr_Code res \<in> {301, 302, 303, 307, 308}"
    and "\<exists>target. url_Resolve env (rq_URL rq) (hr_Location res) = Inr (rq_URL rq', target) \<and>
      (rq_Auth rq' = NoAuth \<or> isDomainOrSubdomain (u_Hostname target) (hostname env (rq_URL ireq)))"
  using assms by (auto simp: redirect_def redirectBehavior_def split: sum.splits if_splits)

lemma follows_last:
  assumes "answer env log rq = Inr res" "redirect env ireq rq res = Inr (Some rq')" "rq_Auth rq \<in> {NoAuth, rq_Auth ireq}"
  shows "follows env ((log @ [rq]) @ [rq']) (length (log @ [rq])) ireq"
  using assms redirect_auth [OF assms(2)] by (auto simp: follows_def nth_append)

lemma client_do_accounted:
  assumes "all_accounted env (log @ [rq])" "protected env (rq_URL ireq) = None"
    "ireq \<in> set (log @ [rq])" "rq_Auth rq \<in> {NoAuth, rq_Auth ireq}"
  shows "all_accounted env (snd (client_do n env ireq rq log))"
  using assms
proof (induction n arbitrary: rq log)
  case 0
  then show ?case by (subst client_do.simps) (simp split: sum.splits option.splits)
next
  case (Suc n)
  have "all_accounted env (snd (client_do n env ireq rq' (log @ [rq])))"
    if "answer env log rq = Inr res" "redirect env ireq rq res = Inr (Some rq')" for res rq'
  proof (rule Suc.IH)
    have "follows env ((log @ [rq]) @ [rq']) (length (log @ [rq])) ireq"
      by (rule follows_last [OF that Suc.prems(4)])
    with Suc.prems(2,3) have "accounted env ((log @ [rq]) @ [rq']) (length (log @ [rq]))"
      unfolding accounted_def by (intro disjI2 bexI [of _ ireq]) simp_all
    with Suc.prems(1) show "all_accounted env ((log @ [rq]) @ [rq'])"
      using all_accounted_snoc [of env "log @ [rq]" rq'] by simp
    show "rq_Auth rq' \<in> {NoAuth, rq_Auth ireq}"
      using redirect_auth [OF that(2)] Suc.prems(4) by auto
  qed (use Suc.prems in auto)
  then show ?case
    using Suc.prems(1) by (subst client_do.simps) (simp split: sum.splits option.splits)
qed

section \<open>Nothing the poller asks for itself leaves in the clear\<close>

definition guarded :: "'b Env \<Rightarrow> Poller \<Rightarrow> bool" where
  "guarded env p \<longleftrightarrow>
     all_accounted env (sent p) \<and>
     (tokenURL p \<noteq> [] \<longrightarrow> protected env (tokenURL p) = None)"

text \<open>An action that keeps the invariant, whatever it returns.\<close>

definition keeps :: "(Poller \<Rightarrow> bool) \<Rightarrow> 'a act \<Rightarrow> bool" where
  "keeps P m \<longleftrightarrow> (\<forall>p. P p \<longrightarrow> P (snd (m p)))"

lemma keepsD: "keeps P m \<Longrightarrow> P p \<Longrightarrow> P (snd (m p))"
  by (simp add: keeps_def)

lemma keeps_bind:
  assumes m: "keeps P m" and f: "\<And>a p p'. m p = (Inr a, p') \<Longrightarrow> P p \<Longrightarrow> P p' \<Longrightarrow> P (snd (f a p'))"
  shows "keeps P (act_bind m f)"
  unfolding keeps_def
proof (intro allI impI)
  fix p assume p: "P p"
  obtain r p' where r: "m p = (r, p')" by (cases "m p")
  with keepsD [OF m p] have "P p'" by simp
  with r p f [of p] show "P (snd (act_bind m f p))" by (cases r) (auto simp: act_bind_def)
qed

lemma keeps_pure [simp]: "keeps P (act_lift r)" "keeps P (act_check e)" "keeps P (act_return a)"
  by (auto simp: keeps_def act_lift_def act_check_def act_return_def split: option.splits)

lemma act_bind_state:
  "P p \<Longrightarrow> keeps P m \<Longrightarrow> (\<And>a p'. m p = (Inr a, p') \<Longrightarrow> P p' \<Longrightarrow> P (snd (f a p'))) \<Longrightarrow> P (snd (act_bind m f p))"
  using keepsD [of P m p] by (cases "m p"; cases "fst (m p)") (auto simp: act_bind_def)

lemma act_check_Inr [simp]: "act_check e p = (Inr u, p') \<longleftrightarrow> e = None \<and> p' = p"
  by (cases e) (auto simp: act_check_def)

lemma guarded_send:
  "protected env (rq_URL rq) = None \<Longrightarrow> guarded env p \<Longrightarrow> guarded env (snd (send_request env rq p))"
  using client_do_accounted [of env "sent p" rq rq 9]
  by (auto simp: send_request_def guarded_def all_accounted_snoc accounted_def split: sum.splits prod.splits)

lemma guarded_frame [simp]:
  "guarded env (p\<lparr>pollURL := u\<rparr>) = guarded env p" "guarded env (p\<lparr>token := t\<rparr>) = guarded env p"
  "guarded env (p\<lparr>tokenEnd := e\<rparr>) = guarded env p" "guarded env (p\<lparr>acks := a\<rparr>) = guarded env p"
  "guarded env (p\<lparr>kick_pending := k\<rparr>) = guarded env p"
  by (simp_all add: guarded_def)

lemma guarded_tokenURL: "guarded env p \<Longrightarrow> protected env u = None \<Longrightarrow> guarded env (p\<lparr>tokenURL := u\<rparr>)"
  by (simp add: guarded_def)

text \<open>A request to a protected URL, and what is done with its answer.\<close>

lemma guarded_send_bind:
  assumes "guarded env p" "protected env (rq_URL rq) = None"
    and "\<And>res p'. guarded env p' \<Longrightarrow> guarded env (snd (f res p'))"
  shows "guarded env (snd (act_bind (send_request env rq) f p))"
proof -
  obtain r p' where r: "send_request env rq p = (r, p')" by (cases "send_request env rq p")
  with guarded_send [OF assms(2,1)] have "guarded env p'" by simp
  with r assms(3) show ?thesis by (cases r) (auto simp: act_bind_def)
qed

lemma guarded_checked:
  assumes "guarded env p" "protected env u = None \<Longrightarrow> guarded env (snd (f () p))"
  shows "guarded env (snd (act_bind (act_check (protected env u)) f p))"
  using assms by (cases "protected env u") (simp_all add: act_bind_def act_check_def)

lemma guarded_get: "keeps (guarded env) (po_get env u dec)"
proof -
  have "guarded env (snd (po_get env u dec p))" if g: "guarded env p" for p
    unfolding po_get_def
    by (rule guarded_checked [OF g], rule guarded_send_bind [OF g]) (simp_all add: act_lift_def)
  then show ?thesis by (simp add: keeps_def)
qed

lemma guarded_token_endpoint: "keeps (guarded env) (token_endpoint env)"
proof -
  have "guarded env (snd (token_endpoint env p))" if g: "guarded env p" for p
  proof (cases "tokenURL p = []")
    case True
    show ?thesis
      unfolding token_endpoint_def if_not_P [OF not_not [THEN iffD2, OF True]]
      by (rule act_bind_state [where P = "guarded env", OF g guarded_get])
        (simp add: act_lift_def guarded_tokenURL split: option.splits)
  qed (use g in \<open>simp add: token_endpoint_def\<close>)
  then show ?thesis by (simp add: keeps_def)
qed

lemma token_endpoint_Inr:
  assumes "guarded env p" "token_endpoint env p = (Inr x, p')"
  shows "protected env (tokenURL p') = None"
  using assms
  by (auto simp: token_endpoint_def act_bind_def act_lift_def guarded_def
      split: if_splits prod.splits sum.splits option.splits)

lemma guarded_bearer: "keeps (guarded env) (bearer env now)"
proof -
  have "guarded env (snd (bearer env now p))" if g: "guarded env p" for p
  proof (cases "token p \<noteq> [] \<and> 30 * sec < tokenEnd p - now")
    case False
    show ?thesis
      unfolding bearer_def if_not_P [OF False]
    proof (rule act_bind_state [where P = "guarded env", OF g guarded_token_endpoint])
      fix a p'
      assume t: "token_endpoint env p = (Inr a, p')" and g': "guarded env p'"
      show "guarded env (snd (fetch_token env now p'))"
        unfolding fetch_token_def
        by (rule guarded_send_bind [OF g'])
          (simp_all add: token_endpoint_Inr [OF g t] split: prod.splits)
    qed
  qed (use g in \<open>simp add: bearer_def\<close>)
  then show ?thesis by (simp add: keeps_def)
qed

lemma guarded_call: "keeps (guarded env) (po_call env now meth u body dec)"
proof -
  have "guarded env (snd (po_call env now meth u body dec p))" if g: "guarded env p" for p
    unfolding po_call_def
  proof (rule guarded_checked [OF g])
    assume u: "protected env u = None"
    show "guarded env (snd (act_bind (bearer env now) (\<lambda>tok.
       act_bind (send_request env \<lparr>rq_Method = meth, rq_URL = u, rq_Auth = BearerAuth tok, rq_Content = body\<rparr>)
       (\<lambda>res p. if hr_Code res div 100 \<noteq> 2
          then (Inl (meth @ '' '' @ u @ '': '' @ hr_Status res @ '' '' @ TrimSpace (take 1024 (body_text env (hr_Body res)))),
                if hr_Code res = 401 then p\<lparr>token := []\<rparr> else p)
          else (dec (hr_Body res), p))) p))"
      by (rule act_bind_state [where P = "guarded env", OF g guarded_bearer], rule guarded_send_bind)
        (simp_all add: u)
  qed
  then show ?thesis by (simp add: keeps_def)
qed

text \<open>What every request keeps, and choosing the stream keeps, the set-up keeps.\<close>

lemma keeps_setup:
  fixes env :: "'b Env"
  assumes get: "\<And>u (dec :: 'b \<Rightarrow> string result). keeps P (po_get env u dec)"
    and call: "\<And>meth u body (dec :: 'b \<Rightarrow> 'b result). keeps P (po_call env now meth u body dec)"
    and post: "\<And>meth u body (dec :: 'b \<Rightarrow> stream result). keeps P (po_call env now meth u body dec)"
    and url: "\<And>p u. P p \<Longrightarrow> P (p\<lparr>pollURL := u\<rparr>)"
  shows "keeps P (setup_stream env now)"
proof -
  define create where "create ep = act_bind (po_call env now ''POST'' ep StreamContent (dec_created env)) (\<lambda>created.
      if s_EndpointURL created = []
      then act_lift (Inl ''the provider created a stream with no poll endpoint'')
      else (\<lambda>p'. (Inr (), p'\<lparr>pollURL := s_EndpointURL created\<rparr>)))" for ep
  define pick where "pick ep = act_bind (po_call env now ''GET'' ep NoContent (dec_raw env)) (\<lambda>raw.
      case find usable (parse_streams env raw) of
        Some s \<Rightarrow> (\<lambda>p'. (Inr (), p'\<lparr>pollURL := s_EndpointURL s\<rparr>))
      | None \<Rightarrow> create ep)" for ep
  have cr: "keeps P (create ep)" for ep
    unfolding create_def by (rule keeps_bind [OF post]) (simp add: act_lift_def url)
  have ch: "keeps P (pick ep)" for ep
    unfolding pick_def by (rule keeps_bind [OF call]) (simp add: keepsD [OF cr] url split: option.splits)
  have "P (snd (setup_stream env now p))" if "P p" for p
    unfolding setup_stream_def create_def [symmetric] pick_def [symmetric]
    by (rule act_bind_state [where P = P, OF that get]) (simp add: act_lift_def keepsD [OF ch])
  then show ?thesis by (simp add: keeps_def)
qed

lemma guarded_setup: "keeps (guarded env) (setup_stream env now)"
  by (rule keeps_setup) (simp_all add: guarded_get guarded_call)

lemma guarded_poll_once: "keeps (guarded env) (poll_once env now)"
proof -
  have "guarded env (snd (poll_once env now p))" if "guarded env p" for p
    unfolding poll_once_def
    by (rule act_bind_state [where P = "guarded env", OF that guarded_call]) simp
  then show ?thesis by (simp add: keeps_def)
qed

lemma guarded_Once: "keeps (guarded env) (Once env now)"
proof -
  have "keeps (guarded env) (act_bind (setup_stream env now) (\<lambda>_. poll_once env now))"
    by (rule keeps_bind [OF guarded_setup]) (simp add: keepsD [OF guarded_poll_once])
  then show ?thesis
    using guarded_poll_once [of env now] by (simp add: keeps_def Once_def)
qed

lemma guarded_turn: "guarded env p \<Longrightarrow> guarded env (poll_turn env now p)"
  using keepsD [OF guarded_Once, of env p now]
  by (cases "Once env now p"; cases "fst (Once env now p)") (auto simp: poll_turn_def)

lemma guarded_Run: "guarded env p \<Longrightarrow> guarded env (Run_Poller env ticks p)"
  by (induction ticks arbitrary: p) (simp_all add: guarded_turn)

section \<open>Events are acknowledged once they have been acted on\<close>

lemma act_bind_Inr: "act_bind m f p = (Inr b, p') \<longleftrightarrow> (\<exists>a p1. m p = (Inr a, p1) \<and> f a p1 = (Inr b, p'))"
  by (auto simp: act_bind_def split: prod.splits sum.splits)

lemma act_bind_Inl:
  "act_bind m f p = (Inl e, p') \<longleftrightarrow> m p = (Inl e, p') \<or> (\<exists>a p1. m p = (Inr a, p1) \<and> f a p1 = (Inl e, p'))"
  by (auto simp: act_bind_def split: prod.splits sum.splits)

text \<open>Requests touch neither the pending acknowledgements nor the kick.\<close>

definition same_events :: "Poller \<Rightarrow> Poller \<Rightarrow> bool" where
  "same_events q p \<longleftrightarrow> acks p = acks q \<and> kick_pending p = kick_pending q"

lemma same_send: "keeps (same_events q) (send_request env rq)"
  by (auto simp: keeps_def same_events_def send_request_def split: sum.splits prod.splits)

lemma same_get: "keeps (same_events q) (po_get env u dec)"
  unfolding po_get_def
  by (rule keeps_bind [OF keeps_pure(2)], rule keepsD, rule keeps_bind [OF same_send])
    (simp_all add: act_lift_def)

lemma same_bearer: "keeps (same_events q) (bearer env now)"
proof -
  have ep: "keeps (same_events q) (token_endpoint env)"
  proof -
    have "same_events q (snd (token_endpoint env p))" if "same_events q p" for p
      using that keepsD [OF same_get that, of env "sc_Issuer (po_cfg p) @ ''/.well-known/openid-configuration''" "dec_token_endpoint env"]
      by (auto simp: token_endpoint_def act_bind_def act_lift_def same_events_def
          split: prod.splits sum.splits option.splits)
    then show ?thesis by (simp add: keeps_def)
  qed
  have "same_events q (snd (fetch_token env now p))" if "same_events q p" for p
    unfolding fetch_token_def
    by (rule act_bind_state [where P = "same_events q", OF that same_send])
      (simp add: same_events_def split: prod.splits)
  then have "keeps (same_events q) (act_bind (token_endpoint env) (\<lambda>_. fetch_token env now))"
    by (intro keeps_bind [OF ep])
  then show ?thesis by (simp add: keeps_def bearer_def)
qed

lemma same_call: "keeps (same_events q) (po_call env now meth u body dec)"
  unfolding po_call_def
  by (rule keeps_bind [OF keeps_pure(2)], rule keepsD, rule keeps_bind [OF same_bearer], rule keepsD,
      rule keeps_bind [OF same_send]) (simp_all add: same_events_def)

lemma same_setup: "keeps (same_events q) (setup_stream env now)"
  by (rule keeps_setup) (simp_all add: same_get same_call, simp add: same_events_def)

text \<open>
  A poll that failed leaves the acknowledgements as they were, to be sent again; one that
  succeeded sent them, and has those of the events it returned, with a kick if there were any.
\<close>

lemma poll_once_cases:
  assumes "poll_once env now p = (r, p')"
  shows "(\<exists>e. r = Inl e \<and> same_events p p') \<or>
    (\<exists>p1. r = Inr () \<and> same_events p p1 \<and>
      (\<exists>jtis. po_call env now ''POST'' (pollURL p) (PollContent (acks p)) (dec_sets env) p = (Inr jtis, p1) \<and>
        p' = p1\<lparr>acks := jtis, kick_pending := kick_pending p1 \<or> jtis \<noteq> []\<rparr>))"
proof -
  let ?call = "po_call env now ''POST'' (pollURL p) (PollContent (acks p)) (dec_sets env) p"
  have "same_events p (snd ?call)"
    by (rule keepsD [OF same_call]) (simp add: same_events_def)
  then show ?thesis
    using assms by (cases ?call; cases "fst ?call") (auto simp: poll_once_def act_bind_def)
qed

text \<open>
  A call that succeeded sent its request, with nothing after it but redirects of its answer, and
  decoded the answer it came to.
\<close>

lemma po_call_Inr:
  assumes "po_call env now meth u body dec p = (Inr x, p')"
  defines "rq tok \<equiv> \<lparr>rq_Method = meth, rq_URL = u, rq_Auth = BearerAuth tok, rq_Content = body\<rparr>"
  shows "\<exists>tok hist via res. sent p' = hist @ rq tok # via \<and> length via < 10 \<and>
    redirects env (rq tok) hist (rq tok) via res \<and>
    hr_Code res div 100 = 2 \<and> dec (hr_Body res) = Inr x"
proof -
  obtain tok p1 p2 res where s: "send_request env (rq tok) p1 = (Inr res, p2)"
    and r: "hr_Code res div 100 = 2" "dec (hr_Body res) = Inr x" "p' = p2"
    using assms(1) unfolding rq_def by (auto simp: po_call_def act_bind_Inr split: if_splits)
  obtain log where "client_do 9 env (rq tok) (rq tok) (sent p1) = (Inr res, log)" "sent p2 = log"
    using s by (auto simp: send_request_def split: sum.splits prod.splits)
  with client_do_Inr [of 9 env "rq tok" "rq tok" "sent p1" res log] r show ?thesis by force
qed

lemma poll_once_Inr:
  assumes "poll_once env now p = (Inr y, p')"
  shows "\<exists>rq hist via res jtis. (\<exists>tok. rq = \<lparr>rq_Method = ''POST'', rq_URL = pollURL p, rq_Auth = BearerAuth tok,
        rq_Content = PollContent (acks p)\<rparr>) \<and>
    sent p' = hist @ rq # via \<and> length via < 10 \<and> redirects env rq hist rq via res \<and>
    hr_Code res div 100 = 2 \<and> dec_sets env (hr_Body res) = Inr jtis \<and>
    acks p' = jtis \<and> kick_pending p' = (kick_pending p \<or> jtis \<noteq> [])"
  using poll_once_cases [OF assms] po_call_Inr
  by (fastforce simp: same_events_def)

text \<open>\<open>Once\<close>, with the set-up before it if there is no stream.\<close>

lemma Once_cases:
  "(\<exists>e p'. Once env now p = (Inl e, p') \<and> same_events p p') \<or>
   (\<exists>p' u rq hist via res jtis. Once env now p = (Inr (), p') \<and>
      (\<exists>tok. rq = \<lparr>rq_Method = ''POST'', rq_URL = u, rq_Auth = BearerAuth tok, rq_Content = PollContent (acks p)\<rparr>) \<and>
      sent p' = hist @ rq # via \<and> length via < 10 \<and> redirects env rq hist rq via res \<and>
      hr_Code res div 100 = 2 \<and> dec_sets env (hr_Body res) = Inr jtis \<and>
      acks p' = jtis \<and> kick_pending p' = (kick_pending p \<or> jtis \<noteq> []) \<and> (pollURL p = [] \<or> u = pollURL p))"
proof -
  define q where "q = (if pollURL p = [] then snd (setup_stream env now p) else p)"
  have q: "same_events p q"
    using keepsD [OF same_setup, of p p env now] by (simp add: q_def same_events_def)
  show ?thesis
  proof (cases "pollURL p = [] \<and> isl (fst (setup_stream env now p))")
    case True
    with q show ?thesis
      by (cases "setup_stream env now p"; cases "fst (setup_stream env now p)")
        (auto simp: Once_def act_bind_def q_def)
  next
    case False
    then have o: "Once env now p = poll_once env now q"
      by (cases "setup_stream env now p"; cases "fst (setup_stream env now p)")
        (auto simp: Once_def act_bind_def q_def)
    obtain r p' where r: "poll_once env now q = (r, p')" by (cases "poll_once env now q")
    show ?thesis
    proof (cases r)
      case (Inl e)
      with poll_once_cases [OF r] q o r show ?thesis by (auto simp: same_events_def)
    next
      case (Inr x)
      have "pollURL p = [] \<or> pollURL q = pollURL p" by (simp add: q_def)
      with poll_once_Inr [OF r [unfolded Inr]] q o r Inr show ?thesis
        by (simp add: same_events_def) blast
    qed
  qed
qed

end
