(* ===== verification/Sample.thy ===== *)
theory Sample
  imports Races Ssf_Poll
begin

text \<open>
  A small concrete world, for evaluating the definitions and for showing that the hypotheses of
  the theorems can hold together: a WireGuard device kept as a list of peers, a configuration
  with the pool \<open>10.80.0.0/24\<close>, a server with nobody enrolled and one with one device.
\<close>

section \<open>A device in memory\<close>

type_synonym mem_dev = "WGPeer list"

definition mem_view :: "mem_dev view" where
  "mem_view d = fmap_of_list (map (\<lambda>p. (wp_PublicKey p, wp_AllowedIPs p)) d)"

definition mem_apply :: "PeerConfig \<Rightarrow> mem_dev \<Rightarrow> mem_dev" where
  "mem_apply pc d =
     (let rest = filter (\<lambda>p. wp_PublicKey p \<noteq> pc_PublicKey pc) d;
          old = concat (map wp_AllowedIPs (filter (\<lambda>p. wp_PublicKey p = pc_PublicKey pc) d))
      in if pc_Remove pc then rest
         else \<lparr>wp_PublicKey = pc_PublicKey pc,
               wp_AllowedIPs = (if pc_ReplaceAllowedIPs pc then [] else old) @ pc_AllowedIPs pc\<rparr> #
              map (\<lambda>p. p\<lparr>wp_AllowedIPs := filter (\<lambda>n. n \<notin> set (pc_AllowedIPs pc)) (wp_AllowedIPs p)\<rparr>) rest)"

definition mem_configure :: "mem_dev configure" where
  "mem_configure ifc cfgs d = (fold mem_apply cfgs d, None)"

definition mem_device :: "string \<Rightarrow> mem_dev \<Rightarrow> WGPeer list result" where
  "mem_device ifc d = (if distinct (map wp_PublicKey d) then Inr d else Inl ''two peers with one key'')"

lemma mem_view_filter:
  "fmlookup (mem_view (filter (\<lambda>p. wp_PublicKey p \<noteq> k) d)) x = (if x = k then None else fmlookup (mem_view d) x)"
  unfolding mem_view_def by (induction d) (auto simp: fmlookup_of_list)

lemma mem_view_map:
  "fmlookup (mem_view (map (\<lambda>p. p\<lparr>wp_AllowedIPs := f (wp_AllowedIPs p)\<rparr>) d)) x = map_option f (fmlookup (mem_view d) x)"
  unfolding mem_view_def by (induction d) (auto simp: fmlookup_of_list)

lemma mem_view_list:
  assumes "distinct (map wp_PublicKey d)"
  shows "fmlookup (mem_view d) k = Some as \<longleftrightarrow> (\<exists>p \<in> set d. wp_PublicKey p = k \<and> wp_AllowedIPs p = as)"
  using assms unfolding mem_view_def by (auto simp: fmlookup_of_list map_of_eq_Some_iff image_iff comp_def)

lemma mem_wgctrl_ok: "wgctrl_ok mem_view mem_configure mem_device ifc"
  unfolding wgctrl_ok_def
proof (intro conjI allI impI)
  fix pc d d' k
  assume c: "mem_configure ifc [pc] d = (d', None)"
  show "mem_view d' = fmdrop (pc_PublicKey pc) (mem_view d)" if "pc_Remove pc"
    using c that by (intro fmap_ext) (auto simp: mem_configure_def mem_apply_def mem_view_filter)
  show "fmlookup (mem_view d') k = (if k = pc_PublicKey pc then Some (pc_AllowedIPs pc)
      else map_option (filter (\<lambda>n. n \<notin> set (pc_AllowedIPs pc))) (fmlookup (mem_view d) k))"
    if "\<not> pc_Remove pc" "pc_ReplaceAllowedIPs pc"
  proof -
    let ?rest = "map (\<lambda>p. p\<lparr>wp_AllowedIPs := filter (\<lambda>n. n \<notin> set (pc_AllowedIPs pc)) (wp_AllowedIPs p)\<rparr>)
      (filter (\<lambda>p. wp_PublicKey p \<noteq> pc_PublicKey pc) d)"
    have "d' = \<lparr>wp_PublicKey = pc_PublicKey pc, wp_AllowedIPs = pc_AllowedIPs pc\<rparr> # ?rest"
      using c that by (simp add: mem_configure_def mem_apply_def Let_def)
    then have "fmlookup (mem_view d') k =
        (if k = pc_PublicKey pc then Some (pc_AllowedIPs pc) else fmlookup (mem_view ?rest) k)"
      by (simp add: mem_view_def fmlookup_of_list)
    then show ?thesis by (simp add: mem_view_map mem_view_filter)
  qed
next
  fix d ps k as
  assume "mem_device ifc d = Inr ps"
  then have d: "ps = d" "distinct (map wp_PublicKey d)" by (auto simp: mem_device_def split: if_splits)
  then show "distinct (map wp_PublicKey ps)"
    and "fmlookup (mem_view d) k = Some as \<longleftrightarrow> (\<exists>p \<in> set ps. wp_PublicKey p = k \<and> wp_AllowedIPs p = as)"
    using mem_view_list by auto
qed

definition mem_gw :: "mem_dev Gateway" where
  "mem_gw = wgctrlGateway (\<lambda>_. None) mem_configure mem_device ''wg0''"

lemma mem_gateway_ok: "gateway_ok mem_view mem_gw"
  unfolding mem_gw_def by (rule wgctrlGateway_ok [OF mem_wgctrl_ok])

lemma mem_gw_no_error:
  "snd (AddPeer mem_gw pub ip d) = None" "snd (RemovePeer mem_gw pub d) = None"
  by (simp_all add: mem_gw_def wgctrlGateway_def wgctrl_AddPeer_def wgctrl_RemovePeer_def
      mem_configure_def Let_def)

lemma mem_removes: "removes mem_gw"
  by (simp add: removes_def mem_gw_no_error)

section \<open>Keys, people and a server\<close>

text \<open>A key parser that reads a key off its text, and one that skips line feeds as base64 decoding does.\<close>

definition plain_key :: parse_key where
  "plain_key k = (if k = [] then Inl ''wgtypes: incorrect key size: 0'' else Inr (map (\<lambda>c. word_of_nat (of_char c)) k))"

definition loose_key :: parse_key where
  "loose_key k = plain_key (filter (\<lambda>c. c \<noteq> CHR 0x0A) k)"

lemma plain_key_canonical: "canonical plain_key UNIV"
proof -
  have "c = d" if eq: "word_of_nat (of_char c) = (word_of_nat (of_char d) :: u8)" for c d
  proof -
    have "unat (word_of_nat (of_char x) :: u8) = of_char x" for x
      by (simp add: unsigned_of_nat take_bit_nat_eq_self)
    with eq have "(of_char c :: nat) = of_char d" by metis
    then show ?thesis by simp
  qed
  then have "inj (\<lambda>c. word_of_nat (of_char c) :: u8)" by (intro injI)
  then have "map (\<lambda>c. word_of_nat (of_char c) :: u8) k = map (\<lambda>c. word_of_nat (of_char c)) k' \<longleftrightarrow> k = k'" for k k'
    by (simp add: inj_map_eq_map)
  then show ?thesis by (auto simp: canonical_def plain_key_def split: if_splits)
qed

definition alice :: Claims where
  "alice = \<lparr>c_Subject = ''github:1'', c_Email = ''alice@corp.example'', c_EmailVerified = True,
     c_Login = ''alice'', c_Groups = [''ops''], c_IdP = []\<rparr>"

definition bob :: Claims where
  "bob = \<lparr>c_Subject = ''github:2'', c_Email = ''bob@corp.example'', c_EmailVerified = True,
     c_Login = ''bob'', c_Groups = [], c_IdP = []\<rparr>"

definition sample_verify :: verifier where
  "sample_verify tok = (if tok = ''A'' then Inr alice else if tok = ''B'' then Inr bob else Inl ''unknown'')"

definition sample_net :: IPNet where
  "sample_net = \<lparr>net_IP = [10, 80, 0, 0], net_Mask = [255, 255, 255, 0]\<rparr>"

definition sample_parse_cidr :: "string \<Rightarrow> (ip \<times> IPNet) result" where
  "sample_parse_cidr s = (case parse_ipv4_cidr s of None \<Rightarrow> Inl ''invalid CIDR address'' | Some x \<Rightarrow> Inr x)"

definition sample_cfg :: Config where
  "sample_cfg = default_routes (read_config (\<lambda>_. None) (\<lambda>k. if k = ''WG_ENDPOINT'' then ''vpn.example:51820''
     else if k = ''WG_PRIVATE_KEY'' then ''priv'' else []))"

definition sample_alloc :: Allocator where
  "sample_alloc = \<lparr>network = sample_net, serverIP = [10, 80, 0, 1], used = fmap_of_list [(''10.80.0.1'', True)]\<rparr>"

definition sample_srv :: "mem_dev Server" where
  "sample_srv = New_Server sample_cfg sample_alloc New_Store mem_gw [] (New_TStore [''10.80.0.0/24''] []) ''server''"

definition sample_req :: "string \<Rightarrow> EnrollRequest" where
  "sample_req k = \<lparr>er_PublicKey = k, er_Device = \<lparr>dev_Name = ''laptop'', dev_Platform = ''linux''\<rparr>, er_Tenant = []\<rparr>"

text \<open>The server after Alice enrolled the key \<open>laptop\<close>, an hour after the epoch.\<close>

definition after :: "('r \<times> 's) outcome \<Rightarrow> 's \<Rightarrow> 's" where
  "after x s = (case x of Ok (_, s') \<Rightarrow> s' | _ \<Rightarrow> s)"

definition sample_peer_srv :: "mem_dev Server" where
  "sample_peer_srv =
     after (handleEnroll plain_key hour [DefaultID] (Inr (sample_req ''laptop'')) alice sample_srv) sample_srv"

lemma sample_ipv4_net: "ipv4_net sample_net 24"
  unfolding ipv4_net_def by code_simp

lemma sample_firstHost: "firstHost sample_net = [10, 80, 0, 1]"
  by code_simp

lemma sample_pool_inv: "pool_inv 24 sample_alloc" and sample_taken: "taken sample_alloc = {serverIP sample_alloc}"
proof -
  have d: "dotted [10, 80, 0, 1] = ''10.80.0.1''" by code_simp
  have u: "used_at (used sample_alloc) t \<longleftrightarrow> t = ''10.80.0.1''" for t
    by (auto simp: used_at_def sample_alloc_def)
  have "x \<in> taken sample_alloc \<longleftrightarrow> x = [10, 80, 0, 1]" for x
    using dotted_inject [of x "[10, 80, 0, 1]"] d
    by (cases "length x = 4") (auto simp: taken_def u)
  then show "taken sample_alloc = {serverIP sample_alloc}"
    by (auto simp: sample_alloc_def)
  then show "pool_inv 24 sample_alloc"
    by (simp add: pool_inv_def) (simp add: sample_alloc_def sample_ipv4_net sample_firstHost)
qed

lemma sample_srv_inv: "srv_inv 24 sample_srv"
  unfolding sample_srv_def by (rule New_Server_inv [OF sample_pool_inv sample_taken])

lemma sample_srv_tenants: "ranges_over [DefaultID] (tenants (tstore sample_srv))"
  by (simp add: sample_srv_def New_TStore_def ranges_over_def)

lemma sample_Allocate:
  "Allocate sample_alloc = (Inr [10, 80, 0, 2], sample_alloc\<lparr>used := fmap_of_list [(''10.80.0.2'', True), (''10.80.0.1'', True)]\<rparr>)"
  by code_simp

lemma sample_admitted:
  "admitted plain_key hour [DefaultID] (sample_req ''laptop'') alice sample_srv
     (map (\<lambda>c. word_of_nat (of_char c)) ''laptop'') (25 * hour) DefaultID"
proof -
  have "LeaseTTL (cfg sample_srv) = 24 * hour" "registry sample_srv = None"
    by (simp_all add: sample_srv_def sample_cfg_def default_routes_def read_config_def durEnv_def New_Server_def)
  moreover have "chooseTenant [DefaultID] sample_srv [] alice = Ok (Inr DefaultID)"
    unfolding chooseTenant_def sample_srv_def New_Server_simps by code_simp
  ultimately show ?thesis
    by (simp add: admitted_def plain_key_def sample_req_def registered_def hour_def)
qed

definition sample_peer :: Peer where
  "sample_peer = new_peer hour (sample_req ''laptop'') alice (25 * hour) DefaultID [10, 80, 0, 2]"

lemma sample_enroll:
  "handleEnroll plain_key hour [DefaultID] (Inr (sample_req ''laptop'')) alice sample_srv =
     Ok (enroll_reply sample_srv (25 * hour) DefaultID [10, 80, 0, 2], sample_peer_srv)"
  and sample_peer_srv_eq: "sample_peer_srv = EnrollInc DefaultID (sample_srv
     \<lparr>alloc := snd (Allocate sample_alloc), dev := dev sample_peer_srv, store := Put New_Store sample_peer\<rparr>)"
proof -
  let ?pub = "map (\<lambda>c. word_of_nat (of_char c)) ''laptop''"
  have ts: "ts_inv (tstore (sample_srv\<lparr>alloc := a\<rparr>))" for a
    using srv_invD(2) [OF sample_srv_inv] by simp
  have a: "enroll_address (sample_req ''laptop'') alice sample_srv =
      (Inr [10, 80, 0, 2], sample_srv\<lparr>alloc := snd (Allocate sample_alloc)\<rparr>)"
    by (simp add: enroll_address_def sample_srv_def sample_Allocate)
  obtain d where d: "AddPeer (gw sample_srv) ?pub [10, 80, 0, 2] (dev sample_srv) = (d, None)"
    using mem_gw_no_error(1) [of ?pub "[10, 80, 0, 2]" "dev sample_srv"]
    by (cases "AddPeer mem_gw ?pub [10, 80, 0, 2] (dev sample_srv)") (simp add: sample_srv_def)
  have st: "store sample_srv = New_Store" by (simp add: sample_srv_def)
  have h: "handleEnroll plain_key hour [DefaultID] (Inr (sample_req ''laptop'')) alice sample_srv =
      Ok (enroll_reply sample_srv (25 * hour) DefaultID [10, 80, 0, 2],
        EnrollInc DefaultID (sample_srv\<lparr>alloc := snd (Allocate sample_alloc), dev := d, store := Put New_Store sample_peer\<rparr>))"
    using d by (simp add: handleEnroll_admitted [OF sample_admitted] a enroll_commit_Ok [OF ts] sample_peer_def st)
  then show "handleEnroll plain_key hour [DefaultID] (Inr (sample_req ''laptop'')) alice sample_srv =
      Ok (enroll_reply sample_srv (25 * hour) DefaultID [10, 80, 0, 2], sample_peer_srv)"
    and "sample_peer_srv = EnrollInc DefaultID (sample_srv
     \<lparr>alloc := snd (Allocate sample_alloc), dev := dev sample_peer_srv, store := Put New_Store sample_peer\<rparr>)"
    by (simp_all add: sample_peer_srv_def after_def)
qed

lemma sample_peer_srv_simps [simp]:
  "store sample_peer_srv = Put New_Store sample_peer" "registry sample_peer_srv = None"
  "tstore sample_peer_srv = tstore sample_srv" "cfg sample_peer_srv = sample_cfg"
  "gw sample_peer_srv = mem_gw" "alloc sample_peer_srv = snd (Allocate sample_alloc)"
  by (subst sample_peer_srv_eq, simp add: sample_srv_def New_Server_def)+

lemma sample_peer_simps [simp]:
  "p_PublicKey sample_peer = ''laptop''" "p_Subject sample_peer = ''github:1''"
  "p_IP sample_peer = [10, 80, 0, 2]" "p_LeaseExpiry sample_peer = 25 * hour" "p_Tenant sample_peer = DefaultID"
  by (simp_all add: sample_peer_def sample_req_def alice_def)

lemma sample_Get: "Get (store sample_peer_srv) k = (if k = ''laptop'' then Some sample_peer else None)"
  by (simp add: store_simps)

lemma sample_TTL [simp]: "LeaseTTL sample_cfg = 24 * hour"
  by (simp add: sample_cfg_def default_routes_def read_config_def durEnv_def)

lemma sample_peer_srv_inv: "srv_inv 24 sample_peer_srv"
  by (rule handleEnroll_inv [OF sample_srv_inv sample_enroll]) (simp add: reenroll_failed_def)

lemma sample_tenants: "ranges_over [DefaultID] (tenants (tstore sample_peer_srv))"
  using sample_srv_tenants by simp

lemma sample_peers: "ranges_over [''laptop''] (peers (store sample_peer_srv))"
  by (simp add: ranges_over_def Put_def New_Store_def)

lemma sample_dev_inv:
  "dev_inv plain_key UNIV mem_view 24 sample_srv" "dev_inv plain_key UNIV mem_view 24 sample_peer_srv"
proof -
  have "address_of sample_srv = Map.empty" by (simp add: fun_eq_iff address_of_def sample_srv_def)
  then show d: "dev_inv plain_key UNIV mem_view 24 sample_srv"
    using mem_gateway_ok mem_removes
    by (simp add: dev_inv_def programmed_def) (simp add: sample_srv_def mem_view_def)
  show "dev_inv plain_key UNIV mem_view 24 sample_peer_srv"
    by (rule dev_inv_Enroll [OF sample_srv_inv d plain_key_canonical sample_enroll]) simp_all
qed

text \<open>The two people and the default tenant.\<close>

lemma sample_tenants_of: "tenants_of (tstore sample_srv) (Tenancy c) = {DefaultID}"
proof -
  have "Get_Tenant (tstore sample_srv) k = Some t \<Longrightarrow> t_Domains t = [] \<and> t_Groups t = [] \<and> t_IdPs t = []" for k t
    by (auto simp: sample_srv_def New_TStore_def Get_Tenant_def split: if_splits)
  then have "matching (tstore sample_srv) (Tenancy c) = {}"
    by (auto simp: matching_def has_def has_domain_def has_group_def has_idp_def Let_def)
  then show ?thesis by (simp add: tenants_of_def)
qed

lemma sample_bearer: "bearerToken ''Bearer A'' = ''A''" "bearerToken ''Bearer B'' = ''B''"
  by (simp_all add: bearerToken_def EqualFold_def TrimSpace_graphic graphic_def)

section \<open>The sample in its system\<close>

definition sample_system :: "mem_dev System" where
  "sample_system = \<lparr>sy_srv = sample_peer_srv, sy_now = hour\<rparr>"

lemma sample_sys_inv: "sys_inv 24 sample_system"
proof -
  have "ts_fresh (tstore sample_peer_srv)" by (simp add: sample_srv_def ts_fresh_New)
  moreover have "leases_bounded hour sample_peer_srv"
    unfolding leases_bounded_def sample_Get by (simp add: hour_def second_def)
  ultimately show ?thesis using sample_peer_srv_inv by (simp add: sys_inv_def sample_system_def)
qed

lemma sample_Handler_enroll:
  "Handler plain_key sample_verify hour [DefaultID] ''Bearer A'' (Enroll (Inr (sample_req ''laptop''))) sample_srv =
     Ok (enroll_reply sample_srv (25 * hour) DefaultID [10, 80, 0, 2], sample_peer_srv)"
  by (simp add: Handler_def authenticated_def sample_bearer sample_verify_def sample_enroll)

section \<open>A machine to start on\<close>

definition sample_providers :: Providers where
  "sample_providers =
     \<lparr>pr_github =
        \<lparr>gh_do = (\<lambda>tok _. if tok = ''A'' then Inr (200, ''1'') else if tok = ''B'' then Inr (200, ''2'') else Inr (401, [])),
         gh_user = (\<lambda>b. Inr (if b = ''1'' then \<lparr>gh_ID = 1, gh_Login = ''alice'', gh_Email = ''alice@corp.example''\<rparr>
           else \<lparr>gh_ID = 2, gh_Login = ''bob'', gh_Email = ''bob@corp.example''\<rparr>)),
         gh_orgs = (\<lambda>b. Inr (if b = ''1'' then [''ops''] else [])), gh_state = (\<lambda>_. Inl ''unused'')\<rparr>,
      pr_oidc = (\<lambda>_ _. Inl ''offline''), pr_goauthn = (\<lambda>_ _ _. Inl ''offline'')\<rparr>"

definition sample_machine :: "mem_dev Machine" where
  "sample_machine =
     \<lparr>m_load = Inr sample_cfg, m_parse_key = plain_key, m_public = (\<lambda>_. ''server''),
      m_providers = sample_providers, m_parse_cidr = sample_parse_cidr, m_wg_open = None, m_wg_close = (\<lambda>_. None),
      m_configure = mem_configure, m_device = mem_device, m_source = None,
      m_first_list = Inl ''offline'', m_listen = (\<lambda>_. None), m_tls = (\<lambda>_ _. None)\<rparr>"

text \<open>What a previous run left: one peer of the pool, beside a hand-made link.\<close>

definition left_over :: mem_dev where
  "left_over =
     [\<lparr>wp_PublicKey = [1], wp_AllowedIPs = [host_net [10, 80, 0, 9]]\<rparr>,
      \<lparr>wp_PublicKey = [2], wp_AllowedIPs = [\<lparr>net_IP = [192, 168, 0, 0], net_Mask = [255, 255, 0, 0]\<rparr>]\<rparr>]"

definition after_start :: mem_dev where
  "after_start = [\<lparr>wp_PublicKey = [2], wp_AllowedIPs = [\<lparr>net_IP = [192, 168, 0, 0], net_Mask = [255, 255, 0, 0]\<rparr>]\<rparr>]"

lemma sample_cfg_simps [simp]:
  "WGPrivateKey sample_cfg = ''priv''" "VPNCIDR sample_cfg = ''10.80.0.0/24''" "DryRun sample_cfg = False"
  "WGInterface sample_cfg = ''wg0''" "AuthProvider sample_cfg = ''github''" "TLSCert sample_cfg = []"
  "GitHubAllowedOrgs sample_cfg = []" "PushRoutes sample_cfg = [''10.80.0.0/24'']" "DNS sample_cfg = []"
  by (simp_all add: sample_cfg_def default_routes_def read_config_def env_def boolEnv_def splitCSV_def)

lemma sample_machine_simps [simp]:
  "m_load sample_machine = Inr sample_cfg" "m_parse_key sample_machine = plain_key"
  "m_public sample_machine = (\<lambda>_. ''server'')" "m_providers sample_machine = sample_providers"
  "m_parse_cidr sample_machine = sample_parse_cidr" "m_wg_open sample_machine = None"
  "m_configure sample_machine = mem_configure" "m_device sample_machine = mem_device"
  "m_wg_close sample_machine = (\<lambda>_. None)" "m_listen sample_machine = (\<lambda>_. None)" "m_tls sample_machine = (\<lambda>_ _. None)"
  by (simp_all add: sample_machine_def)

lemma sample_cidr: "sample_parse_cidr ''10.80.0.0/24'' = Inr (v4InV6Prefix @ [10, 80, 0, 0], sample_net)"
  by code_simp

lemma sample_parses: "parses_ipv4 sample_parse_cidr"
  by (simp add: parses_ipv4_def sample_parse_cidr_def split: option.splits)

lemma sample_sweep: "Sweep mem_gw sample_net left_over = (after_start, 1, None)"
  by code_simp

lemma sample_run: "\<exists>r. run sample_machine left_over = (Inr r, after_start)"
proof -
  obtain a where a: "New_Allocator sample_parse_cidr ''10.80.0.0/24'' = Inr a"
    by (simp add: New_Allocator_def sample_cidr To4_in_v6 Let_def)
  obtain v where v: "New_Verifier sample_providers (auth_options sample_cfg) = Inr v"
    by (simp add: New_Verifier_def auth_options_def)
  have g: "open_gateway sample_machine sample_cfg left_over = Inr mem_gw"
    by (simp add: open_gateway_def NewGateway_def mem_device_def left_over_def mem_gw_def)
  have "plain_key ''priv'' = Inr (map (\<lambda>c. word_of_nat (of_char c)) ''priv'')" by (simp add: plain_key_def)
  then show ?thesis
    by (simp add: run_def a v g sample_cidr sample_sweep run_servers_def run_listen_def use_registry_def grpcOptions_def Let_def)
qed

text \<open>On an empty device it starts the sample server, with GitHub's view of Alice and Bob.\<close>

definition sample_github :: verifier where
  "sample_github = GitHub_Verify (pr_github sample_providers) (NewGitHubVerifier (GitHubAPIURL sample_cfg) [])"

lemma sample_github_accepts: "sample_github ''A'' = Inr alice" "sample_github ''B'' = Inr bob"
  by (simp_all add: sample_github_def GitHub_Verify_def gh_get_def sample_providers_def NewGitHubVerifier_def Let_def
      alice_def bob_def itoa_int_def) code_simp+

definition sample_running :: "mem_dev Running" where
  "sample_running = \<lparr>run_srv = sample_srv, run_verify = sample_github, run_secure = False,
     run_admin = Enabled (AdminToken sample_cfg)\<rparr>"

lemma sample_run_empty: "run sample_machine [] = (Inr sample_running, [])"
proof -
  have a: "New_Allocator sample_parse_cidr ''10.80.0.0/24'' = Inr sample_alloc"
    by (simp add: New_Allocator_def sample_cidr To4_in_v6 Let_def sample_alloc_def) code_simp
  have v: "New_Verifier sample_providers (auth_options sample_cfg) = Inr sample_github"
    by (simp add: New_Verifier_def auth_options_def sample_github_def)
  have g: "open_gateway sample_machine sample_cfg [] = Inr mem_gw"
    by (simp add: open_gateway_def NewGateway_def mem_device_def mem_gw_def)
  have sw: "Sweep mem_gw sample_net [] = ([], 0, None)" by code_simp
  have "plain_key ''priv'' = Inr (map (\<lambda>c. word_of_nat (of_char c)) ''priv'')" by (simp add: plain_key_def)
  then show ?thesis
    by (simp add: run_def a v g sw sample_cidr run_servers_def run_listen_def use_registry_def grpcOptions_def Let_def sample_running_def sample_srv_def)
qed

end
