(* ===== verification/Pool_Claims.thy ===== *)
theory Pool_Claims
  imports Sample
begin

text \<open>
  What the address pool and the gateway promise: the properties of \<open>internal/ipam\<close> and
  \<open>internal/wg\<close>, with the arithmetic of addresses they rest on. The last section has the pools
  for which the code departs from what it says.
\<close>

section \<open>The pool\<close>

text \<open>
  C16: The byte-wise walk of \<open>Allocate\<close> is the search for the least free host. On a pool in its
  invariant it returns the host with the smallest number that is not used and marks it, leaving
  every other address as it was; it fails, changing nothing, exactly when every host is used.
\<close>

theorem allocate_least_free:
  assumes "pool_inv p a"
  shows "case Allocate a of
      (Inr ip, a') \<Rightarrow> ip \<in> hosts (network a) p - taken a \<and>
        (\<forall>y \<in> hosts (network a) p - taken a. addr ip \<le> addr y) \<and>
        taken a' = insert ip (taken a) \<and> network a' = network a \<and> pool_inv p a'
    | (Inl e, a') \<Rightarrow> a' = a \<and> hosts (network a) p \<subseteq> taken a \<and>
        e = ''address pool '' @ ipv4_net_String (network a) @ '' exhausted''"
proof (cases "Allocate a")
  case (Pair r a')
  show ?thesis
  proof (cases r)
    case (Inl e)
    with Pair Allocate_Inl [OF assms, of e a'] show ?thesis
      by (auto simp: Allocate_def split: option.splits)
  next
    case (Inr ip)
    have "addr ip \<le> addr y" if "y \<in> hosts (network a) p - taken a" for y
      using that Allocate_Inr(3) [OF assms Pair [unfolded Inr]] by (meson DiffD1 DiffD2 linorder_not_le)
    with Pair Inr Allocate_Inr [OF assms Pair [unfolded Inr]] ipool.allocate_ok [OF assms Pair [unfolded Inr]]
    show ?thesis by simp
  qed
qed

theorem allocate_least_free_witness:
  "Allocate sample_alloc = (Inr [10, 80, 0, 2], sample_alloc\<lparr>used := fmap_of_list [(''10.80.0.2'', True), (''10.80.0.1'', True)]\<rparr>) \<and>
   [10, 80, 0, 2] \<in> hosts sample_net 24 - taken sample_alloc \<and>
   taken (snd (Allocate sample_alloc)) = insert [10, 80, 0, 2] (taken sample_alloc)"
  using allocate_least_free [OF sample_pool_inv] sample_Allocate by (simp add: sample_alloc_def)

text \<open>
  C29: An address released can be handed out again, and nothing but that address is affected: a
  device's address that is allocated and released leaves the set of used addresses as it was.
\<close>

theorem allocate_release:
  assumes inv: "pool_inv p a" and al: "Allocate a = (Inr ip, a')"
  shows "taken (Release a' ip) = taken a \<and> pool_inv p (Release a' ip) \<and>
    (\<exists>a''. Allocate (Release a' ip) = (Inr ip, a''))"
proof -
  note ok = Allocate_Inr [OF inv al]
  have len: "length ip = 4" using ok(1) by (rule hosts_length)
  have t: "taken (Release a' ip) = taken a" using ok(2,4) len by (simp add: taken_Release)
  have ne: "ip \<noteq> serverIP a'" using ok(2,6) ipool.reserved_busy [OF inv] by auto
  have inv': "pool_inv p (Release a' ip)"
    using ipool.release_ok [of p a' ip] ipool.allocate_ok [OF inv al] ok(5) ne by simp
  have net: "network (Release a' ip) = network a" using ok(5) by simp
  obtain r b where rb: "Allocate (Release a' ip) = (r, b)" by (cases "Allocate (Release a' ip)")
  show ?thesis
  proof (cases r)
    case (Inl e)
    with rb have "hosts (network a) p \<subseteq> taken a" using Allocate_Inl(2) [OF inv'] net t by auto
    with ok(1,2) show ?thesis by blast
  next
    case (Inr j)
    note ok' = Allocate_Inr [OF inv' rb [unfolded Inr]]
    have "addr j = addr ip"
      using ok(1,2,3) ok'(1,2,3) net t by (metis linorder_less_linear)
    then have "j = ip" using addr_inject [of j ip] hosts_length [OF ok'(1)] len by simp
    with t inv' rb Inr show ?thesis by simp
  qed
qed

theorem allocate_release_witness:
  "taken (Release (snd (Allocate sample_alloc)) [10, 80, 0, 2]) = taken sample_alloc"
  using allocate_release [OF sample_pool_inv sample_Allocate] by (simp add: sample_Allocate)

text \<open>
  C30: The arithmetic of addresses is that of numbers: \<open>next\<close> adds one modulo \<open>2^32\<close>,
  \<open>Contains\<close> is membership in the interval of the prefix, \<open>isBroadcast\<close> is its last element,
  and \<open>firstHost\<close> is the address after the network's own, modulo \<open>2^32\<close> and without the wrap,
  inside the prefix, unless that is a single address.
\<close>

theorem address_arithmetic:
  assumes "ipv4_net n p" "length ip = 4"
  shows "length (next_ip ip) = 4 \<and> addr (next_ip ip) = (addr ip + 1) mod 2 ^ 32 \<and>
    (Contains n ip \<longleftrightarrow> addr (net_IP n) \<le> addr ip \<and> addr ip < addr (net_IP n) + 2 ^ (32 - p)) \<and>
    (isBroadcast ip n \<longleftrightarrow> addr ip = addr (net_IP n) + 2 ^ (32 - p) - 1) \<and>
    length (firstHost n) = 4 \<and> addr (firstHost n) = (addr (net_IP n) + 1) mod 2 ^ 32 \<and>
    (p < 32 \<longrightarrow> addr (firstHost n) = addr (net_IP n) + 1 \<and> Contains n (firstHost n))"
proof -
  have f: "length (firstHost n) = 4" "addr (firstHost n) = (addr (net_IP n) + 1) mod 2 ^ 32"
    using assms(1) by (simp_all add: firstHost_def dup_def addr_next_ip ipv4_net_def)
  have "addr (firstHost n) = addr (net_IP n) + 1 \<and> Contains n (firstHost n)" if "p < 32"
  proof -
    have "(2 :: nat) ^ 1 \<le> 2 ^ (32 - p)" using that by (intro power_increasing) simp_all
    with f ipv4_net_top [OF assms(1)] show ?thesis by (simp add: Contains_interval [OF assms(1)])
  qed
  note f = f this
  have "0 < (2 :: nat) ^ (32 - p)" by simp
  then have "addr ip + 1 = addr (net_IP n) + 2 ^ (32 - p) \<longleftrightarrow> addr ip = addr (net_IP n) + 2 ^ (32 - p) - 1"
    by linarith
  then have "isBroadcast ip n \<longleftrightarrow> addr ip = addr (net_IP n) + 2 ^ (32 - p) - 1"
    using assms by (simp add: isBroadcast_top)
  moreover have "length (next_ip ip) = 4" "addr (next_ip ip) = (addr ip + 1) mod 2 ^ 32"
    using assms(2) by (simp_all add: addr_next_ip)
  ultimately show ?thesis using f Contains_interval [OF assms] by (intro conjI impI) blast+
qed

theorem address_arithmetic_witness:
  "addr (next_ip [10, 80, 0, 255]) = addr [10, 80, 1, 0] \<and> isBroadcast [10, 80, 0, 255] sample_net \<and>
   addr (firstHost sample_net) = addr [10, 80, 0, 1]"
proof -
  have "addr [10, 80, 0, 255] = (addr (net_IP sample_net) + 2 ^ (32 - 24) - 1 :: nat)"
    "(addr [10, 80, 0, 255] + 1) mod 2 ^ 32 = addr [10, 80, 1, 0]"
    "addr (net_IP sample_net) + 1 = addr [10, 80, 0, 1]"
    by (simp_all add: addr_def sample_net_def)
  then show ?thesis using address_arithmetic [OF sample_ipv4_net, of "[10, 80, 0, 255]"] by simp
qed

text \<open>
  The text of an address determines it: \<open>ParseAddr\<close> reads back what \<open>String\<close> writes, and
  no two addresses share a text, so that the map of used addresses, keyed by text, is a set of
  addresses.
\<close>

theorem address_text:
  assumes "length ip = 4"
  shows "parse_ipv4 (ip_String ip) = Some ip \<and> (\<forall>j. length j = 4 \<longrightarrow> ip_String j = ip_String ip \<longrightarrow> j = ip) \<and>
    (ip \<in> taken a \<longleftrightarrow> fmlookup (used a) (ip_String ip) = Some True)"
  using assms by (simp add: parse_ipv4_dotted dotted_inject taken_def used_at_def)

theorem address_text_witness: "parse_ipv4 (ip_String [10, 80, 0, 2]) = Some [10, 80, 0, 2]"
  using address_text [of "[10, 80, 0, 2]"] by simp

text \<open>
  A pool made from IPv4 text. Every prefix \<open>net.ParseCIDR\<close> reads gives an allocator in its
  invariant, whose network is the prefix with its host bits cleared and in which only the
  gateway's own address is used; anything else is an error.
\<close>

theorem new_pool:
  assumes "parses_ipv4 pc" "parse_ipv4_cidr cidr = Some (ip, n)"
  shows "\<exists>a p. New_Allocator pc cidr = Inr a \<and> network a = n \<and> pool_inv p a \<and>
    ServerIP a = firstHost n \<and> taken a = {ServerIP a} \<and>
    (hosts n p \<noteq> {} \<longrightarrow> ServerIP a \<in> hosts n p \<and> addr (ServerIP a) = addr (net_IP n) + 1)"
proof -
  have pc: "pc cidr = Inr (ip, n)" using assms by (simp add: parses_ipv4_def)
  obtain p' where "ipv4_net n p'" "To4 ip \<noteq> None" using assms(2) by (rule parse_ipv4_cidr_net)
  then obtain a where a: "New_Allocator pc cidr = Inr a" and net: "network a = n"
    using pc by (simp add: New_Allocator_def Let_def)
  have v4: "parse_ipv4_cidr cidr \<noteq> None" using assms(2) by simp
  obtain p where p: "pool_inv p a" "taken a = {serverIP a}"
    by (rule New_Allocator_inv [OF assms(1) v4 a])
  have n: "ipv4_net n p" and s: "serverIP a = firstHost n" using p(1) net by (simp_all add: pool_inv_def)
  have "firstHost n \<in> hosts n p \<and> addr (firstHost n) = addr (net_IP n) + 1" if "hosts n p \<noteq> {}"
    using addr_firstHost [OF n that] that n by (auto simp: hosts_def)
  with a net p s show ?thesis by (auto simp: ServerIP_def)
qed

theorem new_pool_witness: "\<exists>a p. New_Allocator sample_parse_cidr ''10.80.0.0/24'' = Inr a \<and> pool_inv p a"
proof -
  have "parse_ipv4_cidr ''10.80.0.0/24'' = Some (v4InV6Prefix @ [10, 80, 0, 0], sample_net)" by code_simp
  from new_pool [OF sample_parses this] show ?thesis by blast
qed

section \<open>The gateway\<close>

text \<open>
  C31: The sweep at startup, for a gateway that behaves as documented and an IPv4 pool. A sweep
  that returns no error has removed exactly the peers whose only allowed IP is a single address
  (a \<open>/32\<close>) in the interval of the pool, and says how many; every other peer, one with a wider
  net inside the pool or with two allowed IPs among them, has what it had. A gateway that cannot
  list is left alone.
\<close>

theorem sweep_exact:
  assumes ok: "gateway_ok view g" and s: "Sweep g pool d = (d', n, None)" and pool: "ipv4_net pool p"
  shows "case Lister g of
      None \<Rightarrow> d' = d \<and> n = 0
    | Some _ \<Rightarrow>
        (\<forall>k. fmlookup (view d') k = (case fmlookup (view d) k of None \<Rightarrow> None
           | Some nets \<Rightarrow> if lone_host pool p nets then None else Some nets)) \<and>
        n = card {k. \<exists>nets. fmlookup (view d) k = Some nets \<and> lone_host pool p nets}"
proof (cases "Lister g")
  case None
  with s show ?thesis by (simp add: Sweep_def)
next
  case (Some peers_of)
  with Sweep_view [OF ok Some s] show ?thesis
    by (simp add: ours_lone_host [OF pool] cong: option.case_cong)
qed

theorem sweep_exact_witness:
  "fmlookup (mem_view after_start) [1] = None \<and>
   fmlookup (mem_view after_start) [2] = Some [\<lparr>net_IP = [192, 168, 0, 0], net_Mask = [255, 255, 0, 0]\<rparr>]"
proof -
  have l: "Lister mem_gw = Some (wgctrl_Peers mem_device ''wg0'')" by (simp add: mem_gw_def wgctrlGateway_def)
  have v: "fmlookup (mem_view left_over) [1] = Some [host_net [10, 80, 0, 9]]"
    "fmlookup (mem_view left_over) [2] = Some [\<lparr>net_IP = [192, 168, 0, 0], net_Mask = [255, 255, 0, 0]\<rparr>]"
    by (simp_all add: mem_view_def left_over_def fmlookup_of_list)
  have o: "ours \<lparr>wp_PublicKey = [1], wp_AllowedIPs = [host_net [10, 80, 0, 9]]\<rparr> sample_net"
    "\<not> ours \<lparr>wp_PublicKey = [2], wp_AllowedIPs = [\<lparr>net_IP = [192, 168, 0, 0], net_Mask = [255, 255, 0, 0]\<rparr>]\<rparr> sample_net"
    by code_simp+
  from o [unfolded ours_lone_host [OF sample_ipv4_net]] sweep_exact [OF mem_gateway_ok sample_sweep sample_ipv4_net] l v show ?thesis by simp
qed

section \<open>Pools the code does not expect\<close>

text \<open>
  A pool of one or two addresses has no host, and nothing can be enrolled; the gateway's own
  address is then the broadcast address of a \<open>/31\<close> and lies outside a \<open>/32\<close>.
\<close>

lemma tiny_pool:
  assumes n: "ipv4_net n p" and p: "31 \<le> p" and inv: "pool_inv p a" and net: "network a = n"
  shows "hosts n p = {}" and "\<exists>e. Allocate a = (Inl e, a)"
proof -
  have "(2 :: nat) ^ (32 - p) \<le> 2" using p by (cases "p = 31") (auto simp: power_le_one)
  then show h: "hosts n p = {}" by (auto simp: hosts_def)
  show "\<exists>e. Allocate a = (Inl e, a)"
    using Allocate_Inr(1) [OF inv] Allocate_Inl(1) [OF inv] net h
    by (cases "Allocate a"; cases "fst (Allocate a)") auto
qed

lemma single_address_pool:
  "ipv4_net \<lparr>net_IP = [10, 80, 0, 7], net_Mask = [255, 255, 255, 255]\<rparr> 32 \<and>
   \<not> Contains \<lparr>net_IP = [10, 80, 0, 7], net_Mask = [255, 255, 255, 255]\<rparr>
     (firstHost \<lparr>net_IP = [10, 80, 0, 7], net_Mask = [255, 255, 255, 255]\<rparr>)"
  unfolding ipv4_net_def by code_simp

text \<open>
  An IPv4-mapped prefix passes the check for IPv4, but its mask has sixteen bytes and
  \<open>isBroadcast\<close> reads the first four: the broadcast address is handed out like a host.
\<close>

definition mapped_net :: IPNet where
  "mapped_net = \<lparr>net_IP = v4InV6Prefix @ [10, 80, 0, 0], net_Mask = CIDRMask 126 128\<rparr>"

lemma mapped_pool_broadcast:
  "let a0 = \<lparr>network = mapped_net, serverIP = firstHost mapped_net, used = fmap_of_list [(''10.80.0.1'', True), (''10.80.0.2'', True)]\<rparr>
   in fst (Allocate a0) = Inr [10, 80, 0, 3] \<and> To4 (net_IP mapped_net) \<noteq> None"
  by code_simp

end
