(* ===== verification/Metrics.thy ===== *)
theory Metrics
  imports Admin
begin

text \<open>
  The rest of \<open>internal/metrics\<close>: the descriptors of the collector and how the registry is built.
  Prometheus itself is a parameter, \<open>register\<close>, which adds a collector's descriptors to a registry
  or panics.
\<close>

record Desc =
  fqName :: string
  desc_help :: string
  variableLabels :: "string list"

record collector =
  tenantsDesc :: Desc
  peersDesc :: Desc
  watchDesc :: Desc
  serialDesc :: Desc

definition newCollector :: collector where
  "newCollector =
     \<lparr>tenantsDesc = \<lparr>fqName = ''claimward_tenants'', desc_help = ''Number of configured tenants.'', variableLabels = []\<rparr>,
      peersDesc = \<lparr>fqName = ''claimward_active_peers'', desc_help = ''Number of currently enrolled peers.'', variableLabels = []\<rparr>,
      watchDesc = \<lparr>fqName = ''claimward_route_watchers'', desc_help = ''Number of active gRPC route watchers.'', variableLabels = []\<rparr>,
      serialDesc = \<lparr>fqName = ''claimward_tenant_route_serial'', desc_help = ''Current route serial per tenant.'', variableLabels = [''tenant'']\<rparr>\<rparr>"

definition Describe :: "collector \<Rightarrow> Desc list" where
  "Describe c = [tenantsDesc c, peersDesc c, watchDesc c, serialDesc c]"

definition enrollDesc :: Desc where
  "enrollDesc = \<lparr>fqName = ''claimward_enrollments_total'', desc_help = ''Total number of successful device enrollments.'',
     variableLabels = [''tenant'']\<rparr>"

definition New_Metrics :: "(Desc list \<Rightarrow> 'r \<Rightarrow> 'r outcome) \<Rightarrow> 'r \<Rightarrow> 'r outcome" where
  "New_Metrics register reg = obind (register [enrollDesc] reg) (register (Describe newCollector))"

text \<open>The descriptor and the label values \<open>Collect\<close> gives each of its metrics.\<close>

fun sample_desc :: "collector \<Rightarrow> sample \<Rightarrow> Desc" where
  "sample_desc c (TenantsGauge _) = tenantsDesc c"
| "sample_desc c (PeersGauge _) = peersDesc c"
| "sample_desc c (WatchersGauge _) = watchDesc c"
| "sample_desc c (SerialGauge _ _) = serialDesc c"

fun sample_labels :: "sample \<Rightarrow> string list" where
  "sample_labels (SerialGauge tid _) = [tid]"
| "sample_labels _ = []"

text \<open>
  What Prometheus asks of a collector: every metric has a descriptor that was described, with a
  value for each of its labels, and no two metrics have one descriptor and the same values.
\<close>

definition well_collected :: "Desc list \<Rightarrow> collector \<Rightarrow> sample list \<Rightarrow> bool" where
  "well_collected ds c xs \<longleftrightarrow>
     (\<forall>x \<in> set xs. sample_desc c x \<in> set ds \<and> length (sample_labels x) = length (variableLabels (sample_desc c x))) \<and>
     distinct (map (\<lambda>x. (fqName (sample_desc c x), sample_labels x)) xs)"

lemma List_Tenants_distinct:
  assumes "ts_inv ts" "ranges_over ks (tenants ts)"
  shows "distinct (map t_ID (List_Tenants ks ts))"
proof -
  have "distinct (map t_ID (map st_t (range_values ks (tenants ts))))"
    using distinct_IDs_range [OF assms(1), of ks "\<lambda>_. True"] assms(2) by (simp add: ranges_over_def)
  then show ?thesis
    by (simp add: List_Tenants_def distinct_map comp_inj_on_iff [symmetric]) (auto simp: inj_on_def)
qed

lemma Collect_well:
  assumes inv: "ts_inv ts" and ks: "ranges_over ks (tenants ts)"
  shows "well_collected (Describe newCollector) newCollector (Collect ks pks ps ts)"
proof -
  have "distinct (map (\<lambda>t. (''claimward_tenant_route_serial'', [t_ID t])) (List_Tenants ks ts))"
    using List_Tenants_distinct [OF assms] by (simp add: distinct_map inj_on_def)
  then show ?thesis
    by (auto simp: well_collected_def Collect_def Let_def Describe_def newCollector_def o_def)
qed

text \<open>A registry that accepts new names, as Prometheus documents, is built without a panic.\<close>

definition accepts_new :: "('r \<Rightarrow> string set) \<Rightarrow> (Desc list \<Rightarrow> 'r \<Rightarrow> 'r outcome) \<Rightarrow> bool" where
  "accepts_new names register \<longleftrightarrow>
     (\<forall>ds reg. distinct (map fqName ds) \<and> set (map fqName ds) \<inter> names reg = {} \<longrightarrow>
        (\<exists>reg'. register ds reg = Ok reg' \<and> names reg' = names reg \<union> set (map fqName ds)))"

lemma New_Metrics_Ok:
  assumes a: "accepts_new names register" and reg: "names reg = {}"
  obtains reg' where "New_Metrics register reg = Ok reg'"
    "names reg' = insert (fqName enrollDesc) (fqName ` set (Describe newCollector))"
proof -
  obtain r1 where r1: "register [enrollDesc] reg = Ok r1" "names r1 = {fqName enrollDesc}"
    using a reg unfolding accepts_new_def by (metis Int_empty_right distinct_singleton list.map(1) list.map(2) list.set(1) list.set(2) sup_bot_left)
  have "distinct (map fqName (Describe newCollector))" "set (map fqName (Describe newCollector)) \<inter> names r1 = {}"
    by (auto simp: r1(2) Describe_def newCollector_def enrollDesc_def)
  then obtain r2 where "register (Describe newCollector) r1 = Ok r2"
    "names r2 = names r1 \<union> set (map fqName (Describe newCollector))"
    using a unfolding accepts_new_def by blast
  with r1 show ?thesis by (intro that [of r2]) (simp_all add: New_Metrics_def)
qed

end
