(* ===== verification/Tenant_Claims.thy ===== *)
theory Tenant_Claims
  imports Metrics Sample
begin

text \<open>
  What the tenant store, the RouteService, the management API and the metrics promise. The
  store is taken in any state its operations can reach.
\<close>

section \<open>A store with a tenant\<close>

definition acme :: Tenant where
  "acme = \<lparr>t_ID = ''Acme Corp.'', t_Name = ''Acme'', t_Domains = ['' Corp.Example ''], t_Groups = [''ops''],
     t_IdPs = [], t_AllowedIPs = [''10.1.0.0/16''], t_DNS = [''10.1.0.53''], t_Serial = 7\<rparr>"

definition two_tenants :: TStore where
  "two_tenants = snd (Create (New_TStore [''10.80.0.0/24''] []) acme)"

definition watched :: TStore where
  "watched = (case Subscribe two_tenants ''acme-corp'' of Ok (_, _, _, ts) \<Rightarrow> ts | _ \<Rightarrow> two_tenants)"

definition acme_stored :: Tenant where
  "acme_stored = acme\<lparr>t_ID := ''acme-corp'', t_Serial := 1\<rparr>"

lemma slug_acme: "slug ''Acme Corp.'' = ''acme-corp''"
  by code_simp

lemma create_acme: "Create (New_TStore [''10.80.0.0/24''] []) acme = (Inr acme_stored, two_tenants)"
  by (simp add: two_tenants_def Create_def acme_def acme_stored_def slug_acme Let_def New_TStore_def DefaultID_def)

lemma two_tenants_reachable: "ts_reachable (New_TStore [''10.80.0.0/24''] []) two_tenants"
  using ts_step.create [OF create_acme] by (auto simp: ts_reachable_def)

lemma two_tenants_map: "tenants two_tenants = fmupd ''acme-corp'' \<lparr>st_t = acme_stored, st_subs = fmempty\<rparr>
    (tenants (New_TStore [''10.80.0.0/24''] []))" "nextSub two_tenants = 0" "chans two_tenants = []"
  by (simp_all add: two_tenants_def Create_def acme_def acme_stored_def slug_acme Let_def New_TStore_def DefaultID_def)

lemma two_tenants_ranges: "ranges_over [''acme-corp'', DefaultID] (tenants two_tenants)"
  by (auto simp: two_tenants_map ranges_over_def New_TStore_def DefaultID_def)

lemma subscribe_acme: "Subscribe two_tenants ''acme-corp'' = Ok (0, 0, route_set acme_stored, watched)"
  by (simp add: watched_def Subscribe_def tenant_or_default_def two_tenants_map Let_def)

lemma watched_map: "fmlookup (tenants watched) ''acme-corp'' = Some \<lparr>st_t = acme_stored, st_subs = fmupd 0 0 fmempty\<rparr>"
  by (simp add: watched_def Subscribe_def tenant_or_default_def two_tenants_map Let_def)

lemma watched_reachable: "ts_reachable (New_TStore [''10.80.0.0/24''] []) watched"
  using two_tenants_reachable ts_step.subscribe [OF subscribe_acme]
  unfolding ts_reachable_def by (rule rtranclp.rtrancl_into_rtrancl)

lemma new_reachable_inv:
  "ts_reachable (New_TStore a d) s \<Longrightarrow> ts_inv s" "ts_reachable (New_TStore a d) s \<Longrightarrow> ts_fresh s"
  using ts_reachable_inv [OF _ ts_inv_New ts_fresh_New] by blast+

section \<open>Membership\<close>

text \<open>
  Who a tenant has. A person whose address is \<open>name@domain\<close> is a member exactly if the
  address is verified and the domain is one of the tenant's, up to case and surrounding space,
  or a group of theirs is one of the tenant's, or the institution that vouched for them is.
\<close>

theorem member_by:
  assumes "m_Email m = name @ CHR ''@'' # domain" "CHR ''@'' \<notin> set domain"
  shows "has t m \<longleftrightarrow>
    (m_EmailVerified m \<and> (\<exists>d \<in> set (t_Domains t). ToLower (TrimSpace d) = ToLower domain)) \<or>
    (\<exists>g \<in> set (t_Groups t). TrimSpace g \<noteq> [] \<and> TrimSpace g \<in> set (m_Groups m)) \<or>
    (m_IdP m \<noteq> [] \<and> (\<exists>i \<in> set (t_IdPs t). TrimSpace i = m_IdP m))"
  using assms
  by (auto simp: has_def has_domain_def has_group_def has_idp_def Let_def list_ex_iff EqualFold_def
      drop_LastIndex nat_add_distrib)

lemma trim_corp: "ToLower (TrimSpace '' Corp.Example '') = ''corp.example''"
  by code_simp

theorem member_by_witness: "has acme (Tenancy bob)"
proof -
  have "m_Email (Tenancy bob) = ''bob'' @ CHR ''@'' # ''corp.example''" by (simp add: Tenancy_def bob_def)
  from member_by [OF this, of acme] trim_corp show ?thesis
    by (simp add: acme_def Tenancy_def bob_def) (simp add: ToLower_def ascii_lower_def)
qed

text \<open>
  The tenants a person may connect to, listed by identifier, each once: every tenant that
  has them, or the default tenant alone when none does. The list does not depend on the order
  the map of tenants is visited in, nor on an address the provider did not verify.
\<close>

theorem tenants_for:
  assumes inv: "ts_inv s" and ks: "ranges_over ks (tenants s)" and js: "ranges_over js (tenants s)"
  shows "\<exists>ts. For ks s m = Ok ts \<and> sorted (map t_ID ts) \<and> distinct (map t_ID ts) \<and>
    set ts = (if \<exists>k t. Get_Tenant s k = Some t \<and> has t m
       then {t. (\<exists>k. Get_Tenant s k = Some t) \<and> has t m} else {t. Get_Tenant s DefaultID = Some t}) \<and>
    ts \<noteq> [] \<and> For js s m = Ok ts \<and> (\<not> m_EmailVerified m \<longrightarrow> For ks s (m\<lparr>m_Email := e\<rparr>) = Ok ts)"
proof (rule For_Ok [OF inv ks, of m])
  fix ts
  assume f: "For ks s m = Ok ts" "sorted (map t_ID ts)" "distinct (map t_ID ts)" "ts \<noteq> []"
    and set: "set ts = (if matching s m = {} then {t. Get_Tenant s DefaultID = Some t} else matching s m)"
  have some: "(\<exists>k t. Get_Tenant s k = Some t \<and> has t m) = (matching s m \<noteq> {})" by (auto simp: matching_def)
  have "set ts = (if \<exists>k t. Get_Tenant s k = Some t \<and> has t m
       then {t. (\<exists>k. Get_Tenant s k = Some t) \<and> has t m} else {t. Get_Tenant s DefaultID = Some t})"
    unfolding some using set by (simp add: matching_def [symmetric])
  with f For_order [OF inv js ks, of m] For_unverified [of m ks s e] show ?thesis by simp
qed

theorem tenants_for_witness:
  "\<exists>ts. For [''acme-corp'', DefaultID] two_tenants (Tenancy bob) = Ok ts \<and> sorted (map t_ID ts) \<and> ts \<noteq> []"
  using tenants_for [OF new_reachable_inv(1) [OF two_tenants_reachable] two_tenants_ranges two_tenants_ranges, of "Tenancy bob"]
  by blast

section \<open>Route updates\<close>

text \<open>
  C18: An update of a tenant raises its serial by one (modulo \<open>2^64\<close>) and reaches every watcher
  of it: the next receive is that update. And at any later moment what a watcher receives is
  the route set the tenant has then, never an older one that was overtaken while it waited.
\<close>

theorem update_reaches_watchers:
  assumes r: "ts_reachable (New_TStore al ds) s" and st: "fmlookup (tenants s) k = Some st"
    and subs: "ranges_over subs (st_subs st)" and w: "fmlookup (st_subs st) i = Some ch"
  shows "\<exists>t s'. Update subs s k in_t = Ok (Inr t, s') \<and> t_Serial t = t_Serial (st_t st) + 1 \<and>
    t_AllowedIPs t = t_AllowedIPs in_t \<and> t_DNS t = t_DNS in_t \<and>
    fst (recv_chan ch s') = Received (route_set t) \<and>
    (\<forall>later x u. ts_reachable s' later \<longrightarrow> sub_of later k i = Some ch \<longrightarrow> Get_Tenant later k = Some u \<longrightarrow>
       fst (recv_chan ch later) = Received x \<longrightarrow> x = route_set u)"
proof (rule Update_known [OF new_reachable_inv(1) [OF r] st subs, of in_t])
  fix s'
  let ?t = "updated (st_t st) in_t"
  assume u: "Update subs s k in_t = Ok (Inr ?t, s')"
    and ch: "\<And>i r. sub_of s k i = Some r \<Longrightarrow> chans s' ! r = \<lparr>ch_buf = [route_set ?t], ch_closed = False\<rparr>"
  have sb: "sub_of s k i = Some ch" using st w by (simp add: sub_of_def)
  have step: "ts_step s s'" using u st subs by (intro ts_step.update) auto
  have inv': "ts_inv s'" "ts_fresh s'"
    using ts_inv_step [OF step] ts_fresh_step [OF step] new_reachable_inv [OF r] by blast+
  have "x = route_set v"
    if "ts_reachable s' later" "sub_of later k i = Some ch" "Get_Tenant later k = Some v"
      "fst (recv_chan ch later) = Received x" for later x v
    using recv_newest [OF ts_reachable_inv(2) [OF that(1) inv'] that(2,3)] that(4)
    by (cases "recv_chan ch later") auto
  moreover have "fst (recv_chan ch s') = Received (route_set ?t)"
    using ch [OF sb] by (simp add: recv_chan_def)
  ultimately show ?thesis using u by (intro exI [of _ ?t] exI [of _ s']) (simp add: updated_def)
qed

theorem update_reaches_watchers_witness:
  "\<exists>t s'. Update [0] watched ''acme-corp'' acme = Ok (Inr t, s') \<and> t_Serial t = 2 \<and>
     fst (recv_chan 0 s') = Received (route_set t)"
proof -
  have "ranges_over [0] (st_subs \<lparr>st_t = acme_stored, st_subs = fmupd 0 0 fmempty\<rparr>)" by (simp add: ranges_over_def)
  from update_reaches_watchers [OF watched_reachable watched_map this, of 0 0 acme]
  show ?thesis by (auto simp: acme_stored_def acme_def)
qed

text \<open>
  C19: In no reachable state does an operation of the store panic or block while it holds the
  lock: no channel is closed twice, none is sent to after it was closed, and none is full when
  an update is sent.
\<close>

theorem store_never_stuck:
  assumes r: "ts_reachable (New_TStore al ds) s" and ks: "ranges_over ks (tenants s)"
    and subs: "\<forall>st. fmlookup (tenants s) k = Some st \<longrightarrow> ranges_over subs (st_subs st)"
  shows "(\<exists>ts. For ks s m = Ok ts) \<and> (\<exists>rs. Routes s k = Ok rs) \<and> (\<exists>x. Update subs s k t = Ok x) \<and>
    (\<exists>x. Delete_Tenant subs s k = Ok x) \<and> (\<exists>x. Subscribe s k = Ok x) \<and> (\<exists>x. Unsubscribe s k i = Ok x)"
proof -
  note inv = new_reachable_inv(1) [OF r]
  have "\<exists>ts. For ks s m = Ok ts" by (rule For_Ok [OF inv ks, of m]) blast
  moreover have "\<exists>x. Subscribe s k = Ok x" by (rule Subscribe_ok [OF inv, of k]) blast
  moreover have "\<exists>x. Unsubscribe s k i = Ok x" by (rule Unsubscribe_ok [OF inv, of k i]) blast
  ultimately show ?thesis
    using Routes_Ok [OF inv, of k] Update_total [OF inv subs] Delete_Tenant_total [OF inv subs] by blast
qed

theorem store_never_stuck_witness: "\<exists>x. Unsubscribe watched ''acme-corp'' 0 = Ok x"
proof -
  have k: "ranges_over [''acme-corp'', DefaultID] (tenants watched)"
    using two_tenants_ranges
    by (auto simp: watched_def Subscribe_def tenant_or_default_def two_tenants_map ranges_over_def New_TStore_def DefaultID_def)
  have "\<forall>st. fmlookup (tenants watched) ''acme-corp'' = Some st \<longrightarrow> ranges_over [0] (st_subs st)"
    by (simp add: watched_map ranges_over_def)
  from store_never_stuck [OF watched_reachable k this] show ?thesis by blast
qed

text \<open>
  C40: An identifier made from any text is made of lower-case letters, digits and hyphens, does
  not begin or end with a hyphen, and is its own identifier.
\<close>

theorem slug_identifier:
  "slug (slug s) = slug s \<and> (\<forall>c \<in> set (slug s). slug_alphabet c) \<and>
   (slug s \<noteq> [] \<longrightarrow> hd (slug s) \<noteq> CHR ''-'' \<and> last (slug s) \<noteq> CHR ''-'')"
  using slug_slug slug_alphabet_slug slug_ends by blast

theorem slug_identifier_witness: "slug (slug '' A_b '') = slug '' A_b ''"
  using slug_identifier [of "'' A_b ''"] by blast

text \<open>
  A tenant created gets a fresh identifier, the slug of the one asked for or of its name,
  and serial one; it is found under that identifier and every other tenant is as it was.
  Creation fails exactly when neither text yields an identifier or the identifier is taken, and
  then changes nothing.
\<close>

theorem create_tenant:
  "let tid = (if slug (t_ID t) = [] then slug (t_Name t) else slug (t_ID t))
   in if tid = [] \<or> Get_Tenant s tid \<noteq> None then (\<exists>e. Create s t = (Inl e, s))
      else (\<exists>s'. Create s t = (Inr (t\<lparr>t_ID := tid, t_Serial := 1\<rparr>), s') \<and>
        Get_Tenant s' = (Get_Tenant s)(tid \<mapsto> t\<lparr>t_ID := tid, t_Serial := 1\<rparr>))"
  by (auto simp: Create_def Get_Tenant_def Let_def fun_eq_iff)

theorem create_tenant_witness:
  "\<exists>s'. Create (New_TStore [''10.80.0.0/24''] []) acme = (Inr acme_stored, s') \<and>
     Get_Tenant s' ''acme-corp'' = Some acme_stored"
proof -
  have "slug (t_ID acme) = ''acme-corp''" by (simp add: acme_def slug_acme)
  moreover have "Get_Tenant (New_TStore [''10.80.0.0/24''] []) ''acme-corp'' = None"
    by (simp add: Get_Tenant_def New_TStore_def DefaultID_def)
  ultimately show ?thesis
    using create_tenant [of acme "New_TStore [''10.80.0.0/24''] []"] by (auto simp: acme_stored_def Let_def)
qed

section \<open>Watching\<close>

text \<open>
  C36: Whoever watches sees the routes of the tenant the device was enrolled for, and only its
  owner, while a member, may: the first message is that tenant's current route set. Anybody else
  is refused without a message and without a trace in the store.
\<close>

theorem watch_admission:
  assumes inv: "ts_inv ts" "ts_fresh ts" and ks: "ranges_over ks (tenants ts)" and wb: "well_behaved turns"
  shows "\<exists>sent e ts'. Watch ks claims key ps None turns ts = Ok (sent, e, ts') \<and>
    (if \<exists>c p. claims = Some c \<and> Get ps key = Some p \<and> p_Subject p = c_Subject c \<and> p_Tenant p \<in> tenants_of ts (Tenancy c)
     then (\<exists>p t. Get ps key = Some p \<and> Get_Tenant ts (p_Tenant p) = Some t \<and> sent \<noteq> [] \<and> hd sent = toProto (route_set t))
     else sent = [] \<and> ts' = ts \<and> (\<exists>code msg. e = Failed code msg))"
  using inv(1) ks
proof (cases rule: Watch_admit_Ok [where claims = claims and ps = ps and key = key])
  case (refused code msg)
  then show ?thesis by (simp add: Watch_def)
next
  case (admitted c p)
  obtain sent e ts' where w: "Watch ks claims key ps None turns ts = Ok (sent, e, ts')"
    using Watch_total [OF inv ks wb] by blast
  obtain t where t: "Get_Tenant ts (p_Tenant p) = Some t" using tenants_of_exist [OF inv(1) admitted(4)] by blast
  have "\<exists>ts1. Subscribe ts (p_Tenant p) = Ok (nextSub ts, length (chans ts), route_set t, ts1)"
  proof (rule Subscribe_ok [OF inv(1), of "p_Tenant p"])
    fix k st s'
    assume "fmlookup (tenants ts) k = Some st" "k = (if fmlookup (tenants ts) (p_Tenant p) = None then DefaultID else p_Tenant p)"
      "Subscribe ts (p_Tenant p) = Ok (nextSub ts, length (chans ts), route_set (st_t st), s')"
    with t show ?thesis by (auto simp: Get_Tenant_def split: if_splits)
  qed
  then obtain ts1 where "Subscribe ts (p_Tenant p) = Ok (nextSub ts, length (chans ts), route_set t, ts1)" by blast
  with w admitted(5) have "sent \<noteq> [] \<and> hd sent = toProto (route_set t)"
    by (cases "Watch_loop turns (length (chans ts)) ts1")
      (auto simp: Watch_def Watch_return_def obind_Ok_iff split: if_splits)
  with w t admitted show ?thesis by auto
qed

theorem watch_admission_witness:
  "\<exists>sent e ts'. Watch [DefaultID] (Some alice) ''laptop'' (store sample_peer_srv) None [] (tstore sample_srv) = Ok (sent, e, ts') \<and>
     sent \<noteq> []"
proof -
  have ts: "ts_inv (tstore sample_srv)" "ts_fresh (tstore sample_srv)"
    using srv_invD(2) [OF sample_srv_inv] by (simp_all add: sample_srv_def ts_fresh_New)
  have "Get (store sample_peer_srv) ''laptop'' = Some sample_peer" "p_Subject sample_peer = c_Subject alice"
    "p_Tenant sample_peer \<in> tenants_of (tstore sample_srv) (Tenancy alice)"
    by (simp_all add: store_simps alice_def sample_tenants_of)
  moreover have "well_behaved []" by (simp add: well_behaved_def)
  ultimately show ?thesis
    using watch_admission [OF ts sample_srv_tenants, of "[]" "Some alice" "''laptop''" "store sample_peer_srv"]
    by (auto simp del: sample_peer_srv_simps sample_peer_simps)
qed

text \<open>
  C37: However a watch ends, and whatever others did to the store meanwhile, the store is back
  to states its operations reach and the watcher's subscription is gone from every tenant.
\<close>

theorem watch_leaves_nothing:
  assumes "ts_inv ts" "ts_fresh ts" "ranges_over ks (tenants ts)" "well_behaved turns"
  shows "\<exists>sent e ts'. Watch ks claims key ps first turns ts = Ok (sent, e, ts') \<and> ts_inv ts' \<and>
    (e \<noteq> Open \<longrightarrow> (\<forall>k. sub_of ts' k (nextSub ts) = None))"
proof -
  obtain sent e ts' where w: "Watch ks claims key ps first turns ts = Ok (sent, e, ts')" "ts_reachable ts ts'"
    using Watch_total [OF assms] by blast
  with Watch_no_leak [OF assms w(1)] ts_reachable_inv(1) [OF w(2) assms(1,2)] show ?thesis by blast
qed

theorem watch_leaves_nothing_witness:
  "\<exists>sent e ts'. Watch [DefaultID] (Some alice) ''laptop'' (store sample_peer_srv) None [(id, Ctx_Done)] (tstore sample_srv) =
     Ok (sent, e, ts') \<and> ts_inv ts' \<and> (e \<noteq> Open \<longrightarrow> (\<forall>k. sub_of ts' k 0 = None))"
proof -
  have ts: "ts_inv (tstore sample_srv)" "ts_fresh (tstore sample_srv)" "nextSub (tstore sample_srv) = 0"
    using srv_invD(2) [OF sample_srv_inv] by (simp_all add: sample_srv_def ts_fresh_New) (simp add: New_TStore_def)
  have "well_behaved [(id, Ctx_Done)]" by (simp add: well_behaved_def ts_reachable_def)
  from watch_leaves_nothing [OF ts(1,2) sample_srv_tenants this] ts(3) show ?thesis by simp
qed

section \<open>Management and metrics\<close>

text \<open>
  C38: The management API answers every call, and changes the tenants at most by one operation
  of the store, and only for a caller who presented the configured token. To anyone else it
  answers 401 with nothing in the body but that, and without a token configured 503 with the
  notice that it is disabled; neither depends on the tenants or the devices.
\<close>

theorem admin_guarded:
  assumes "ts_inv ts" "call_subs c subs ts"
  shows "\<exists>r ts'. Register tok hdr ks subs pks ps c ts = Ok (r, ts') \<and> ts_inv ts' \<and>
    (ts' \<noteq> ts \<longrightarrow> tok \<noteq> [] \<and> admin_bearer hdr = tok \<and> ts_step ts ts') \<and>
    (tok = [] \<longrightarrow> r = \<lparr>a_status = 503, a_body = AdminDisabled\<rparr> \<and> ts' = ts) \<and>
    (tok \<noteq> [] \<and> admin_bearer hdr \<noteq> tok \<longrightarrow> r = \<lparr>a_status = 401, a_body = AdminError ''unauthorized''\<rparr> \<and> ts' = ts) \<and>
    (tok \<noteq> [] \<and> admin_bearer hdr = tok \<longrightarrow> admin_route ks subs pks ps c ts = Ok (r, ts'))"
proof (cases "tok = [] \<or> admin_bearer hdr \<noteq> tok")
  case True
  with assms(1) show ?thesis by (auto simp: Register_def Enabled_def guard_def admin_writeErr_def)
next
  case False
  obtain r ts' where "Register tok hdr ks subs pks ps c ts = Ok (r, ts')" "ts' = ts \<or> ts_step ts ts'"
    using Register_step [OF assms] by blast
  moreover from this False have "admin_route ks subs pks ps c ts = Ok (r, ts')"
    by (simp add: Register_def Enabled_def guard_def)
  ultimately show ?thesis using False assms(1) ts_inv_step by auto
qed

theorem admin_guarded_witness:
  "\<exists>r ts'. Register ''s3cret'' ''Bearer guess'' [] [] [] New_Store (DeleteTenant ''acme-corp'') two_tenants = Ok (r, ts') \<and>
     a_status r = 401 \<and> a_body r = AdminError ''unauthorized'' \<and> ts' = two_tenants"
proof -
  have "admin_bearer ''Bearer guess'' = ''guess''"
    by (simp add: admin_bearer_def EqualFold_def TrimSpace_graphic graphic_def)
  moreover have "call_subs (DeleteTenant ''acme-corp'') [] two_tenants"
    by (simp add: call_subs_def two_tenants_map ranges_over_def)
  ultimately show ?thesis
    using admin_guarded [OF new_reachable_inv(1) [OF two_tenants_reachable], of "DeleteTenant ''acme-corp''" "[]"
        "''s3cret''" "''Bearer guess''" "[]" "[]" New_Store] by auto
qed

text \<open>
  C39: A scrape tells the truth, to the precision of a \<open>float64\<close>: the number of tenants, of
  enrolled devices and of subscriptions over all tenants, and for every tenant, once, its current
  serial, each value rounded to the nearest \<open>float64\<close>, which is the number itself up to \<open>2^53\<close>
  and within one part in \<open>2^53\<close> of it beyond. It is also one Prometheus takes: every metric is of
  a descriptor the collector described, with its labels, and no two are of one descriptor and the
  same labels.
\<close>

theorem scrape_truthful:
  assumes inv: "ts_inv ts" and ks: "ranges_over ks (tenants ts)" and pks: "ranges_over pks (peers ps)"
  shows "\<exists>serials. Collect ks pks ps ts =
      TenantsGauge (float64 (card {k. Get_Tenant ts k \<noteq> None})) # PeersGauge (float64 (card {k. Get ps k \<noteq> None})) #
      WatchersGauge (float64 (card {(k, i). sub_of ts k i \<noteq> None})) # serials \<and>
    distinct serials \<and> set serials = {SerialGauge k (float64 (unat (t_Serial t))) |k t. Get_Tenant ts k = Some t} \<and>
    (\<forall>n. (n \<le> 2 ^ 53 \<longrightarrow> float64 n = n) \<and> \<bar>int (float64 n) - int n\<bar> * 2 ^ 53 \<le> int n) \<and>
    well_collected (Describe newCollector) newCollector (Collect ks pks ps ts)"
proof -
  let ?ts = "List_Tenants ks ts"
  have dom: "{k. fmlookup m k \<noteq> None} = fset (fmdom m)" for m :: "('k, 'v) fmap"
    by (auto simp: fmlookup_dom_iff)
  have nt: "length ?ts = card {k. Get_Tenant ts k \<noteq> None}"
    using range_values_length [OF ks] dom [of "tenants ts"] by (simp add: List_Tenants_def Get_Tenant_def fcard.rep_eq)
  have np: "length (List_Peers pks ps) = card {k. Get ps k \<noteq> None}"
    using range_values_length [OF pks] dom [of "peers ps"] by (simp add: List_Peers_def Get_def fcard.rep_eq)
  let ?g = "\<lambda>t. SerialGauge (t_ID t) (float64 (unat (t_Serial t)))"
  let ?S = "{SerialGauge k (float64 (unat (t_Serial t))) |k t. Get_Tenant ts k = Some t}"
  have d: "distinct (map ?g ?ts)"
    using List_Tenants_distinct [OF inv ks] by (auto simp: distinct_map inj_on_def)
  have mem: "t \<in> set ?ts \<longleftrightarrow> (\<exists>k. Get_Tenant ts k = Some t)" for t
    using ks by (auto simp: List_Tenants_def Get_Tenant_def set_range_values image_iff dest: ranges_over_memberD)
  have "set (map ?g ?ts) = ?S"
  proof (intro set_eqI iffI)
    fix x assume "x \<in> set (map ?g ?ts)"
    then obtain t k where "x = ?g t" "Get_Tenant ts k = Some t" using mem by auto
    with ts_inv_ID [OF inv] show "x \<in> ?S" by auto
  next
    fix x assume "x \<in> ?S"
    then obtain k t where "x = SerialGauge k (float64 (unat (t_Serial t)))" "Get_Tenant ts k = Some t" by blast
    with ts_inv_ID [OF inv] mem show "x \<in> set (map ?g ?ts)" by (force simp: image_iff)
  qed
  with d nt np WatcherCount_subs [OF ks] Collect_well [OF inv ks, of pks ps] float64_exact float64_near show ?thesis
    by (intro exI [of _ "map ?g ?ts"]) (simp add: Collect_def Let_def)
qed

theorem scrape_truthful_witness:
  "\<exists>serials. Collect [''acme-corp'', DefaultID] [] New_Store two_tenants =
     TenantsGauge (float64 (card {k. Get_Tenant two_tenants k \<noteq> None})) # PeersGauge 0 #
     WatchersGauge (float64 (card {(k, i). sub_of two_tenants k i \<noteq> None})) # serials \<and> distinct serials"
proof -
  have "ranges_over [] (peers New_Store)" by (simp add: ranges_over_def New_Store_def)
  from scrape_truthful [OF new_reachable_inv(1) [OF two_tenants_reachable] two_tenants_ranges this] show ?thesis
    by (auto simp: float64_exact)
qed

end
