(* ===== verification/Fake_Authn.thy ===== *)
theory Fake_Authn
  imports Ssf_Poll Registry "HOL-Library.List_Lexorder" "HOL-Library.Char_ord"
begin

text \<open>
  \<open>internal/fakeauthn\<close>: the go-authn provider the tests run the server against, with its
  discovery documents, its token endpoint, its Shared Signals transmitter and the signed list of
  keys. The documents it writes are JSON values; their bytes, the RSA key and the names and claims
  of go-authn/wireguard are arguments. The provider answers the poller's requests, so that the
  two are run against each other here.
\<close>

section \<open>Documents\<close>

datatype json = JNum int | JStr string | JArr "json list" | JObj "(string, json) fmap"

text \<open>A body is a JSON document or, from \<open>http.Error\<close> and for the list, text.\<close>

datatype document = Json json | Plain string

definition jobj :: "(string \<times> json) list \<Rightarrow> json" where
  "jobj ms = JObj (fmap_of_list ms)"

section \<open>The provider\<close>

record Provider =
  pv_list :: WgList
  pv_streams :: nat
  pv_events :: "string list"
  Acked :: "string list"
  PollSeen :: nat

text \<open>
  What the provider is made with: its address, its key (the members of its public half, and
  SHA-256 with PKCS #1 v1.5 by its private half), \<open>json.Marshal\<close>, and of go-authn/wireguard the
  path, type and scope of the list and the claims of a list issued at an instant.
\<close>

record Fake =
  fk_URL :: string
  fk_n :: string
  fk_e :: string
  fk_sign :: "string \<Rightarrow> string result"
  fk_Marshal :: "json \<Rightarrow> string result"
  ListPath :: string
  ListType :: string
  ScopePeers :: string
  ListClaims :: "WgList \<Rightarrow> time \<Rightarrow> string \<Rightarrow> string \<Rightarrow> (string, json) fmap"

definition GatewayID :: string where "GatewayID = ''claimward-gw''"

definition Gateway_Secret :: string where "Gateway_Secret = ''a-gateway-secret''"

definition Audience :: string where "Audience = ''claimward''"

definition New_Provider :: Provider where
  "New_Provider = \<lparr>pv_list = \<lparr>wl_Version = 0, wl_Peers = [], wl_Expires = 0\<rparr>,
     pv_streams = 0, pv_events = [], Acked = [], PollSeen = 0\<rparr>"

definition Event :: "string \<Rightarrow> Provider \<Rightarrow> Provider" where
  "Event jti p = p\<lparr>pv_events := pv_events p @ [jti]\<rparr>"

definition Streams :: "Provider \<Rightarrow> nat" where
  "Streams p = pv_streams p"

definition Issuer :: "Fake \<Rightarrow> string" where
  "Issuer fk = fk_URL fk"

definition SetPeers :: "u64 \<Rightarrow> WgPeer list \<Rightarrow> Provider \<Rightarrow> Provider" where
  "SetPeers version ps p = p\<lparr>pv_list := \<lparr>wl_Version = version, wl_Peers = ps, wl_Expires = 0\<rparr>\<rparr>"

section \<open>Signing\<close>

text \<open>\<open>base64.RawURLEncoding\<close>.\<close>

definition b64_char :: "nat \<Rightarrow> char" where
  "b64_char n = char_of
     (if n < 26 then 65 + n else if n < 52 then 71 + n else if n < 62 then n - 4 else if n = 62 then 45 else (95 :: nat))"

fun EncodeToString :: "string \<Rightarrow> string" where
  "EncodeToString [] = []"
| "EncodeToString [a] =
     (let x = of_char a * 16 :: nat in [b64_char (x div 64), b64_char (x mod 64)])"
| "EncodeToString [a, b] =
     (let x = (of_char a * 256 + of_char b) * 4 :: nat
      in [b64_char (x div 4096), b64_char (x div 64 mod 64), b64_char (x mod 64)])"
| "EncodeToString (a # b # c # s) =
     (let x = (of_char a * 256 + of_char b) * 256 + of_char c :: nat
      in [b64_char (x div 262144), b64_char (x div 4096 mod 64), b64_char (x div 64 mod 64), b64_char (x mod 64)]
         @ EncodeToString s)"

definition Sign_enc :: "Fake \<Rightarrow> json \<Rightarrow> string result" where
  "Sign_enc fk v = (case fk_Marshal fk v of Inl err \<Rightarrow> Inl err | Inr b \<Rightarrow> Inr (EncodeToString b))"

text \<open>\<open>Sign\<close>; an error stands for \<open>t.Fatal\<close>.\<close>

definition Sign :: "Fake \<Rightarrow> string \<Rightarrow> (string, json) fmap \<Rightarrow> string result" where
  "Sign fk typ claims =
     (case Sign_enc fk (jobj [(''alg'', JStr ''RS256''), (''kid'', JStr ''k1''), (''typ'', JStr typ)]) of
        Inl err \<Rightarrow> Inl err
      | Inr header \<Rightarrow>
          (case Sign_enc fk (JObj claims) of
             Inl err \<Rightarrow> Inl err
           | Inr body \<Rightarrow>
               (let signed = header @ ''.'' @ body
                in case fk_sign fk signed of
                     Inl err \<Rightarrow> Inl err
                   | Inr sig \<Rightarrow> Inr (signed @ ''.'' @ EncodeToString sig))))"

text \<open>\<open>Unix\<close> of an instant, and the token of a person.\<close>

definition unix :: "time \<Rightarrow> int" where
  "unix t = t div sec"

definition AccessToken :: "Fake \<Rightarrow> time \<Rightarrow> string \<Rightarrow> string \<Rightarrow> (string, json) fmap \<Rightarrow> string result" where
  "AccessToken fk now sub username extra =
     Sign fk ''at+jwt''
       (fmap_of_list
          [(''iss'', JStr (fk_URL fk)), (''aud'', JStr Audience), (''sub'', JStr sub), (''client_id'', JStr Audience),
           (''preferred_username'', JStr username), (''scope'', JStr ''openid''),
           (''iat'', JNum (unix now)), (''exp'', JNum (unix (now + 3600 * sec))), (''jti'', JStr (sub @ ''-jti''))]
        ++\<^sub>f extra)"

section \<open>The handlers\<close>

definition ok_json :: "json \<Rightarrow> document http_response" where
  "ok_json j = \<lparr>hr_Code = 200, hr_Status = ''200 OK'', hr_Location = [], hr_Body = Json j\<rparr>"

definition no_auth :: "document http_response" where
  "no_auth = \<lparr>hr_Code = 401, hr_Status = ''401 Unauthorized'', hr_Location = [], hr_Body = Plain (''no'' @ [CHR 0x0A])\<rparr>"

definition gateway_auth :: auth_header where
  "gateway_auth = BearerAuth ''gateway-token''"

definition handle_openid :: "Fake \<Rightarrow> document http_response" where
  "handle_openid fk = ok_json (jobj [(''issuer'', JStr (fk_URL fk)), (''jwks_uri'', JStr (fk_URL fk @ ''/jwks'')),
     (''token_endpoint'', JStr (fk_URL fk @ ''/token''))])"

definition handle_jwks :: "Fake \<Rightarrow> document http_response" where
  "handle_jwks fk = ok_json (jobj [(''keys'', JArr [jobj
     [(''kty'', JStr ''RSA''), (''kid'', JStr ''k1''), (''alg'', JStr ''RS256''), (''use'', JStr ''sig''),
      (''n'', JStr (EncodeToString (fk_n fk))), (''e'', JStr (EncodeToString (fk_e fk)))]])])"

text \<open>\<open>r.BasicAuth\<close> and the form's scope; the poller's form asks for \<open>ssf\<close>.\<close>

fun basic_auth :: "auth_header \<Rightarrow> string \<times> string" where
  "basic_auth (BasicAuth u pw) = (u, pw)"
| "basic_auth _ = ([], [])"

definition form_scope :: "content \<Rightarrow> string" where
  "form_scope c = (if c = TokenForm then ''ssf'' else [])"

definition handle_token :: "Fake \<Rightarrow> http_request \<Rightarrow> document http_response" where
  "handle_token fk rq =
     (case basic_auth (rq_Auth rq) of (i, secret) \<Rightarrow>
        let scope = form_scope (rq_Content rq)
        in if i \<noteq> GatewayID \<or> secret \<noteq> Gateway_Secret \<or> (scope \<noteq> ScopePeers fk \<and> scope \<noteq> ''ssf'')
           then \<lparr>hr_Code = 401, hr_Status = ''401 Unauthorized'', hr_Location = [], hr_Body = Json (jobj [(''error'', JStr ''invalid_client'')])\<rparr>
           else ok_json (jobj [(''access_token'', JStr ''gateway-token''), (''token_type'', JStr ''Bearer''),
                               (''expires_in'', JNum 300)]))"

definition handle_ssf_config :: "Fake \<Rightarrow> document http_response" where
  "handle_ssf_config fk = ok_json (jobj [(''issuer'', JStr (fk_URL fk)),
     (''configuration_endpoint'', JStr (fk_URL fk @ ''/ssf/streams'')),
     (''delivery_methods_supported'', JArr [JStr ''urn:ietf:rfc:8936''])])"

definition stream_doc :: "Fake \<Rightarrow> json" where
  "stream_doc fk = jobj [(''stream_id'', JStr ''s1''),
     (''delivery'', jobj [(''method'', JStr ''urn:ietf:rfc:8936''), (''endpoint_url'', JStr (fk_URL fk @ ''/ssf/poll''))])]"

definition handle_streams :: "Fake \<Rightarrow> http_request \<Rightarrow> Provider \<Rightarrow> document http_response \<times> Provider" where
  "handle_streams fk rq p =
     (if rq_Auth rq \<noteq> gateway_auth then (no_auth, p)
      else if rq_Method rq = ''GET'' then (ok_json (JArr (if 0 < pv_streams p then [stream_doc fk] else [])), p)
      else if rq_Method rq = ''POST'' then
        (\<lparr>hr_Code = 201, hr_Status = ''201 Created'', hr_Location = [], hr_Body = Json (stream_doc fk)\<rparr>, p\<lparr>pv_streams := pv_streams p + 1\<rparr>)
      else (\<lparr>hr_Code = 200, hr_Status = ''200 OK'', hr_Location = [], hr_Body = Plain []\<rparr>, p))"

fun poll_acks :: "content \<Rightarrow> string list" where
  "poll_acks (PollContent as) = as"
| "poll_acks _ = []"

definition handle_poll :: "Fake \<Rightarrow> http_request \<Rightarrow> Provider \<Rightarrow> document http_response \<times> Provider" where
  "handle_poll fk rq p =
     (if rq_Auth rq \<noteq> gateway_auth then (no_auth, p)
      else (ok_json (jobj [(''sets'', JObj (foldl (\<lambda>m j. fmupd j (JStr ''a.set.jwt'') m) fmempty (pv_events p)))]),
            p\<lparr>PollSeen := PollSeen p + 1, Acked := Acked p @ poll_acks (rq_Content rq), pv_events := []\<rparr>))"

text \<open>The list, issued now for five minutes; a list that cannot be signed ends the test.\<close>

definition handle_list :: "Fake \<Rightarrow> time \<Rightarrow> http_request \<Rightarrow> Provider \<Rightarrow> document http_response result" where
  "handle_list fk now rq p =
     (if rq_Auth rq \<noteq> gateway_auth then Inr no_auth
      else (case Sign fk (ListType fk)
               (ListClaims fk ((pv_list p)\<lparr>wl_Expires := now + 300 * sec\<rparr>) now (fk_URL fk) GatewayID) of
              Inl err \<Rightarrow> Inl err
            | Inr s \<Rightarrow> Inr \<lparr>hr_Code = 200, hr_Status = ''200 OK'', hr_Location = [], hr_Body = Plain s\<rparr>))"

text \<open>
  The mux. A pattern with the method GET also takes HEAD; another method is answered 405 and an
  unknown path 404.
\<close>

definition reads :: "http_request \<Rightarrow> bool" where
  "reads rq \<longleftrightarrow> rq_Method rq \<in> {''GET'', ''HEAD''}"

definition bad_method :: "document http_response" where
  "bad_method = \<lparr>hr_Code = 405, hr_Status = ''405 Method Not Allowed'', hr_Location = [], hr_Body = Plain (''Method Not Allowed'' @ [CHR 0x0A])\<rparr>"

definition not_found :: "document http_response" where
  "not_found = \<lparr>hr_Code = 404, hr_Status = ''404 Not Found'', hr_Location = [], hr_Body = Plain (''404 page not found'' @ [CHR 0x0A])\<rparr>"

definition serve_path ::
    "Fake \<Rightarrow> time \<Rightarrow> string \<Rightarrow> http_request \<Rightarrow> Provider \<Rightarrow> document http_response result \<times> Provider" where
  "serve_path fk now path rq p =
     (if path = ''/.well-known/openid-configuration'' then
        (Inr (if reads rq then handle_openid fk else bad_method), p)
      else if path = ''/jwks'' then (Inr (if reads rq then handle_jwks fk else bad_method), p)
      else if path = ''/token'' then (Inr (if rq_Method rq = ''POST'' then handle_token fk rq else bad_method), p)
      else if path = ''/.well-known/ssf-configuration'' then
        (Inr (if reads rq then handle_ssf_config fk else bad_method), p)
      else if path = ''/ssf/streams'' then apfst Inr (handle_streams fk rq p)
      else if path = ''/ssf/poll'' then
        (if rq_Method rq = ''POST'' then apfst Inr (handle_poll fk rq p) else (Inr bad_method, p))
      else if path = ListPath fk then
        ((if reads rq then handle_list fk now rq p else Inr bad_method), p)
      else (Inr not_found, p))"

definition serve :: "Fake \<Rightarrow> time \<Rightarrow> http_request \<Rightarrow> Provider \<Rightarrow> document http_response result \<times> Provider" where
  "serve fk now rq p =
     (if take (length (fk_URL fk)) (rq_URL rq) = fk_URL fk
      then serve_path fk now (drop (length (fk_URL fk)) (rq_URL rq)) rq p
      else (Inl ''no such host'', p))"

end
