(* ===== verification/Fake_Poll.thy ===== *)
theory Fake_Poll
  imports Fake_Authn
begin

text \<open>
  The Shared Signals poller run against the provider of the tests. Events are queued at any
  point between two requests: \<open>sched n\<close> are those queued before the provider sees request
  number \<open>n\<close>. The poller's decoders read the members its structs name.
\<close>

section \<open>The decoders of the poller's structs\<close>

text \<open>A string member: absent is empty, another kind is an error.\<close>

definition str_member :: "string \<Rightarrow> (string, json) fmap \<Rightarrow> string result" where
  "str_member k ms = (case fmlookup ms k of None \<Rightarrow> Inr [] | Some (JStr s) \<Rightarrow> Inr s | Some _ \<Rightarrow> Inl ''not a string'')"

definition dec_member :: "string \<Rightarrow> document \<Rightarrow> string result" where
  "dec_member k d = (case d of Json (JObj ms) \<Rightarrow> str_member k ms | _ \<Rightarrow> Inl ''not an object'')"

definition stream_of :: "json \<Rightarrow> stream result" where
  "stream_of j =
     (case j of
        JObj ms \<Rightarrow>
          (case fmlookup ms ''delivery'' of
             None \<Rightarrow> Inr \<lparr>s_Method = [], s_EndpointURL = []\<rparr>
           | Some (JObj d) \<Rightarrow>
               (case (str_member ''method'' d, str_member ''endpoint_url'' d) of
                  (Inr m, Inr u) \<Rightarrow> Inr \<lparr>s_Method = m, s_EndpointURL = u\<rparr>
                | _ \<Rightarrow> Inl ''not a string'')
           | Some _ \<Rightarrow> Inl ''not an object'')
      | _ \<Rightarrow> Inl ''not an object'')"

definition all_streams :: "document \<Rightarrow> stream list \<times> error option" where
  "all_streams d =
     (case d of
        Json (JArr js) \<Rightarrow>
          (map (\<lambda>j. case stream_of j of Inr s \<Rightarrow> s | Inl _ \<Rightarrow> \<lparr>s_Method = [], s_EndpointURL = []\<rparr>) js,
           if list_ex (\<lambda>j. isl (stream_of j)) js then Some ''not a stream'' else None)
      | _ \<Rightarrow> ([], Some ''not an array''))"

definition one_stream :: "document \<Rightarrow> stream result" where
  "one_stream d = (case d of Json j \<Rightarrow> stream_of j | _ \<Rightarrow> Inl ''not an object'')"

text \<open>\<open>for jti := range out.Sets\<close>, in the order \<open>ord\<close> of the map.\<close>

definition sets_of :: "((string, json) fmap \<Rightarrow> string list) \<Rightarrow> document \<Rightarrow> string list result" where
  "sets_of ord d =
     (case d of
        Json (JObj ms) \<Rightarrow>
          (case fmlookup ms ''sets'' of
             None \<Rightarrow> Inr [] | Some (JObj m) \<Rightarrow> Inr (ord m) | Some _ \<Rightarrow> Inl ''not an object'')
      | _ \<Rightarrow> Inl ''not an object'')"

definition token_of :: "document \<Rightarrow> token_answer \<times> error option" where
  "token_of d =
     (case d of
        Json (JObj ms) \<Rightarrow>
          (\<lparr>ta_AccessToken = (case str_member ''access_token'' ms of Inr s \<Rightarrow> s | Inl _ \<Rightarrow> []),
            ta_ExpiresIn = (case fmlookup ms ''expires_in'' of Some (JNum n) \<Rightarrow> n | _ \<Rightarrow> 0),
            ta_Error = (case str_member ''error'' ms of Inr s \<Rightarrow> s | Inl _ \<Rightarrow> [])\<rparr>, None)
      | _ \<Rightarrow> (\<lparr>ta_AccessToken = [], ta_ExpiresIn = 0, ta_Error = []\<rparr>, Some ''not an object''))"

section \<open>The provider after a number of requests\<close>

definition enqueue :: "string list \<Rightarrow> Provider \<Rightarrow> Provider" where
  "enqueue js p = fold Event js p"

definition provider_step :: "Fake \<Rightarrow> (nat \<Rightarrow> time) \<Rightarrow> (nat \<Rightarrow> string list) \<Rightarrow> nat \<Rightarrow> http_request \<Rightarrow> Provider \<Rightarrow>
    document http_response result \<times> Provider" where
  "provider_step fk clock sched n rq p = serve fk (clock n) rq (enqueue (sched n) p)"

definition provider_at :: "Fake \<Rightarrow> (nat \<Rightarrow> time) \<Rightarrow> (nat \<Rightarrow> string list) \<Rightarrow> http_request list \<Rightarrow> Provider" where
  "provider_at fk clock sched hist =
     snd (foldl (\<lambda>(n, p) rq. (Suc n, snd (provider_step fk clock sched n rq p))) (0, New_Provider) hist)"

definition fake_net :: "Fake \<Rightarrow> (nat \<Rightarrow> time) \<Rightarrow> (nat \<Rightarrow> string list) \<Rightarrow> (string \<Rightarrow> URL result) \<Rightarrow> (string \<Rightarrow> string) \<Rightarrow>
    ((string, json) fmap \<Rightarrow> string list) \<Rightarrow> document Env" where
  "fake_net fk clock sched parse esc ord =
     \<lparr>answer = (\<lambda>hist rq. fst (provider_step fk clock sched (length hist) rq (provider_at fk clock sched hist))),
      url_Parse = parse, url_Resolve = (\<lambda>_ loc. map_sum (\<lambda>err. err) (Pair loc) (parse loc)), QueryEscape = esc,
      body_text = (\<lambda>d. case d of Plain s \<Rightarrow> s | Json _ \<Rightarrow> []),
      dec_config_endpoint = dec_member ''configuration_endpoint'',
      dec_token_endpoint = dec_member ''token_endpoint'',
      dec_raw = Inr, dec_streams = all_streams,
      dec_stream = (\<lambda>d. case one_stream d of Inr s \<Rightarrow> (s, None) | Inl e \<Rightarrow> (\<lparr>s_Method = [], s_EndpointURL = []\<rparr>, Some e)),
      dec_created = one_stream, dec_sets = sets_of ord, dec_token = token_of\<rparr>"

lemma provider_at_Nil [simp]: "provider_at fk clock sched [] = New_Provider"
  by (simp add: provider_at_def)

lemma provider_at_snoc:
  "provider_at fk clock sched (hist @ [rq]) =
     snd (provider_step fk clock sched (length hist) rq (provider_at fk clock sched hist))"
proof -
  have "fst (foldl (\<lambda>(n, p) rq. (Suc n, snd (provider_step fk clock sched n rq p))) (0, New_Provider) hist) = length hist"
    by (induction hist rule: rev_induct) (auto split: prod.splits)
  then show ?thesis by (auto simp: provider_at_def split: prod.splits)
qed

lemma enqueue_simps [simp]:
  "pv_events (enqueue js p) = pv_events p @ js" "Acked (enqueue js p) = Acked p"
  "pv_streams (enqueue js p) = pv_streams p" "PollSeen (enqueue js p) = PollSeen p"
  unfolding enqueue_def by (induction js arbitrary: p) (simp_all add: Event_def)

section \<open>A poller at home\<close>

text \<open>
  What the run relies on: the provider's address is https or on this host, with nothing to trim;
  escaping leaves the gateway's name and secret, of letters and dashes, as they are; and ranging
  over a map visits its keys.
\<close>

definition at_home :: "Fake \<Rightarrow> (string \<Rightarrow> URL result) \<Rightarrow> (string \<Rightarrow> string) \<Rightarrow> ((string, json) fmap \<Rightarrow> string list) \<Rightarrow> bool" where
  "at_home fk parse esc ord \<longleftrightarrow>
     (\<forall>path. \<exists>u. parse (fk_URL fk @ path) = Inr u \<and>
        (u_Scheme u = ''https'' \<or> u_Scheme u = ''http'' \<and> u_Hostname u \<in> {''localhost'', ''127.0.0.1'', ''::1''})) \<and>
     trim_char_right CHR ''/'' (fk_URL fk) = fk_URL fk \<and>
     esc GatewayID = GatewayID \<and> esc Gateway_Secret = Gateway_Secret \<and>
     (\<forall>m. set (ord m) = fmdom' m)"

text \<open>The poller's own fields, between two turns.\<close>

definition settled :: "Fake \<Rightarrow> Poller \<Rightarrow> bool" where
  "settled fk p \<longleftrightarrow>
     sc_Issuer (po_cfg p) = fk_URL fk \<and> sc_ClientID (po_cfg p) = GatewayID \<and> sc_ClientSecret (po_cfg p) = Gateway_Secret \<and>
     tokenURL p \<in> {[], fk_URL fk @ ''/token''} \<and> token p \<in> {[], ''gateway-token''} \<and>
     pollURL p \<in> {[], fk_URL fk @ ''/ssf/poll''}"

text \<open>
  Requests that move no event: what was queued meanwhile is waiting, and \<open>k\<close> streams were
  created.
\<close>

definition quiet :: "Fake \<Rightarrow> (nat \<Rightarrow> time) \<Rightarrow> (nat \<Rightarrow> string list) \<Rightarrow> nat \<Rightarrow> Poller \<Rightarrow> Poller \<Rightarrow> bool" where
  "quiet fk clock sched k p p' \<longleftrightarrow>
     (let s = provider_at fk clock sched (sent p); s' = provider_at fk clock sched (sent p') in
      same_events p p' \<and> pollURL p' = pollURL p \<and> length (sent p) \<le> length (sent p') \<and>
      Acked s' = Acked s \<and> PollSeen s' = PollSeen s \<and> pv_streams s' = pv_streams s + k \<and>
      pv_events s' = pv_events s @ concat (map sched [length (sent p)..<length (sent p')]))"

lemma quiet_refl: "quiet fk clock sched 0 p p"
  by (simp add: quiet_def same_events_def)

lemma quiet_trans:
  assumes "quiet fk clock sched j p q" "quiet fk clock sched k q r"
  shows "quiet fk clock sched (j + k) p r"
proof -
  have "[length (sent p)..<length (sent r)] = [length (sent p)..<length (sent q)] @ [length (sent q)..<length (sent r)]"
    using assms upt_add_eq_append [of "length (sent p)" "length (sent q)" "length (sent r) - length (sent q)"]
    by (simp add: quiet_def Let_def)
  then show ?thesis using assms by (simp add: quiet_def Let_def same_events_def)
qed

text \<open>The provider redirects nothing, so a request is one request.\<close>

lemma serve_no_redirect:
  "fst (serve_path fk t path rq s) = Inr res \<Longrightarrow> hr_Location res = []"
  by (auto simp: serve_path_def handle_openid_def handle_jwks_def handle_token_def handle_ssf_config_def
      handle_streams_def handle_poll_def handle_list_def Let_def ok_json_def no_auth_def bad_method_def not_found_def
      split: if_splits sum.splits prod.splits)

lemma client_do_at_home:
  assumes "\<And>res. answer env log rq = Inr res \<Longrightarrow> hr_Location res = []"
  shows "client_do n env ireq rq log = (answer env log rq, log @ [rq])"
proof (cases "answer env log rq")
  case (Inr res)
  then have "redirect env ireq rq res = Inr None" using assms by (simp add: redirect_def split: option.splits prod.splits)
  with Inr show ?thesis by (subst client_do.simps) simp
qed (simp add: client_do.simps)

text \<open>One request, answered by a handler that leaves events alone.\<close>

lemma send_at_home:
  assumes "at_home fk parse esc ord" "rq_URL rq = fk_URL fk @ path"
  shows "send_request (fake_net fk clock sched parse esc ord) rq p =
    (fst (serve_path fk (clock (length (sent p))) path rq (enqueue (sched (length (sent p))) (provider_at fk clock sched (sent p)))),
     p\<lparr>sent := sent p @ [rq]\<rparr>)"
proof -
  let ?net = "fake_net fk clock sched parse esc ord"
  obtain u where u: "parse (fk_URL fk @ path) = Inr u" using assms(1) unfolding at_home_def by blast
  have a: "answer ?net (sent p) rq = fst (serve_path fk (clock (length (sent p))) path rq
      (enqueue (sched (length (sent p))) (provider_at fk clock sched (sent p))))"
    by (simp add: fake_net_def provider_step_def serve_def assms(2))
  have "client_do 9 ?net rq rq (sent p) = (answer ?net (sent p) rq, sent p @ [rq])"
    by (rule client_do_at_home) (simp add: a serve_no_redirect)
  moreover have "url_Parse ?net (rq_URL rq) = Inr u" using u by (simp add: fake_net_def assms(2))
  ultimately show ?thesis by (simp add: send_request_def a)
qed

lemma provider_at_sent:
  assumes "rq_URL rq = fk_URL fk @ path"
  shows "provider_at fk clock sched (hist @ [rq]) =
    snd (serve_path fk (clock (length hist)) path rq (enqueue (sched (length hist)) (provider_at fk clock sched hist)))"
  by (simp add: provider_at_snoc provider_step_def serve_def assms)

lemma protected_at_home:
  "at_home fk parse esc ord \<Longrightarrow> protected (fake_net fk clock sched parse esc ord) (fk_URL fk @ path) = None"
  unfolding at_home_def protected_def fake_net_def by (elim conjE allE [of _ path]) (auto split: sum.splits)

lemma quiet_request:
  assumes "rq_URL rq = fk_URL fk @ path"
    and "\<And>s. s' s = snd (serve_path fk (clock (length (sent p))) path rq s)"
    and "\<And>s. Acked (s' s) = Acked s \<and> PollSeen (s' s) = PollSeen s \<and> pv_events (s' s) = pv_events s \<and>
      pv_streams (s' s) = pv_streams s + k"
  shows "quiet fk clock sched k p (p\<lparr>sent := sent p @ [rq], token := t, tokenEnd := e, tokenURL := u\<rparr>)"
  using assms(2,3) by (simp add: quiet_def Let_def same_events_def provider_at_sent [OF assms(1)])

text \<open>The handlers on the poller's requests.\<close>

lemma serve_paths:
  "rq_Method rq = ''GET'' \<Longrightarrow> serve_path fk t ''/.well-known/openid-configuration'' rq s = (Inr (handle_openid fk), s)"
  "rq_Method rq = ''POST'' \<Longrightarrow> serve_path fk t ''/token'' rq s = (Inr (handle_token fk rq), s)"
  "rq_Method rq = ''GET'' \<Longrightarrow> serve_path fk t ''/.well-known/ssf-configuration'' rq s = (Inr (handle_ssf_config fk), s)"
  "serve_path fk t ''/ssf/streams'' rq s = apfst Inr (handle_streams fk rq s)"
  "rq_Method rq = ''POST'' \<Longrightarrow> serve_path fk t ''/ssf/poll'' rq s = apfst Inr (handle_poll fk rq s)"
  by (simp_all add: serve_path_def reads_def)

lemma handle_token_ok:
  "rq_Auth rq = BasicAuth GatewayID Gateway_Secret \<Longrightarrow> rq_Content rq = TokenForm \<Longrightarrow>
   \<exists>res. handle_token fk rq = res \<and>
     token_of (hr_Body res) = (\<lparr>ta_AccessToken = ''gateway-token'', ta_ExpiresIn = 300, ta_Error = []\<rparr>, None)"
  by (simp add: handle_token_def form_scope_def ok_json_def jobj_def token_of_def str_member_def)

lemma decode_documents:
  "hr_Code (handle_openid fk) = 200" "dec_member ''token_endpoint'' (hr_Body (handle_openid fk)) = Inr (fk_URL fk @ ''/token'')"
  "hr_Code (handle_ssf_config fk) = 200"
  "dec_member ''configuration_endpoint'' (hr_Body (handle_ssf_config fk)) = Inr (fk_URL fk @ ''/ssf/streams'')"
  "stream_of (stream_doc fk) = Inr \<lparr>s_Method = deliveryPoll, s_EndpointURL = fk_URL fk @ ''/ssf/poll''\<rparr>"
  by (simp_all add: handle_openid_def handle_ssf_config_def stream_doc_def ok_json_def jobj_def dec_member_def
      str_member_def stream_of_def deliveryPoll_def)

lemma fake_net_simps [simp]:
  "dec_config_endpoint (fake_net fk clock sched parse esc ord) = dec_member ''configuration_endpoint''"
  "dec_token_endpoint (fake_net fk clock sched parse esc ord) = dec_member ''token_endpoint''"
  "dec_raw (fake_net fk clock sched parse esc ord) = Inr"
  "dec_streams (fake_net fk clock sched parse esc ord) = all_streams"
  "dec_created (fake_net fk clock sched parse esc ord) = one_stream"
  "dec_sets (fake_net fk clock sched parse esc ord) = sets_of ord"
  "dec_token (fake_net fk clock sched parse esc ord) = token_of"
  "QueryEscape (fake_net fk clock sched parse esc ord) = esc"
  by (simp_all add: fake_net_def)

section \<open>The poller's calls\<close>

text \<open>A GET of a document, and a call with the gateway's token.\<close>

lemma get_at_home:
  assumes home: "at_home fk parse esc ord"
    and "\<And>s. serve_path fk (clock (length (sent p))) path
      \<lparr>rq_Method = ''GET'', rq_URL = fk_URL fk @ path, rq_Auth = NoAuth, rq_Content = NoContent\<rparr> s = (Inr res, s)"
    and "hr_Code res = 200"
  shows "\<exists>p'. po_get (fake_net fk clock sched parse esc ord) (fk_URL fk @ path) dec p = (dec (hr_Body res), p') \<and>
    quiet fk clock sched 0 p p' \<and> (settled fk p \<longrightarrow> settled fk p') \<and> tokenURL p' = tokenURL p \<and> token p' = token p \<and>
    po_cfg p' = po_cfg p"
proof -
  let ?rq = "\<lparr>rq_Method = ''GET'', rq_URL = fk_URL fk @ path, rq_Auth = NoAuth, rq_Content = NoContent\<rparr>"
  have "quiet fk clock sched 0 p (p\<lparr>sent := sent p @ [?rq], token := token p, tokenEnd := tokenEnd p, tokenURL := tokenURL p\<rparr>)"
    by (rule quiet_request [where s' = "\<lambda>s. s" and path = path]) (simp_all add: assms(2))
  moreover have "po_get (fake_net fk clock sched parse esc ord) (fk_URL fk @ path) dec p =
      (dec (hr_Body res), p\<lparr>sent := sent p @ [?rq]\<rparr>)"
    by (simp add: po_get_def act_bind_def act_check_def protected_at_home [OF home] send_at_home [OF home, where path = path]
        assms(2,3) act_lift_def)
  ultimately show ?thesis by (simp add: settled_def)
qed

lemma token_endpoint_at_home:
  assumes home: "at_home fk parse esc ord" and p: "settled fk p"
  shows "\<exists>p'. token_endpoint (fake_net fk clock sched parse esc ord) p = (Inr (), p') \<and> quiet fk clock sched 0 p p' \<and>
    settled fk p' \<and> tokenURL p' = fk_URL fk @ ''/token''"
proof (cases "tokenURL p = []")
  case True
  obtain p1 where g: "po_get (fake_net fk clock sched parse esc ord) (fk_URL fk @ ''/.well-known/openid-configuration'')
      (dec_member ''token_endpoint'') p = (Inr (fk_URL fk @ ''/token''), p1)"
    and q: "quiet fk clock sched 0 p p1" "settled fk p1"
    using get_at_home [OF home, of clock p "''/.well-known/openid-configuration''" "handle_openid fk" sched "dec_member ''token_endpoint''"]
      serve_paths(1) decode_documents(1,2) p by auto
  have "sc_Issuer (po_cfg p) = fk_URL fk" using p by (simp add: settled_def)
  then have "token_endpoint (fake_net fk clock sched parse esc ord) p = (Inr (), p1\<lparr>tokenURL := fk_URL fk @ ''/token''\<rparr>)"
    using g by (simp add: token_endpoint_def True act_bind_def protected_at_home [OF home])
  moreover have "quiet fk clock sched 0 p (p1\<lparr>tokenURL := fk_URL fk @ ''/token''\<rparr>)"
    using q(1) by (simp add: quiet_def same_events_def Let_def)
  ultimately show ?thesis using q(2) by (simp add: settled_def)
next
  case False
  then show ?thesis using p by (auto simp: token_endpoint_def settled_def intro: quiet_refl)
qed

lemma bearer_at_home:
  assumes home: "at_home fk parse esc ord" and p: "settled fk p"
  shows "\<exists>p'. bearer (fake_net fk clock sched parse esc ord) now p = (Inr ''gateway-token'', p') \<and>
    quiet fk clock sched 0 p p' \<and> settled fk p'"
proof (cases "token p \<noteq> [] \<and> 30 * sec < tokenEnd p - now")
  case True
  then have "bearer (fake_net fk clock sched parse esc ord) now p = (Inr (token p), p)" "token p = ''gateway-token''"
    using p by (auto simp: bearer_def settled_def)
  with p show ?thesis by (auto intro: quiet_refl)
next
  case False
  obtain p1 where e: "token_endpoint (fake_net fk clock sched parse esc ord) p = (Inr (), p1)"
    and q: "quiet fk clock sched 0 p p1" "settled fk p1" "tokenURL p1 = fk_URL fk @ ''/token''"
    using token_endpoint_at_home [OF home p, of clock sched] by auto
  let ?rq = "\<lparr>rq_Method = ''POST'', rq_URL = fk_URL fk @ ''/token'', rq_Auth = BasicAuth GatewayID Gateway_Secret, rq_Content = TokenForm\<rparr>"
  let ?p2 = "p1\<lparr>sent := sent p1 @ [?rq], token := ''gateway-token'', tokenEnd := now + seconds 300, tokenURL := tokenURL p1\<rparr>"
  have c: "esc (sc_ClientID (po_cfg p1)) = GatewayID" "esc (sc_ClientSecret (po_cfg p1)) = Gateway_Secret"
    using home q(2) by (simp_all add: at_home_def settled_def)
  have "fetch_token (fake_net fk clock sched parse esc ord) now p1 = (Inr ''gateway-token'', ?p2)"
    using handle_token_ok [of ?rq fk]
    by (simp add: fetch_token_def act_bind_def send_at_home [OF home, where path = "''/token''"] q(3) c serve_paths)
  then have b: "bearer (fake_net fk clock sched parse esc ord) now p = (Inr ''gateway-token'', ?p2)"
    unfolding bearer_def if_not_P [OF False] by (simp add: act_bind_def e)
  have "quiet fk clock sched 0 p1 ?p2"
    by (rule quiet_request [where s' = "\<lambda>s. s" and path = "''/token''"]) (simp_all add: serve_paths)
  with quiet_trans [OF q(1) this] q(2) b show ?thesis by (auto simp: settled_def)
qed

text \<open>A call: the gateway's token, then the request, answered by the handler of its path.\<close>

lemma call_at_home:
  fixes meth path body
  defines "rq fk \<equiv> \<lparr>rq_Method = meth, rq_URL = fk_URL fk @ path, rq_Auth = gateway_auth, rq_Content = body\<rparr>"
  assumes home: "at_home fk parse esc ord" and p: "settled fk p"
    and ok: "\<And>t s. \<exists>res. fst (serve_path fk t path (rq fk) s) = Inr res \<and> hr_Code res div 100 = 2"
  shows "\<exists>p1 res s'. quiet fk clock sched 0 p p1 \<and> settled fk p1 \<and>
    serve_path fk (clock (length (sent p1))) path (rq fk)
      (enqueue (sched (length (sent p1))) (provider_at fk clock sched (sent p1))) = (Inr res, s') \<and>
    po_call (fake_net fk clock sched parse esc ord) now meth (fk_URL fk @ path) body dec p =
      (dec (hr_Body res), p1\<lparr>sent := sent p1 @ [rq fk]\<rparr>)"
proof -
  obtain p1 where b: "bearer (fake_net fk clock sched parse esc ord) now p = (Inr ''gateway-token'', p1)"
    and q: "quiet fk clock sched 0 p p1" "settled fk p1"
    using bearer_at_home [OF home p, of clock sched now] by auto
  obtain res s' where r: "serve_path fk (clock (length (sent p1))) path (rq fk)
      (enqueue (sched (length (sent p1))) (provider_at fk clock sched (sent p1))) = (Inr res, s')" "hr_Code res div 100 = 2"
    using ok by (metis prod.collapse)
  have "po_call (fake_net fk clock sched parse esc ord) now meth (fk_URL fk @ path) body dec p =
      (dec (hr_Body res), p1\<lparr>sent := sent p1 @ [rq fk]\<rparr>)"
    using r unfolding rq_def gateway_auth_def
    by (simp add: po_call_def act_bind_def act_check_def protected_at_home [OF home] b send_at_home [OF home, where path = path])
  with q r show ?thesis by blast
qed

lemma settled_frame [simp]: "settled fk (p\<lparr>sent := h\<rparr>) = settled fk p"
  by (simp add: settled_def)

lemma handle_streams_ok:
  "rq_Auth rq = gateway_auth \<Longrightarrow> rq_Method rq = ''GET'' \<or> rq_Method rq = ''POST'' \<Longrightarrow>
   \<exists>res. fst (serve_path fk t ''/ssf/streams'' rq s) = Inr res \<and> hr_Code res div 100 = 2"
  by (auto simp: serve_paths handle_streams_def ok_json_def)

text \<open>The streams the provider lists, and the one it creates.\<close>

lemma list_at_home:
  assumes home: "at_home fk parse esc ord" and p: "settled fk p"
  shows "\<exists>p'. po_call (fake_net fk clock sched parse esc ord) now ''GET'' (fk_URL fk @ ''/ssf/streams'') NoContent Inr p =
      (Inr (Json (JArr (if 0 < pv_streams (provider_at fk clock sched (sent p)) then [stream_doc fk] else []))), p') \<and>
    quiet fk clock sched 0 p p' \<and> settled fk p'"
proof -
  let ?rq = "\<lparr>rq_Method = ''GET'', rq_URL = fk_URL fk @ ''/ssf/streams'', rq_Auth = gateway_auth, rq_Content = NoContent\<rparr>"
  obtain p1 res s' where p1: "quiet fk clock sched 0 p p1" "settled fk p1"
    and sp: "serve_path fk (clock (length (sent p1))) ''/ssf/streams'' ?rq
      (enqueue (sched (length (sent p1))) (provider_at fk clock sched (sent p1))) = (Inr res, s')"
    and c: "po_call (fake_net fk clock sched parse esc ord) now ''GET'' (fk_URL fk @ ''/ssf/streams'') NoContent Inr p =
      (Inr (hr_Body res), p1\<lparr>sent := sent p1 @ [?rq]\<rparr>)"
    using call_at_home [OF home p, where path = "''/ssf/streams''" and meth = "''GET''" and body = NoContent and dec = Inr
        and clock = clock and sched = sched and now = now] handle_streams_ok by auto
  have "quiet fk clock sched 0 p1 (p1\<lparr>sent := sent p1 @ [?rq], token := token p1, tokenEnd := tokenEnd p1, tokenURL := tokenURL p1\<rparr>)"
    by (rule quiet_request [where s' = "\<lambda>s. s" and path = "''/ssf/streams''"]) (simp_all add: serve_paths handle_streams_def)
  with quiet_trans [OF p1(1) this] have "quiet fk clock sched 0 p (p1\<lparr>sent := sent p1 @ [?rq]\<rparr>)" by simp
  moreover have "pv_streams (provider_at fk clock sched (sent p1)) = pv_streams (provider_at fk clock sched (sent p))"
    using p1(1) by (simp add: quiet_def Let_def)
  with sp have "hr_Body res = Json (JArr (if 0 < pv_streams (provider_at fk clock sched (sent p)) then [stream_doc fk] else []))"
    by (simp add: serve_paths handle_streams_def ok_json_def split: if_splits) auto
  ultimately show ?thesis using c p1(2) by auto
qed

lemma create_at_home:
  assumes home: "at_home fk parse esc ord" and p: "settled fk p"
  shows "\<exists>p'. po_call (fake_net fk clock sched parse esc ord) now ''POST'' (fk_URL fk @ ''/ssf/streams'') StreamContent one_stream p =
      (Inr \<lparr>s_Method = deliveryPoll, s_EndpointURL = fk_URL fk @ ''/ssf/poll''\<rparr>, p') \<and>
    quiet fk clock sched 1 p p' \<and> settled fk p'"
proof -
  let ?rq = "\<lparr>rq_Method = ''POST'', rq_URL = fk_URL fk @ ''/ssf/streams'', rq_Auth = gateway_auth, rq_Content = StreamContent\<rparr>"
  obtain p1 res s' where p1: "quiet fk clock sched 0 p p1" "settled fk p1"
    and sp: "serve_path fk (clock (length (sent p1))) ''/ssf/streams'' ?rq
      (enqueue (sched (length (sent p1))) (provider_at fk clock sched (sent p1))) = (Inr res, s')"
    and c: "po_call (fake_net fk clock sched parse esc ord) now ''POST'' (fk_URL fk @ ''/ssf/streams'') StreamContent one_stream p =
      (one_stream (hr_Body res), p1\<lparr>sent := sent p1 @ [?rq]\<rparr>)"
    using call_at_home [OF home p, where path = "''/ssf/streams''" and meth = "''POST''" and body = StreamContent and dec = one_stream
        and clock = clock and sched = sched and now = now] handle_streams_ok by auto
  have "quiet fk clock sched 1 p1 (p1\<lparr>sent := sent p1 @ [?rq], token := token p1, tokenEnd := tokenEnd p1, tokenURL := tokenURL p1\<rparr>)"
    by (rule quiet_request [where s' = "\<lambda>s. s\<lparr>pv_streams := pv_streams s + 1\<rparr>" and path = "''/ssf/streams''"])
      (simp_all add: serve_paths handle_streams_def)
  with quiet_trans [OF p1(1) this] have "quiet fk clock sched 1 p (p1\<lparr>sent := sent p1 @ [?rq]\<rparr>)" by simp
  moreover have "one_stream (hr_Body res) = Inr \<lparr>s_Method = deliveryPoll, s_EndpointURL = fk_URL fk @ ''/ssf/poll''\<rparr>"
    using sp decode_documents(5) [of fk] by (simp add: serve_paths handle_streams_def one_stream_def split: if_splits) auto
  ultimately show ?thesis using c p1(2) by auto
qed

text \<open>The stream is found, or created when the receiver has none.\<close>

lemma setup_at_home:
  assumes home: "at_home fk parse esc ord" and p: "settled fk p"
  shows "\<exists>p' k. setup_stream (fake_net fk clock sched parse esc ord) now p = (Inr (), p'\<lparr>pollURL := fk_URL fk @ ''/ssf/poll''\<rparr>) \<and>
    settled fk p' \<and> quiet fk clock sched k p p' \<and>
    k = (if pv_streams (provider_at fk clock sched (sent p)) = 0 then 1 else 0)"
proof -
  let ?net = "fake_net fk clock sched parse esc ord"
  let ?ep = "fk_URL fk @ ''/ssf/streams''"
  have iss: "sc_Issuer (po_cfg p) = fk_URL fk" using p by (simp add: settled_def)
  obtain p1 where g: "po_get ?net (fk_URL fk @ wellKnown) (dec_member ''configuration_endpoint'') p = (Inr ?ep, p1)"
    and p1: "quiet fk clock sched 0 p p1" "settled fk p1"
    using get_at_home [OF home, of clock p wellKnown "handle_ssf_config fk" sched "dec_member ''configuration_endpoint''"]
      serve_paths(3) decode_documents(3,4) p by (auto simp: wellKnown_def)
  have n: "pv_streams (provider_at fk clock sched (sent p1)) = pv_streams (provider_at fk clock sched (sent p))"
    using p1(1) by (simp add: quiet_def Let_def)
  obtain p2 where c: "po_call ?net now ''GET'' ?ep NoContent Inr p1 =
      (Inr (Json (JArr (if 0 < pv_streams (provider_at fk clock sched (sent p)) then [stream_doc fk] else []))), p2)"
    and p2: "quiet fk clock sched 0 p1 p2" "settled fk p2"
    using list_at_home [OF home p1(2), of clock sched now] unfolding n by blast
  note q2 = quiet_trans [OF p1(1) p2(1), simplified]
  show ?thesis
  proof (cases "pv_streams (provider_at fk clock sched (sent p)) = 0")
    case False
    have "setup_stream ?net now p = (Inr (), p2\<lparr>pollURL := fk_URL fk @ ''/ssf/poll''\<rparr>)"
      using False by (simp add: setup_stream_def iss act_bind_def g c parse_streams_def all_streams_def decode_documents(5)
          usable_def)
    with False q2 p2(2) show ?thesis by auto
  next
    case True
    obtain p3 where c': "po_call ?net now ''POST'' ?ep StreamContent one_stream p2 =
        (Inr \<lparr>s_Method = deliveryPoll, s_EndpointURL = fk_URL fk @ ''/ssf/poll''\<rparr>, p3)"
      and p3: "quiet fk clock sched 1 p2 p3" "settled fk p3"
      using create_at_home [OF home p2(2), of clock sched now] by blast
    have "setup_stream ?net now p = (Inr (), p3\<lparr>pollURL := fk_URL fk @ ''/ssf/poll''\<rparr>)"
      using True by (simp add: setup_stream_def iss act_bind_def g c parse_streams_def all_streams_def c')
    with True quiet_trans [OF q2 p3(1)] p3(2) show ?thesis by auto
  qed
qed

section \<open>A turn\<close>

definition queued :: "(nat \<Rightarrow> string list) \<Rightarrow> nat \<Rightarrow> nat \<Rightarrow> string set" where
  "queued sched m n = (\<Union>i \<in> {m..<n}. set (sched i))"

lemma queued_concat: "set (concat (map sched [m..<n])) = queued sched m n"
  by (simp add: queued_def)

lemma queued_split: "m \<le> n \<Longrightarrow> queued sched 0 n = queued sched 0 m \<union> queued sched m n"
  by (simp add: queued_def ivl_disj_un UN_Un [symmetric] del: UN_Un)

lemma sets_of_events:
  assumes "\<And>m. set (ord m) = fmdom' m"
  shows "\<exists>js. sets_of ord (Json (jobj [(''sets'', JObj (foldl (\<lambda>m j. fmupd j v m) fmempty es))])) = Inr js \<and> set js = set es"
proof -
  have "fmdom' (foldl (\<lambda>m j. fmupd j v m) m0 es) = fmdom' m0 \<union> set es" for m0
    by (induction es arbitrary: m0) auto
  then show ?thesis using assms by (simp add: sets_of_def jobj_def)
qed

lemma poll_at_home:
  assumes home: "at_home fk parse esc ord" and p: "settled fk p" and u: "pollURL p = fk_URL fk @ ''/ssf/poll''"
  shows "\<exists>p'. poll_once (fake_net fk clock sched parse esc ord) now p = (Inr (), p') \<and> settled fk p' \<and> pollURL p' = pollURL p \<and>
    length (sent p) < length (sent p') \<and>
    (let s = provider_at fk clock sched (sent p); s' = provider_at fk clock sched (sent p') in
     Acked s' = Acked s @ acks p \<and> pv_events s' = [] \<and> PollSeen s' = PollSeen s + 1 \<and> pv_streams s' = pv_streams s \<and>
     set (acks p') = set (pv_events s) \<union> queued sched (length (sent p)) (length (sent p')) \<and>
     kick_pending p' = (kick_pending p \<or> acks p' \<noteq> []))"
proof -
  let ?rq = "\<lparr>rq_Method = ''POST'', rq_URL = fk_URL fk @ ''/ssf/poll'', rq_Auth = gateway_auth, rq_Content = PollContent (acks p)\<rparr>"
  have ok: "\<exists>res. fst (serve_path fk t ''/ssf/poll'' ?rq s) = Inr res \<and> hr_Code res div 100 = 2" for t s
    by (simp add: serve_paths handle_poll_def ok_json_def)
  obtain p1 res s' where p1: "quiet fk clock sched 0 p p1" "settled fk p1"
    and sp: "serve_path fk (clock (length (sent p1))) ''/ssf/poll'' ?rq
      (enqueue (sched (length (sent p1))) (provider_at fk clock sched (sent p1))) = (Inr res, s')"
    and c: "po_call (fake_net fk clock sched parse esc ord) now ''POST'' (fk_URL fk @ ''/ssf/poll'') (PollContent (acks p)) (sets_of ord) p =
      (sets_of ord (hr_Body res), p1\<lparr>sent := sent p1 @ [?rq]\<rparr>)"
    using call_at_home [OF home p, where path = "''/ssf/poll''" and meth = "''POST''" and body = "PollContent (acks p)"
        and dec = "sets_of ord" and clock = clock and sched = sched and now = now] ok by auto
  have "\<And>m. set (ord m) = fmdom' m" using home by (simp add: at_home_def)
  moreover have "hr_Body res = Json (jobj [(''sets'', JObj (foldl (\<lambda>m j. fmupd j (JStr ''a.set.jwt'') m) fmempty
      (pv_events (provider_at fk clock sched (sent p1)) @ sched (length (sent p1)))))])"
    using sp by (auto simp: serve_paths handle_poll_def ok_json_def)
  ultimately obtain js where js: "sets_of ord (hr_Body res) = Inr js"
    "set js = set (pv_events (provider_at fk clock sched (sent p1)) @ sched (length (sent p1)))"
    using sets_of_events by metis
  let ?p' = "p1\<lparr>sent := sent p1 @ [?rq], acks := js, kick_pending := kick_pending p1 \<or> js \<noteq> []\<rparr>"
  have once: "poll_once (fake_net fk clock sched parse esc ord) now p = (Inr (), ?p')"
    using c js(1) by (simp add: poll_once_def act_bind_def u)
  have s': "provider_at fk clock sched (sent p1 @ [?rq]) =
      (enqueue (sched (length (sent p1))) (provider_at fk clock sched (sent p1)))
        \<lparr>PollSeen := PollSeen (provider_at fk clock sched (sent p1)) + 1,
         Acked := Acked (provider_at fk clock sched (sent p1)) @ acks p, pv_events := []\<rparr>"
    by (simp add: provider_at_sent [where path = "''/ssf/poll''"] serve_paths handle_poll_def)
  have "[length (sent p)..<Suc (length (sent p1))] = [length (sent p)..<length (sent p1)] @ [length (sent p1)]"
    using p1(1) by (simp add: quiet_def Let_def)
  then have e: "set js = set (pv_events (provider_at fk clock sched (sent p))) \<union> queued sched (length (sent p)) (length (sent ?p'))"
    using p1(1) js(2) unfolding queued_concat [symmetric] by (simp add: quiet_def Let_def Un_assoc)
  have st: "settled fk ?p'" using p1(2) by (simp add: settled_def)
  have q: "kick_pending p1 = kick_pending p" "pollURL p1 = pollURL p" "length (sent p) \<le> length (sent p1)"
    "Acked (provider_at fk clock sched (sent p1)) = Acked (provider_at fk clock sched (sent p))"
    "PollSeen (provider_at fk clock sched (sent p1)) = PollSeen (provider_at fk clock sched (sent p))"
    "pv_streams (provider_at fk clock sched (sent p1)) = pv_streams (provider_at fk clock sched (sent p))"
    using p1(1) by (simp_all add: quiet_def same_events_def Let_def)
  show ?thesis
    by (rule exI [of _ ?p'], intro conjI once st) (use q e in \<open>simp_all add: Let_def s'\<close>)
qed

text \<open>\<open>Once\<close> polls after the set-up, if there was need of one.\<close>

lemma ready_at_home:
  assumes home: "at_home fk parse esc ord" and p: "settled fk p"
  shows "\<exists>q k. quiet fk clock sched k p q \<and> settled fk q \<and>
    k = (if pollURL p = [] \<and> pv_streams (provider_at fk clock sched (sent p)) = 0 then 1 else 0) \<and>
    Once (fake_net fk clock sched parse esc ord) now p =
      poll_once (fake_net fk clock sched parse esc ord) now (q\<lparr>pollURL := fk_URL fk @ ''/ssf/poll''\<rparr>)"
proof (cases "pollURL p = []")
  case True
  obtain q k where "setup_stream (fake_net fk clock sched parse esc ord) now p = (Inr (), q\<lparr>pollURL := fk_URL fk @ ''/ssf/poll''\<rparr>)"
    "settled fk q" "quiet fk clock sched k p q" "k = (if pv_streams (provider_at fk clock sched (sent p)) = 0 then 1 else 0)"
    using setup_at_home [OF home p, of clock sched now] by auto
  with True show ?thesis by (intro exI [of _ q] exI [of _ k]) (simp add: Once_def act_bind_def)
next
  case False
  then have "pollURL p = fk_URL fk @ ''/ssf/poll''" using p by (simp add: settled_def)
  then have "p\<lparr>pollURL := fk_URL fk @ ''/ssf/poll''\<rparr> = p" by (cases p) simp
  with False p show ?thesis by (intro exI [of _ p] exI [of _ 0]) (simp add: Once_def quiet_refl)
qed

text \<open>
  A turn: it succeeds, the provider has every acknowledgement the poller owed, nothing is left
  waiting, and the poller owes an acknowledgement of all that was.
\<close>

lemma turn_at_home:
  assumes home: "at_home fk parse esc ord" and p: "settled fk p"
  shows "\<exists>p'. poll_turn (fake_net fk clock sched parse esc ord) now p = p' \<and> settled fk p' \<and> pollURL p' \<noteq> [] \<and>
    length (sent p) < length (sent p') \<and>
    (let s = provider_at fk clock sched (sent p); s' = provider_at fk clock sched (sent p') in
     Acked s' = Acked s @ acks p \<and> pv_events s' = [] \<and> PollSeen s' = PollSeen s + 1 \<and>
     pv_streams s' = (if pollURL p = [] \<and> pv_streams s = 0 then 1 else pv_streams s) \<and>
     set (acks p') = set (pv_events s) \<union> queued sched (length (sent p)) (length (sent p')) \<and>
     kick_pending p' = (kick_pending p \<or> acks p' \<noteq> []))"
proof -
  let ?net = "fake_net fk clock sched parse esc ord"
  obtain q k where q: "quiet fk clock sched k p q" "settled fk q"
    and k: "k = (if pollURL p = [] \<and> pv_streams (provider_at fk clock sched (sent p)) = 0 then 1 else 0)"
    and o: "Once ?net now p = poll_once ?net now (q\<lparr>pollURL := fk_URL fk @ ''/ssf/poll''\<rparr>)"
    using ready_at_home [OF home p, of clock sched now] by blast
  let ?q = "q\<lparr>pollURL := fk_URL fk @ ''/ssf/poll''\<rparr>"
  have "settled fk ?q" using q(2) by (simp add: settled_def)
  from poll_at_home [OF home this, of clock sched now] obtain p' where once: "poll_once ?net now ?q = (Inr (), p')"
    and p': "settled fk p'" "pollURL p' \<noteq> []" "length (sent q) < length (sent p')"
      "Acked (provider_at fk clock sched (sent p')) = Acked (provider_at fk clock sched (sent q)) @ acks q"
      "pv_events (provider_at fk clock sched (sent p')) = []"
      "PollSeen (provider_at fk clock sched (sent p')) = PollSeen (provider_at fk clock sched (sent q)) + 1"
      "pv_streams (provider_at fk clock sched (sent p')) = pv_streams (provider_at fk clock sched (sent q))"
      "set (acks p') = set (pv_events (provider_at fk clock sched (sent q))) \<union> queued sched (length (sent q)) (length (sent p'))"
      "kick_pending p' = (kick_pending q \<or> acks p' \<noteq> [])"
    by (auto simp: Let_def)
  have pq: "acks q = acks p" "kick_pending q = kick_pending p" "length (sent p) \<le> length (sent q)"
    "Acked (provider_at fk clock sched (sent q)) = Acked (provider_at fk clock sched (sent p))"
    "PollSeen (provider_at fk clock sched (sent q)) = PollSeen (provider_at fk clock sched (sent p))"
    "pv_streams (provider_at fk clock sched (sent q)) = pv_streams (provider_at fk clock sched (sent p)) + k"
    "set (pv_events (provider_at fk clock sched (sent q))) =
       set (pv_events (provider_at fk clock sched (sent p))) \<union> queued sched (length (sent p)) (length (sent q))"
    using q(1) by (simp_all add: quiet_def same_events_def Let_def queued_concat [symmetric])
  have "queued sched (length (sent p)) (length (sent q)) \<union> queued sched (length (sent q)) (length (sent p')) =
      queued sched (length (sent p)) (length (sent p'))"
    using pq(3) p'(3) by (auto simp: queued_def) (meson atLeastLessThan_iff leI le_less_trans le_trans less_imp_le)+
  then have "set (acks p') = set (pv_events (provider_at fk clock sched (sent p))) \<union> queued sched (length (sent p)) (length (sent p'))"
    unfolding p'(8) pq(7) by (simp add: Un_assoc)
  moreover have "poll_turn ?net now p = p'" by (simp add: poll_turn_def o once)
  ultimately show ?thesis using p' pq k by (simp add: Let_def)
qed

lemma Run_Poller_snoc: "Run_Poller env (ticks @ [t]) p = poll_turn env t (Run_Poller env ticks p)"
  by (induction ticks arbitrary: p) simp_all

text \<open>The books after a run.\<close>

definition balanced :: "Fake \<Rightarrow> (nat \<Rightarrow> time) \<Rightarrow> (nat \<Rightarrow> string list) \<Rightarrow> nat \<Rightarrow> Poller \<Rightarrow> bool" where
  "balanced fk clock sched n p \<longleftrightarrow>
     (let s = provider_at fk clock sched (sent p) in
      settled fk p \<and> (pollURL p = [] \<longleftrightarrow> n = 0) \<and> pv_events s = [] \<and> PollSeen s = n \<and>
      pv_streams s = (if n = 0 then 0 else 1) \<and>
      set (Acked s) \<union> set (acks p) = queued sched 0 (length (sent p)) \<and>
      (kick_pending p \<longleftrightarrow> queued sched 0 (length (sent p)) \<noteq> {}))"

definition gateway_config :: "Fake \<Rightarrow> duration \<Rightarrow> SsfConfig" where
  "gateway_config fk interval =
     \<lparr>sc_Issuer = Issuer fk, sc_ClientID = GatewayID, sc_ClientSecret = Gateway_Secret, sc_Interval = interval\<rparr>"

lemma balanced_New: "at_home fk parse esc ord \<Longrightarrow> balanced fk clock sched 0 (New_Poller (gateway_config fk i))"
  by (simp add: balanced_def New_Poller_def New_Provider_def gateway_config_def settled_def at_home_def Issuer_def queued_def)

lemma balanced_turn:
  fixes now :: time
  assumes home: "at_home fk parse esc ord" and b: "balanced fk clock sched n p"
  defines "p' \<equiv> poll_turn (fake_net fk clock sched parse esc ord) now p"
  shows "balanced fk clock sched (Suc n) p'"
    and "set (Acked (provider_at fk clock sched (sent p'))) = queued sched 0 (length (sent p))"
proof -
  let ?s = "provider_at fk clock sched (sent p)" and ?s' = "provider_at fk clock sched (sent p')"
  have p: "settled fk p" "pollURL p = [] \<longleftrightarrow> n = 0" "pv_events ?s = []" "PollSeen ?s = n"
    "pv_streams ?s = (if n = 0 then 0 else 1)" "set (Acked ?s) \<union> set (acks p) = queued sched 0 (length (sent p))"
    "kick_pending p \<longleftrightarrow> queued sched 0 (length (sent p)) \<noteq> {}"
    using b by (simp_all add: balanced_def Let_def)
  have t: "settled fk p'" "pollURL p' \<noteq> []" "length (sent p) < length (sent p')"
     "Acked ?s' = Acked ?s @ acks p" "pv_events ?s' = []" "PollSeen ?s' = PollSeen ?s + 1"
     "pv_streams ?s' = (if pollURL p = [] \<and> pv_streams ?s = 0 then 1 else pv_streams ?s)"
     "set (acks p') = set (pv_events ?s) \<union> queued sched (length (sent p)) (length (sent p'))"
     "kick_pending p' = (kick_pending p \<or> acks p' \<noteq> [])"
    using turn_at_home [OF home p(1), of clock sched now] by (simp_all add: p'_def Let_def)
  show a: "set (Acked ?s') = queued sched 0 (length (sent p))" using t(4) p(6) by simp
  have u: "set (Acked ?s') \<union> set (acks p') = queued sched 0 (length (sent p'))"
    unfolding a t(8) p(3) using queued_split [of "length (sent p)" "length (sent p')" sched] t(3) by simp
  moreover have "kick_pending p' \<longleftrightarrow> queued sched 0 (length (sent p')) \<noteq> {}"
    unfolding t(9) p(7) u [symmetric] a by auto
  ultimately show "balanced fk clock sched (Suc n) p'"
    using t p by (simp add: balanced_def Let_def)
qed

lemma balanced_Run:
  "at_home fk parse esc ord \<Longrightarrow>
   balanced fk clock sched (length ticks) (Run_Poller (fake_net fk clock sched parse esc ord) ticks (New_Poller (gateway_config fk i)))"
  by (induction ticks rule: rev_induct) (simp_all add: balanced_New balanced_turn(1) Run_Poller_snoc)

end
