(* ===== verification/Provider_Claims.thy ===== *)
theory Provider_Claims
  imports Sample Fake_Poll
begin

text \<open>
  What the configuration, the identity providers, the registry of keys and the Shared Signals
  poller promise.
\<close>

section \<open>The registry\<close>

text \<open>The last element of a list with a property, as a split of the list.\<close>

lemma find_Some_split:
  "find P xs = Some x \<longleftrightarrow> (\<exists>before after. xs = before @ x # after \<and> P x \<and> (\<forall>y \<in> set before. \<not> P y))"
proof
  assume "find P xs = Some x"
  then obtain i where i: "i < length xs" "P (xs ! i)" "x = xs ! i" "\<forall>j < i. \<not> P (xs ! j)"
    by (auto simp: find_Some_iff)
  then have "xs = take i xs @ x # drop (Suc i) xs" by (simp add: id_take_nth_drop [symmetric])
  with i show "\<exists>before after. xs = before @ x # after \<and> P x \<and> (\<forall>y \<in> set before. \<not> P y)"
    by (intro exI [of _ "take i xs"] exI [of _ "drop (Suc i) xs"]) (auto simp: in_set_conv_nth)
next
  assume "\<exists>before after. xs = before @ x # after \<and> P x \<and> (\<forall>y \<in> set before. \<not> P y)"
  then obtain before after where "xs = before @ x # after" "P x" "\<forall>y \<in> set before. \<not> P y" by blast
  moreover from this(3) have "find P (before @ ys) = find P ys" for ys by (induction before) auto
  ultimately show "find P xs = Some x" by simp
qed

lemma find_rev_split:
  "find P (rev xs) = Some x \<longleftrightarrow> (\<exists>before after. xs = before @ x # after \<and> P x \<and> (\<forall>y \<in> set after. \<not> P y))"
proof -
  have "rev xs = b @ x # a \<longleftrightarrow> xs = rev a @ x # rev b" for a b
    by (metis append.assoc append_Cons append_Nil rev.simps(2) rev_append rev_rev_ident)
  then show ?thesis unfolding find_Some_split by (metis rev_rev_ident set_rev)
qed

text \<open>The registry after a run of the loop is that of the last list that arrived.\<close>

definition last_list :: "WgList result list \<Rightarrow> WgList option" where
  "last_list fetches = map_option projr (find (\<lambda>f. \<not> isl f) (rev fetches))"

lemma last_list_snoc: "last_list (fs @ [f]) = (case f of Inl _ \<Rightarrow> last_list fs | Inr l \<Rightarrow> Some l)"
  by (cases f) (simp_all add: last_list_def)

lemma last_list_Some:
  "last_list fs = Some l \<longleftrightarrow> (\<exists>before after. fs = before @ Inr l # after \<and> (\<forall>f \<in> set after. isl f))"
proof -
  have "last_list fs = Some l \<longleftrightarrow> find (\<lambda>f. \<not> isl f) (rev fs) = Some (Inr l)"
  proof (cases "find (\<lambda>f. \<not> isl f) (rev fs)")
    case (Some f)
    then have "\<not> isl f" by (auto simp: find_rev_split)
    with Some show ?thesis by (cases f) (simp_all add: last_list_def)
  qed (simp add: last_list_def)
  then show ?thesis by (simp add: find_rev_split)
qed

definition registry_of :: "WgList option \<Rightarrow> Registry" where
  "registry_of l = (case l of None \<Rightarrow> New_Registry | Some l \<Rightarrow> \<lparr>reg_list = Some l, byKey = index_peers (wl_Peers l)\<rparr>)"

lemma Run_snoc: "fst (Run onList (fs @ [f]) r s) = snd (Refresh f (fst (Run onList fs r s)))"
  by (induction fs arbitrary: r s) (simp_all split: prod.splits sum.splits)

lemma Run_registry: "fst (Run onList fs New_Registry s) = registry_of (last_list fs)"
proof (induction fs rule: rev_induct)
  case (snoc f fs)
  then show ?case by (cases f) (simp_all add: Run_snoc last_list_snoc Refresh_def registry_of_def)
qed (simp add: last_list_def registry_of_def)

lemma index_peers_split:
  "fmlookup (index_peers ps) k = Some p \<longleftrightarrow>
     (\<exists>before after. ps = before @ p # after \<and> wg_Key p = k \<and> (\<forall>q \<in> set after. wg_Key q \<noteq> k))"
  unfolding index_peers_last by (rule find_rev_split)

lemma Allowed_registry_of:
  "Allowed now (registry_of l) key subject \<longleftrightarrow>
     (\<exists>l' p. l = Some l' \<and> now < wl_Expires l' \<and> fmlookup (index_peers (wl_Peers l')) key = Some p \<and>
        now < wg_Expires p \<and> wg_Subject p = subject)"
  by (auto simp: Allowed_def Lookup_def registry_of_def New_Registry_def split: option.splits)

text \<open>
  C20: Whom the registry admits. Whatever the loop has fetched so far, a key is admitted for a
  subject exactly if the last list that arrived has not expired, and the last registration of
  that key in it has not expired and is that subject's. A fetch that fails changes nothing, and
  before the first list nobody is admitted.
\<close>

theorem registry_admits:
  "Allowed now (fst (Run onList fetches New_Registry s)) key subject \<longleftrightarrow>
     (\<exists>before l after. fetches = before @ Inr l # after \<and> (\<forall>f \<in> set after. isl f) \<and> now < wl_Expires l \<and>
       (\<exists>ps p qs. wl_Peers l = ps @ p # qs \<and> wg_Key p = key \<and> (\<forall>q \<in> set qs. wg_Key q \<noteq> key) \<and>
          wg_Subject p = subject \<and> now < wg_Expires p))"
  unfolding Run_registry Allowed_registry_of last_list_Some index_peers_split by blast

definition moved_key :: WgList where
  "moved_key = \<lparr>wl_Version = 2,
     wl_Peers = [\<lparr>wg_Key = ''k'', wg_Subject = ''alice'', wg_Expires = 9\<rparr>,
                 \<lparr>wg_Key = ''k'', wg_Subject = ''bob'', wg_Expires = 8\<rparr>,
                 \<lparr>wg_Key = ''m'', wg_Subject = ''alice'', wg_Expires = 9\<rparr>],
     wl_Expires = 20\<rparr>"

theorem registry_admits_witness:
  "Allowed 5 (fst (Run (\<lambda>_ _ s. s) [Inr moved_key, Inl ''timeout''] New_Registry ())) ''k'' ''bob''"
  unfolding registry_admits
  by (rule exI [of _ "[]"], rule exI [of _ moved_key], rule exI [of _ "[Inl ''timeout'']"])
    (simp add: moved_key_def, rule exI [of _ "[\<lparr>wg_Key = ''k'', wg_Subject = ''alice'', wg_Expires = 9\<rparr>]"], simp)

section \<open>The configuration\<close>

text \<open>The names \<open>required\<close> holds, for a provider.\<close>

definition required_names :: "string \<Rightarrow> string set" where
  "required_names provider =
     {''WG_ENDPOINT'', ''WG_PRIVATE_KEY''} \<union>
     (if provider = ''oidc'' \<or> provider = ''go-authn'' then {''OIDC_ISSUER'', ''OIDC_CLIENT_ID''} else {}) \<union>
     (if provider = ''go-authn'' then {''GOAUTHN_GATEWAY_CLIENT_ID'', ''GOAUTHN_GATEWAY_SECRET_FILE''} else {})"

lemma base_required_lookup:
  "fmlookup (base_required c) ''WG_ENDPOINT'' = Some (WGEndpoint c)"
  "fmlookup (base_required c) ''WG_PRIVATE_KEY'' = Some (WGPrivateKey c)"
  by (simp_all add: base_required_def)

lemma oidc_required_lookup:
  "fmlookup (oidc_required c) ''WG_ENDPOINT'' = Some (WGEndpoint c)"
  "fmlookup (oidc_required c) ''WG_PRIVATE_KEY'' = Some (WGPrivateKey c)"
  "fmlookup (oidc_required c) ''OIDC_ISSUER'' = Some (OIDCIssuer c)"
  "fmlookup (oidc_required c) ''OIDC_CLIENT_ID'' = Some (OIDCClientID c)"
  by (simp_all add: oidc_required_def base_required_lookup)

text \<open>What the provider's settings leave alone, and what they require.\<close>

lemma provider_settings_cases:
  assumes "provider_settings getenv readFile c = Inr (c', required)"
  obtains (github) "AuthProvider c = ''github''" "c' = c" "required = base_required c"
  | (oidc) "AuthProvider c = ''oidc''" "c' = c" "required = oidc_required c"
  | (goauthn) sec where "AuthProvider c = ''go-authn''" "c' = c\<lparr>GatewaySecret := sec\<rparr>" "0 < PeerListInterval c"
      "sec = [] \<longleftrightarrow> getenv ''GOAUTHN_GATEWAY_SECRET_FILE'' = []"
      "required = fmupd ''GOAUTHN_GATEWAY_SECRET_FILE'' (getenv ''GOAUTHN_GATEWAY_SECRET_FILE'')
         (fmupd ''GOAUTHN_GATEWAY_CLIENT_ID'' (GatewayClientID c) (oidc_required c))"
  using assms
  by (auto simp: provider_settings_def Let_def split: if_splits sum.splits)

lemma read_config_lists:
  "AllowedDomains (read_config pd getenv) = splitCSV (getenv ''OIDC_ALLOWED_DOMAINS'')"
  "GitHubAllowedOrgs (read_config pd getenv) = splitCSV (getenv ''GITHUB_ALLOWED_ORGS'')"
  by (simp_all add: read_config_def)

lemma Load_Inr:
  assumes "Load pd getenv readFile ks = Inr c"
  obtains c1 required where "resolve_key getenv readFile (read_config pd getenv) = Inr c1"
    "provider_settings getenv readFile (default_routes c1) = Inr (c, required)"
    "\<forall>k \<in> set ks. fmlookup required k \<noteq> Some []"
proof -
  obtain c1 where r: "resolve_key getenv readFile (read_config pd getenv) = Inr c1"
    using assms by (cases "resolve_key getenv readFile (read_config pd getenv)") (simp_all add: Load_def)
  obtain c2 required where p: "provider_settings getenv readFile (default_routes c1) = Inr (c2, required)"
    using assms by (cases "provider_settings getenv readFile (default_routes c1)") (auto simp: Load_def r)
  have "c2 = c \<and> (\<forall>k \<in> set ks. fmlookup required k \<noteq> Some [])"
    using assms by (simp add: Load_def r p Let_def filter_empty_conv split: if_splits)
  with r p show thesis by (intro that) auto
qed

text \<open>
  C33: What a loaded configuration has, whatever the order in which the required settings are
  visited: one of the three providers, an endpoint and a private key, at least one route to
  push, for a token issuer its URL and audience, for go-authn also the gateway's client, a secret
  that is not blank and a positive interval; and no allowlist has an empty entry, which would
  otherwise match an empty name.
\<close>

theorem config_loaded:
  assumes load: "Load pd getenv readFile ks = Inr c"
    and ks: "set ks = required_names (AuthProvider c)"
  shows "AuthProvider c \<in> {''github'', ''oidc'', ''go-authn''} \<and>
    WGEndpoint c \<noteq> [] \<and> WGPrivateKey c \<noteq> [] \<and> PushRoutes c \<noteq> [] \<and>
    (AuthProvider c \<noteq> ''github'' \<longrightarrow> OIDCIssuer c \<noteq> [] \<and> OIDCClientID c \<noteq> []) \<and>
    (AuthProvider c = ''go-authn'' \<longrightarrow>
      GatewayClientID c \<noteq> [] \<and> GatewaySecret c \<noteq> [] \<and> 0 < PeerListInterval c) \<and>
    (\<forall>d \<in> set (AllowedDomains c) \<union> set (GitHubAllowedOrgs c). d \<noteq> [] \<and> CHR '','' \<notin> set d)"
proof -
  obtain c1 required where r: "resolve_key getenv readFile (read_config pd getenv) = Inr c1"
    and p: "provider_settings getenv readFile (default_routes c1) = Inr (c, required)"
    and "\<forall>k \<in> set ks. fmlookup required k \<noteq> Some []"
    using Load_Inr [OF load] by blast
  then have m: "\<And>k. k \<in> set ks \<Longrightarrow> fmlookup required k \<noteq> Some []" by blast
  have routes: "PushRoutes (default_routes c1) \<noteq> []" by (simp add: default_routes_def)
  have lists: "AllowedDomains (default_routes c1) = splitCSV (getenv ''OIDC_ALLOWED_DOMAINS'')"
    "GitHubAllowedOrgs (default_routes c1) = splitCSV (getenv ''GITHUB_ALLOWED_ORGS'')"
    by (subst resolve_key_frame [OF r]; simp add: default_routes_def read_config_lists)+
  have "AuthProvider c \<in> {''github'', ''oidc'', ''go-authn''} \<and>
    (WGEndpoint c \<noteq> [] \<and> WGPrivateKey c \<noteq> [] \<and> PushRoutes c \<noteq> []) \<and>
    (AuthProvider c \<noteq> ''github'' \<longrightarrow> OIDCIssuer c \<noteq> [] \<and> OIDCClientID c \<noteq> []) \<and>
    (AuthProvider c = ''go-authn'' \<longrightarrow> GatewayClientID c \<noteq> [] \<and> GatewaySecret c \<noteq> [] \<and> 0 < PeerListInterval c) \<and>
    AllowedDomains c = AllowedDomains (default_routes c1) \<and> GitHubAllowedOrgs c = GitHubAllowedOrgs (default_routes c1)"
    using p
  proof (cases rule: provider_settings_cases)
    case github
    then show ?thesis
      using routes m [of "''WG_ENDPOINT''"] m [of "''WG_PRIVATE_KEY''"]
      by (simp add: ks required_names_def base_required_lookup)
  next
    case oidc
    then show ?thesis
      using routes m [of "''WG_ENDPOINT''"] m [of "''WG_PRIVATE_KEY''"] m [of "''OIDC_ISSUER''"] m [of "''OIDC_CLIENT_ID''"]
      by (simp add: ks required_names_def oidc_required_lookup)
  next
    case (goauthn sec)
    then show ?thesis
      using routes m [of "''WG_ENDPOINT''"] m [of "''WG_PRIVATE_KEY''"] m [of "''OIDC_ISSUER''"] m [of "''OIDC_CLIENT_ID''"]
        m [of "''GOAUTHN_GATEWAY_CLIENT_ID''"] m [of "''GOAUTHN_GATEWAY_SECRET_FILE''"]
      by (simp add: ks required_names_def oidc_required_lookup)
  qed
  moreover have "d \<noteq> [] \<and> CHR '','' \<notin> set d"
    if "d \<in> set (splitCSV (getenv ''OIDC_ALLOWED_DOMAINS'')) \<union> set (splitCSV (getenv ''GITHUB_ALLOWED_ORGS''))" for d
    using that splitCSV_parts by blast
  ultimately show ?thesis by (simp add: lists)
qed

definition goauthn_env :: "string \<Rightarrow> string" where
  "goauthn_env k =
     (case map_of [(''AUTH_PROVIDER'', ''go-authn''), (''WG_ENDPOINT'', ''vpn.example:51820''),
        (''WG_PRIVATE_KEY'', ''priv''), (''OIDC_ISSUER'', ''https://id.example''), (''OIDC_CLIENT_ID'', ''claimward''),
        (''GOAUTHN_GATEWAY_CLIENT_ID'', ''gw''), (''GOAUTHN_GATEWAY_SECRET_FILE'', ''/run/secret'')] k of
        Some v \<Rightarrow> v | None \<Rightarrow> [])"

definition goauthn_files :: "string \<Rightarrow> string result" where
  "goauthn_files f = (if f = ''/run/secret'' then Inr ''s3cret'' else Inl ''no such file'')"

definition goauthn_names :: "string list" where
  "goauthn_names = [''OIDC_CLIENT_ID'', ''WG_ENDPOINT'', ''GOAUTHN_GATEWAY_CLIENT_ID'', ''WG_PRIVATE_KEY'',
     ''GOAUTHN_GATEWAY_SECRET_FILE'', ''OIDC_ISSUER'']"

definition goauthn_cfg :: Config where
  "goauthn_cfg = (default_routes (read_config (\<lambda>_. None) goauthn_env))\<lparr>GatewaySecret := ''s3cret''\<rparr>"

lemma goauthn_Load: "Load (\<lambda>_. None) goauthn_env goauthn_files goauthn_names = Inr goauthn_cfg"
proof -
  have s: "TrimSpace ''s3cret'' = ''s3cret''" by (rule TrimSpace_graphic) (simp add: graphic_def)
  let ?c = "read_config (\<lambda>_. None) goauthn_env"
  have r: "resolve_key goauthn_env goauthn_files ?c = Inr ?c"
    by (simp add: resolve_key_def goauthn_env_def)
  have c: "AuthProvider (default_routes ?c) = ''go-authn''" "0 < PeerListInterval (default_routes ?c)"
    "GatewayClientID (default_routes ?c) = ''gw''" "OIDCIssuer (default_routes ?c) = ''https://id.example''"
    "OIDCClientID (default_routes ?c) = ''claimward''" "WGEndpoint (default_routes ?c) = ''vpn.example:51820''"
    "WGPrivateKey (default_routes ?c) = ''priv''"
    by (simp_all add: default_routes_def read_config_def env_def durEnv_def goauthn_env_def second_def)
  have e: "goauthn_env ''GOAUTHN_GATEWAY_SECRET_FILE'' = ''/run/secret''" by (simp add: goauthn_env_def)
  have p: "provider_settings goauthn_env goauthn_files (default_routes ?c) =
      Inr (goauthn_cfg, fmupd ''GOAUTHN_GATEWAY_SECRET_FILE'' ''/run/secret''
        (fmupd ''GOAUTHN_GATEWAY_CLIENT_ID'' ''gw'' (oidc_required (default_routes ?c))))"
    using c by (simp add: provider_settings_def e goauthn_files_def s Let_def goauthn_cfg_def)
  let ?req = "fmupd ''GOAUTHN_GATEWAY_SECRET_FILE'' ''/run/secret''
        (fmupd ''GOAUTHN_GATEWAY_CLIENT_ID'' ''gw'' (oidc_required (default_routes ?c)))"
  have "list_all (\<lambda>k. fmlookup ?req k \<noteq> Some []) goauthn_names"
    by (simp add: goauthn_names_def oidc_required_lookup c)
  then have m: "filter (\<lambda>k. fmlookup ?req k = Some []) goauthn_names = []"
    by (simp add: filter_empty_conv list_all_iff)
  show ?thesis
    unfolding Load_def r p Let_def sum.case prod.case m by simp
qed

theorem config_loaded_witness: "GatewaySecret goauthn_cfg \<noteq> [] \<and> PushRoutes goauthn_cfg \<noteq> []"
proof -
  have p: "AuthProvider goauthn_cfg = ''go-authn''"
    by (simp add: goauthn_cfg_def default_routes_def read_config_def env_def goauthn_env_def)
  have "set goauthn_names = required_names (AuthProvider goauthn_cfg)"
    unfolding p by (simp add: goauthn_names_def required_names_def insert_commute)
  from config_loaded [OF goauthn_Load this] p show ?thesis by simp
qed

section \<open>The identity providers\<close>

lemma GitHub_Verify_Inr:
  assumes "GitHub_Verify api v cred = Inr cl"
  shows "\<exists>user orgs. gh_get api v cred ''/user'' (gh_user api) = Inr user \<and> gh_ID user \<noteq> 0 \<and> gh_Login user \<noteq> [] \<and>
    gh_get api v cred ''/user/orgs'' (gh_orgs api) = Inr orgs \<and>
    (gv_allowedOrgs v \<noteq> [] \<longrightarrow> inAllowedOrg api v cred (gv_allowedOrgs v)) \<and>
    cl = \<lparr>c_Subject = ''github:'' @ itoa_int (gh_ID user), c_Email = gh_Email user,
          c_EmailVerified = (gh_Email user \<noteq> []), c_Login = gh_Login user, c_Groups = orgs, c_IdP = []\<rparr>"
  using assms by (auto simp: GitHub_Verify_def Let_def split: sum.splits if_splits)

lemma OIDC_Verify_Inr:
  assumes "OIDC_Verify verify domains cred = Inr cl"
  shows "\<exists>tok raw. verify cred = Inr tok \<and> tok_Claims tok = Inr raw \<and>
    (domains \<noteq> [] \<longrightarrow> domainAllowed (raw_Email raw) domains) \<and>
    cl = \<lparr>c_Subject = tok_Subject tok, c_Email = raw_Email raw, c_EmailVerified = raw_EmailVerified raw,
          c_Login = raw_PreferredUsername raw, c_Groups = stringList (raw_Groups raw), c_IdP = []\<rparr>"
  using assms by (auto simp: OIDC_Verify_def Let_def split: sum.splits if_splits)

lemma GoAuthn_Verify_Inr:
  assumes "GoAuthn_Verify verify cred = Inr cl"
  shows "\<exists>tok. verify cred = Inr tok \<and> gt_Subject tok \<noteq> [] \<and>
    cl = \<lparr>c_Subject = gt_Subject tok, c_Email = (if gt_EmailVerified tok then gt_Email tok else []),
          c_EmailVerified = gt_EmailVerified tok, c_Login = gt_Username tok, c_Groups = gt_Groups tok, c_IdP = gt_idp tok\<rparr>"
  using assms by (auto simp: GoAuthn_Verify_def split: sum.splits if_splits)

text \<open>An address with an allowed domain after its last \<open>@\<close>.\<close>

lemma domainAllowedD:
  assumes "domainAllowed email allowed"
  shows "\<exists>name domain. email = name @ CHR ''@'' # domain \<and> CHR ''@'' \<notin> set domain \<and>
    (\<exists>d \<in> set allowed. EqualFold (TrimSpace d) domain)"
proof -
  have "CHR ''@'' \<in> set email" using assms domainAllowed_no_at by blast
  then obtain name domain where e: "email = name @ CHR ''@'' # domain" "CHR ''@'' \<notin> set domain"
    by (metis split_list_last)
  with assms show ?thesis by (auto simp: domainAllowed_split)
qed

text \<open>
  C32: What an accepted credential shows, for the provider the configuration names. With GitHub:
  the API knows the token's user, whose number makes the subject, and if organisations are
  listed the user's membership of one of them is active. With an OIDC issuer: the token is
  valid for this issuer and audience, its subject is the one it names, and if domains are listed
  its address ends in one of them. With go-authn: the token is a valid access token for this
  issuer and audience, with a subject, and only a verified address is passed on.
\<close>

theorem accepted_identity:
  assumes new: "New_Verifier pr opts = Inr v" and ok: "v cred = Inr cl"
  shows "(o_Provider opts \<in> {[], ''github''} \<longrightarrow>
      (let gh = NewGitHubVerifier (o_GitHubAPIURL opts) (o_GitHubAllowedOrgs opts); api = pr_github pr in
       (\<exists>user. gh_get api gh cred ''/user'' (gh_user api) = Inr user \<and> gh_ID user \<noteq> 0 \<and>
          c_Subject cl = ''github:'' @ itoa_int (gh_ID user) \<and> c_Login cl = gh_Login user \<and> c_Login cl \<noteq> []) \<and>
       (o_GitHubAllowedOrgs opts \<noteq> [] \<longrightarrow>
         (\<exists>org \<in> set (o_GitHubAllowedOrgs opts). TrimSpace org \<noteq> [] \<and>
            gh_get api gh cred (''/user/memberships/orgs/'' @ TrimSpace org) (gh_state api) = Inr ''active'')))) \<and>
    (o_Provider opts = ''oidc'' \<longrightarrow>
      (\<exists>verify tok. pr_oidc pr (o_Issuer opts) (o_ClientID opts) = Inr verify \<and> verify cred = Inr tok \<and>
         c_Subject cl = tok_Subject tok) \<and>
      (o_AllowedDomains opts \<noteq> [] \<longrightarrow>
         (\<exists>name domain. c_Email cl = name @ CHR ''@'' # domain \<and> CHR ''@'' \<notin> set domain \<and>
            (\<exists>d \<in> set (o_AllowedDomains opts). EqualFold (TrimSpace d) domain)))) \<and>
    (o_Provider opts = ''go-authn'' \<longrightarrow>
      (\<exists>verify tok. pr_goauthn pr (o_Issuer opts) (o_ClientID opts) ''at+jwt'' = Inr verify \<and> verify cred = Inr tok \<and>
         c_Subject cl = gt_Subject tok \<and> c_Subject cl \<noteq> []) \<and>
      (c_Email cl \<noteq> [] \<longrightarrow> c_EmailVerified cl)) \<and>
    o_Provider opts \<in> {[], ''github'', ''oidc'', ''go-authn''}"
proof -
  consider (github) "o_Provider opts = [] \<or> o_Provider opts = ''github''"
    | (oidc) "o_Provider opts = ''oidc''" | (goauthn) "o_Provider opts = ''go-authn''"
    using new by (auto simp: New_Verifier_def split: if_splits)
  then show ?thesis
  proof cases
    case github
    with new have "v = GitHub_Verify (pr_github pr) (NewGitHubVerifier (o_GitHubAPIURL opts) (o_GitHubAllowedOrgs opts))"
      by (auto simp: New_Verifier_def)
    from GitHub_Verify_Inr [OF ok [unfolded this]] github show ?thesis
      by (auto simp: Let_def inAllowedOrg_iff NewGitHubVerifier_def)
  next
    case oidc
    with new obtain verify where pr: "pr_oidc pr (o_Issuer opts) (o_ClientID opts) = Inr verify"
      and v: "v = OIDC_Verify verify (o_AllowedDomains opts)"
      by (auto simp: New_Verifier_def NewOIDCVerifier_def split: sum.splits)
    from OIDC_Verify_Inr [OF ok [unfolded v]] oidc pr show ?thesis
      using domainAllowedD [of _ "o_AllowedDomains opts"] by auto
  next
    case goauthn
    with new obtain verify where pr: "pr_goauthn pr (o_Issuer opts) (o_ClientID opts) ''at+jwt'' = Inr verify"
      and v: "v = GoAuthn_Verify verify"
      by (auto simp: New_Verifier_def NewGoAuthnVerifier_def split: sum.splits)
    from GoAuthn_Verify_Inr [OF ok [unfolded v]] goauthn pr show ?thesis by (auto split: if_splits)
  qed
qed

definition one_token :: Providers where
  "one_token = sample_providers\<lparr>pr_goauthn := (\<lambda>issuer audience typ. Inr (\<lambda>t.
     if t = ''T'' then Inr \<lparr>gt_Subject = ''ann'', gt_Username = ''ann'', gt_EmailVerified = False, gt_Groups = [],
                          gt_idp = [], gt_Email = ''ann@corp.example''\<rparr>
     else Inl ''bad signature''))\<rparr>"

definition ask_goauthn :: Options where
  "ask_goauthn = \<lparr>o_Provider = ''go-authn'', o_Issuer = ''https://id.example'', o_ClientID = ''claimward'',
     o_AllowedDomains = [], o_GitHubAPIURL = [], o_GitHubAllowedOrgs = []\<rparr>"

theorem accepted_identity_witness:
  "\<exists>v cl. New_Verifier one_token ask_goauthn = Inr v \<and> v ''T'' = Inr cl \<and> c_Subject cl \<noteq> [] \<and> c_Email cl = []"
proof -
  obtain v cl where v: "New_Verifier one_token ask_goauthn = Inr v" and c: "v ''T'' = Inr cl"
    "\<not> c_EmailVerified cl"
    by (auto simp: New_Verifier_def NewGoAuthnVerifier_def GoAuthn_Verify_def one_token_def ask_goauthn_def)
  have "o_Provider ask_goauthn = ''go-authn''" by (simp add: ask_goauthn_def)
  with accepted_identity [OF v c(1)] v c show ?thesis by auto
qed

lemma itoa_int_inject: "itoa_int m = itoa_int n \<longleftrightarrow> m = n"
proof -
  have sign: "itoa k \<noteq> CHR ''-'' # s" for k s
    using itoa_digits [of k] by (auto simp: is_digit_def)
  show ?thesis
    by (auto simp: itoa_int_def itoa_inject sign sign [symmetric] split: if_splits)
qed

text \<open>
  Two credentials GitHub accepts give one subject exactly if they are the same account's:
  whoever a device is registered to, no other account can act for it.
\<close>

theorem github_identity:
  assumes "GitHub_Verify api v t1 = Inr c1" "GitHub_Verify api v t2 = Inr c2"
  shows "\<exists>u1 u2. gh_get api v t1 ''/user'' (gh_user api) = Inr u1 \<and> gh_get api v t2 ''/user'' (gh_user api) = Inr u2 \<and>
    (c_Subject c1 = c_Subject c2 \<longleftrightarrow> gh_ID u1 = gh_ID u2)"
  using GitHub_Verify_Inr [OF assms(1)] GitHub_Verify_Inr [OF assms(2)] by (auto simp: itoa_int_inject)

definition two_users :: GitHubAPI where
  "two_users = \<lparr>gh_do = (\<lambda>t url. Inr (200, t)),
     gh_user = (\<lambda>b. Inr \<lparr>gh_ID = (if b = ''A'' then 1 else 12), gh_Login = b, gh_Email = []\<rparr>),
     gh_orgs = (\<lambda>_. Inr []), gh_state = (\<lambda>_. Inr ''pending'')\<rparr>"

theorem github_identity_witness:
  "\<exists>c1 c2. GitHub_Verify two_users (NewGitHubVerifier [] []) ''A'' = Inr c1 \<and>
    GitHub_Verify two_users (NewGitHubVerifier [] []) ''B'' = Inr c2 \<and> c_Subject c1 \<noteq> c_Subject c2"
proof -
  let ?v = "NewGitHubVerifier [] []"
  have u: "gh_get two_users ?v t ''/user'' (gh_user two_users) =
      Inr \<lparr>gh_ID = (if t = ''A'' then 1 else 12), gh_Login = t, gh_Email = []\<rparr>" for t
    by (simp add: gh_get_def two_users_def)
  have "\<exists>c. GitHub_Verify two_users ?v t = Inr c" if "t \<noteq> []" for t
    using that by (simp add: GitHub_Verify_def u Let_def) (simp add: gh_get_def two_users_def NewGitHubVerifier_def Let_def)
  then obtain c1 c2 where "GitHub_Verify two_users ?v ''A'' = Inr c1" "GitHub_Verify two_users ?v ''B'' = Inr c2"
    by blast
  with github_identity [OF this] show ?thesis by (auto simp: u)
qed

section \<open>The Shared Signals poller\<close>

text \<open>The provider of the tests, on this host, and the poller on its network.\<close>

definition home_fake :: Fake where
  "home_fake = \<lparr>fk_URL = ''http://127.0.0.1:9'', fk_n = ''n'', fk_e = ''e'', fk_sign = Inr, fk_Marshal = (\<lambda>_. Inr ''{}''),
     ListPath = ''/wireguard/peers'', ListType = ''list'', ScopePeers = ''peers'', ListClaims = (\<lambda>_ _ _ _. fmempty)\<rparr>"

definition home_parse :: "string \<Rightarrow> URL result" where
  "home_parse raw =
     (if take 17 raw = ''http://127.0.0.1:'' then Inr \<lparr>u_Scheme = ''http'', u_Hostname = ''127.0.0.1''\<rparr>
      else Inl ''not a URL'')"

definition key_order :: "(string, json) fmap \<Rightarrow> string list" where
  "key_order m = sorted_list_of_fset (fmdom m)"

definition two_events :: "nat \<Rightarrow> string list" where
  "two_events n = (if n = 0 then [''e1'', ''e2''] else [])"

definition home_net :: "document Env" where
  "home_net = fake_net home_fake (\<lambda>_. 0) two_events home_parse (\<lambda>s. s) key_order"

definition home_poller :: Poller where
  "home_poller = New_Poller (gateway_config home_fake 0)"

lemma at_home_fake: "at_home home_fake home_parse (\<lambda>s. s) key_order"
  by (simp add: at_home_def home_fake_def home_parse_def key_order_def trim_char_right_def fmdom'_alt_def)

lemma home_balanced: "balanced home_fake (\<lambda>_. 0) two_events (length ticks) (Run_Poller home_net ticks home_poller)"
  unfolding home_net_def home_poller_def by (rule balanced_Run [OF at_home_fake])

lemma home_sent: "ticks \<noteq> [] \<Longrightarrow> sent (Run_Poller home_net ticks home_poller) \<noteq> []"
  using home_balanced [of ticks] by (auto simp: balanced_def Let_def New_Provider_def)

text \<open>
  C34: The poller's requests. Every request the poller makes itself goes to an https URL or to this
  host. Its client also follows redirects, and those are not checked: any other request is the
  redirect (301, 302, 303, 307 or 308) of the answer to the request before it, resolved against
  that one's URL. Such a request carries no credentials, or those of an earlier request that went
  to https or to this host, if the target's host is that one's or below it; the target may be in
  the clear.
\<close>

theorem ssf_guarded:
  fixes nt :: "'b Env"
  defines "secure raw \<equiv> \<exists>u. url_Parse nt raw = Inr u \<and>
    (u_Scheme u = ''https'' \<or> u_Scheme u = ''http'' \<and> u_Hostname u \<in> {''localhost'', ''127.0.0.1'', ''::1''})"
  assumes "i < length (sent (Run_Poller nt ticks (New_Poller c)))"
  shows "let log = sent (Run_Poller nt ticks (New_Poller c)); rq = log ! i; before = log ! (i - 1) in
    secure (rq_URL rq) \<or>
    0 < i \<and> (\<exists>first \<in> set (take i log). \<exists>res target. secure (rq_URL first) \<and>
      answer nt (take (i - 1) log) before = Inr res \<and> hr_Code res \<in> {301, 302, 303, 307, 308} \<and>
      url_Resolve nt (rq_URL before) (hr_Location res) = Inr (rq_URL rq, target) \<and>
      (rq_Auth rq = NoAuth \<or>
       rq_Auth rq = rq_Auth first \<and> isDomainOrSubdomain (u_Hostname target) (hostname nt (rq_URL first))))"
proof -
  let ?log = "sent (Run_Poller nt ticks (New_Poller c))"
  have sec: "secure raw" if "protected nt raw = None" for raw
    using that by (auto simp: secure_def protected_def split: sum.splits if_splits)
  have "guarded nt (New_Poller c)" by (simp add: guarded_def all_accounted_def New_Poller_def)
  from guarded_Run [OF this] assms(2) have "accounted nt ?log i" by (simp add: guarded_def all_accounted_def)
  then consider "secure (rq_URL (?log ! i))"
    | first where "first \<in> set (take i ?log)" "secure (rq_URL first)" "follows nt ?log i first"
    using sec by (auto simp: accounted_def)
  then show ?thesis
  proof cases
    case 2
    then obtain res where res: "answer nt (take (i - 1) ?log) (?log ! (i - 1)) = Inr res"
      "redirect nt first (?log ! (i - 1)) res = Inr (Some (?log ! i))"
      and f: "0 < i" "rq_Auth (?log ! i) \<in> {NoAuth, rq_Auth first}" by (auto simp: follows_def)
    from redirect_Some [OF res(2)] f 2 res(1) show ?thesis unfolding Let_def by blast
  qed (simp add: Let_def)
qed

theorem ssf_guarded_witness:
  "\<exists>i. \<exists>u. i < length (sent (Run_Poller home_net [0, 5] home_poller)) \<and>
    url_Parse home_net (rq_URL (sent (Run_Poller home_net [0, 5] home_poller) ! i)) = Inr u \<and>
    (u_Scheme u = ''https'' \<or> u_Scheme u = ''http'' \<and> u_Hostname u \<in> {''localhost'', ''127.0.0.1'', ''::1''})"
proof -
  have i: "0 < length (sent (Run_Poller home_net [0, 5] home_poller))" using home_sent [of "[0, 5]"] by simp
  from ssf_guarded [of 0 home_net "[0, 5]" "gateway_config home_fake 0", folded home_poller_def, OF i] i show ?thesis
    by (auto simp: Let_def)
qed

text \<open>
  What an unchecked redirect costs: a provider that answers a poll with 307 and a plain http URL
  of its own host gets the token, and the acknowledgements, sent there in the clear.
\<close>

definition leaky_net :: "unit Env" where
  "leaky_net =
     \<lparr>answer = (\<lambda>log rq. Inr \<lparr>hr_Code = (if log = [] then 307 else 200), hr_Status = [],
        hr_Location = ''http://idp.example/poll'', hr_Body = ()\<rparr>),
      url_Parse = (\<lambda>s. Inr \<lparr>u_Scheme = takeWhile (\<lambda>c. c \<noteq> CHR '':'') s, u_Hostname = ''idp.example''\<rparr>),
      url_Resolve = (\<lambda>_ loc. Inr (loc, \<lparr>u_Scheme = takeWhile (\<lambda>c. c \<noteq> CHR '':'') loc, u_Hostname = ''idp.example''\<rparr>)),
      QueryEscape = (\<lambda>s. s), body_text = (\<lambda>_. []),
      dec_config_endpoint = (\<lambda>_. Inr []), dec_token_endpoint = (\<lambda>_. Inr []), dec_raw = Inr,
      dec_streams = (\<lambda>_. ([], None)), dec_stream = (\<lambda>_. (\<lparr>s_Method = [], s_EndpointURL = []\<rparr>, None)),
      dec_created = (\<lambda>_. Inl []), dec_sets = (\<lambda>_. Inr []),
      dec_token = (\<lambda>_. (\<lparr>ta_AccessToken = [], ta_ExpiresIn = 0, ta_Error = []\<rparr>, None))\<rparr>"

definition leaky_poller :: Poller where
  "leaky_poller = (New_Poller \<lparr>sc_Issuer = ''https://idp.example'', sc_ClientID = ''gw'', sc_ClientSecret = ''s'', sc_Interval = 0\<rparr>)
     \<lparr>token := ''tok'', tokenEnd := 3600 * sec, pollURL := ''https://idp.example/poll''\<rparr>"

lemma redirect_in_the_clear:
  "protected leaky_net (pollURL leaky_poller) = None \<and> protected leaky_net ''http://idp.example/poll'' \<noteq> None \<and>
   (\<exists>rq \<in> set (sent (poll_turn leaky_net 0 leaky_poller)). rq_URL rq = ''http://idp.example/poll'' \<and> rq_Auth rq = BearerAuth ''tok'')"
  by code_simp

text \<open>
  C35: What a turn of the poller does about events. If it failed, the acknowledgements it owes
  are kept and the stream is set up anew; if it succeeded, it posted all the acknowledgements it
  owed to the poll endpoint, sent nothing after that but the redirects the answer asked for, now
  owes those of the events in the answer it came to (with no redirect, the answer to that very
  request), and has asked for the key list to be fetched if there were any. A kick once asked for
  stays asked for.
\<close>

theorem ssf_turn:
  "(\<exists>e. fst (Once nt now p) = Inl e \<and> acks (poll_turn nt now p) = acks p \<and>
      kick_pending (poll_turn nt now p) = kick_pending p \<and> pollURL (poll_turn nt now p) = []) \<or>
   (\<exists>u rq hist via res jtis.
      (\<exists>tok. rq = \<lparr>rq_Method = ''POST'', rq_URL = u, rq_Auth = BearerAuth tok, rq_Content = PollContent (acks p)\<rparr>) \<and>
      sent (poll_turn nt now p) = hist @ rq # via \<and> length via < 10 \<and> redirects nt rq hist rq via res \<and>
      (via = [] \<longrightarrow> answer nt hist rq = Inr res) \<and>
      hr_Code res div 100 = 2 \<and> dec_sets nt (hr_Body res) = Inr jtis \<and>
      acks (poll_turn nt now p) = jtis \<and> kick_pending (poll_turn nt now p) = (kick_pending p \<or> jtis \<noteq> []) \<and>
      (pollURL p = [] \<or> u = pollURL p))"
proof (cases rule: disjE [OF Once_cases [of nt now p]])
  case 1
  then show ?thesis by (auto simp: poll_turn_def same_events_def)
next
  case 2
  then obtain p' u rq hist via res jtis where o: "Once nt now p = (Inr (), p')"
    and r: "redirects nt rq hist rq via res"
    and f: "\<exists>tok. rq = \<lparr>rq_Method = ''POST'', rq_URL = u, rq_Auth = BearerAuth tok, rq_Content = PollContent (acks p)\<rparr>"
      "sent p' = hist @ rq # via" "length via < 10" "hr_Code res div 100 = 2" "dec_sets nt (hr_Body res) = Inr jtis"
      "acks p' = jtis" "kick_pending p' = (kick_pending p \<or> jtis \<noteq> [])" "pollURL p = [] \<or> u = pollURL p" by blast
  have "poll_turn nt now p = p'" by (simp add: poll_turn_def o)
  moreover have "via = [] \<longrightarrow> answer nt hist rq = Inr res" using r by auto
  ultimately show ?thesis
    using r f by (intro disjI2 exI [of _ u] exI [of _ rq] exI [of _ hist] exI [of _ via] exI [of _ res] exI [of _ jtis]) simp
qed

theorem ssf_turn_witness:
  "\<exists>hist u tok via. sent (poll_turn home_net 0 home_poller) =
     hist @ \<lparr>rq_Method = ''POST'', rq_URL = u, rq_Auth = BearerAuth tok, rq_Content = PollContent []\<rparr> # via"
proof -
  have "pollURL (poll_turn home_net 0 home_poller) \<noteq> []" "acks home_poller = []"
    using home_balanced [of "[0]"] by (simp_all add: balanced_def Let_def home_poller_def New_Poller_def)
  with ssf_turn [of home_net 0 home_poller] show ?thesis by auto
qed



end
