(* ===== verification/Goroutines.thy ===== *)
theory Goroutines
  imports System
begin

text \<open>
  The handlers of \<open>internal/api\<close> as they really run: many goroutines over one \<open>Server\<close>, each
  taking one locked operation of a store, the registry, the pool or the gateway at a time. A
  \<open>task\<close> is a goroutine's place in its handler with the local variables it still needs;
  \<open>task_step\<close> is its next operation. Run alone a task is its handler; run together, tasks may
  interleave in every order.
\<close>

section \<open>Tasks\<close>

text \<open>What comes after a peer was dropped: the answer to a deregistration, or the rest of a loop.\<close>

datatype cont = Answer response | Reaping "Peer list" | Reconciling "Peer list"

datatype task =
    Enroll_registered EnrollRequest Claims wgkey
  | Enroll_tenant EnrollRequest Claims wgkey time
  | Enroll_lookup EnrollRequest Claims wgkey time string
  | Enroll_allocate EnrollRequest Claims wgkey time string
  | Enroll_add EnrollRequest Claims wgkey time string ip
  | Enroll_release string ip
  | Enroll_put EnrollRequest Claims time string ip
  | Enroll_routes time string ip
  | Enroll_count string response
  | Heartbeat_lookup string Claims
  | Heartbeat_member string Claims string
  | Heartbeat_registered string Claims
  | Heartbeat_renew string time
  | Deregister_lookup string Claims
  | Drop_remove string ip cont
  | Drop_delete string ip cont
  | Drop_release string ip cont
  | Loop cont
  | Reap_list
  | Reconcile_list
  | Tenants_list Claims
  | Done "response option"

text \<open>A request behind \<open>authenticated\<close>, up to its first operation on shared state.\<close>

definition spawn :: "parse_key \<Rightarrow> call \<Rightarrow> Claims \<Rightarrow> task" where
  "spawn parse_key c claims =
     (case c of
        Healthz \<Rightarrow> Done (Some (writeJSON 200 (StatusBody ''ok'')))
      | Enroll b \<Rightarrow>
          (case decode b of
             Inl resp \<Rightarrow> Done (Some resp)
           | Inr req \<Rightarrow>
               (case parse_key (er_PublicKey req) of
                  Inl err \<Rightarrow> Done (Some (writeErr 400 ''bad_public_key'' err))
                | Inr pub \<Rightarrow> Enroll_registered req claims pub))
      | Heartbeat b \<Rightarrow>
          (case decode b of Inl resp \<Rightarrow> Done (Some resp) | Inr key \<Rightarrow> Heartbeat_lookup key claims)
      | Deregister b \<Rightarrow>
          (case decode b of Inl resp \<Rightarrow> Done (Some resp) | Inr key \<Rightarrow> Deregister_lookup key claims)
      | Tenants \<Rightarrow> Tenants_list claims)"

text \<open>
  One operation. \<open>now\<close> is the instant it runs at, \<open>ks\<close> and \<open>pks\<close> the orders in which the maps of
  tenants and peers are visited.
\<close>

fun task_step ::
    "parse_key \<Rightarrow> time \<Rightarrow> string list \<Rightarrow> string list \<Rightarrow> task \<Rightarrow> 'd Server \<Rightarrow> (task \<times> 'd Server) outcome" where
  "task_step parse_key now ks pks (Enroll_registered req claims pub) s =
     (case registered now s (er_PublicKey req) claims (now + LeaseTTL (cfg s)) of
        None \<Rightarrow> Ok (Done (Some (writeErr 403 ''key_not_registered''
          ''register this device's key with the identity provider first'')), s)
      | Some expiry \<Rightarrow> Ok (Enroll_tenant req claims pub expiry, s))"
| "task_step parse_key now ks pks (Enroll_tenant req claims pub expiry) s =
     obind (chooseTenant ks s (er_Tenant req) claims) (\<lambda>choice.
       case choice of
         Inl (code, why, msg) \<Rightarrow> Ok (Done (Some (writeErr code why msg)), s)
       | Inr tid \<Rightarrow> Ok (Enroll_lookup req claims pub expiry tid, s))"
| "task_step parse_key now ks pks (Enroll_lookup req claims pub expiry tid) s =
     (case Get (store s) (er_PublicKey req) of
        Some existing \<Rightarrow>
          if p_Subject existing \<noteq> c_Subject claims
          then Ok (Done (Some (writeErr 409 ''key_taken'' ''this key is enrolled by another user'')), s)
          else Ok (Enroll_add req claims pub expiry tid (p_IP existing), s)
      | None \<Rightarrow> Ok (Enroll_allocate req claims pub expiry tid, s))"
| "task_step parse_key now ks pks (Enroll_allocate req claims pub expiry tid) s =
     (case Allocate (alloc s) of
        (Inl err, a) \<Rightarrow> Ok (Done (Some (writeErr 503 ''pool_exhausted'' err)), s\<lparr>alloc := a\<rparr>)
      | (Inr ip, a) \<Rightarrow> Ok (Enroll_add req claims pub expiry tid ip, s\<lparr>alloc := a\<rparr>))"
| "task_step parse_key now ks pks (Enroll_add req claims pub expiry tid ip) s =
     (case AddPeer (gw s) pub ip (dev s) of
        (d, Some err) \<Rightarrow> Ok (Enroll_release (er_PublicKey req) ip, s\<lparr>dev := d\<rparr>)
      | (d, None) \<Rightarrow> Ok (Enroll_put req claims expiry tid ip, s\<lparr>dev := d\<rparr>))"
| "task_step parse_key now ks pks (Enroll_release key ip) s =
     Ok (Done (Some (writeErr 500 ''gateway_error'' ''could not program gateway'')),
         s\<lparr>alloc := Release (alloc s) ip\<rparr>)"
| "task_step parse_key now ks pks (Enroll_put req claims expiry tid ip) s =
     Ok (Enroll_routes expiry tid ip,
         s\<lparr>store := Put (store s)
           \<lparr>p_PublicKey = er_PublicKey req, p_Subject = c_Subject claims, p_Email = c_Email claims,
            p_IP = ip, p_Device = er_Device req, p_EnrolledAt = now, p_LeaseExpiry = expiry, p_Tenant = tid\<rparr>\<rparr>)"
| "task_step parse_key now ks pks (Enroll_routes expiry tid ip) s =
     obind (Routes (tstore s) tid) (\<lambda>rs.
       Ok (Enroll_count tid (writeJSON 200 (EnrollBody
             \<lparr>AssignedIP = ip_String ip @ ''/32'', ServerPublicKey = serverPubKey s,
              Endpoint = WGEndpoint (cfg s), AllowedIPs = rs_AllowedIPs rs,
              resp_DNS = rs_DNS rs, resp_GRPCEndpoint = GRPCEndpoint (cfg s),
              PersistentKeepalive = Keepalive (cfg s), LeaseExpiresAt = expiry\<rparr>)), s))"
| "task_step parse_key now ks pks (Enroll_count tid resp) s = Ok (Done (Some resp), EnrollInc tid s)"
| "task_step parse_key now ks pks (Heartbeat_lookup key claims) s =
     (case Get (store s) key of
        None \<Rightarrow> Ok (Done (Some (writeErr 404 ''not_enrolled'' ''no active enrollment for this key'')), s)
      | Some peer \<Rightarrow>
          if p_Subject peer \<noteq> c_Subject claims
          then Ok (Done (Some (writeErr 404 ''not_enrolled'' ''no active enrollment for this key'')), s)
          else Ok (Heartbeat_member key claims (p_Tenant peer), s))"
| "task_step parse_key now ks pks (Heartbeat_member key claims tid) s =
     obind (IsMember ks (tstore s) tid (Tenancy claims)) (\<lambda>member.
       if \<not> member
       then Ok (Done (Some (writeErr 403 ''not_a_member'' ''you are no longer a member of this tenant'')), s)
       else Ok (Heartbeat_registered key claims, s))"
| "task_step parse_key now ks pks (Heartbeat_registered key claims) s =
     (case registered now s key claims (now + LeaseTTL (cfg s)) of
        None \<Rightarrow> Ok (Done (Some (writeErr 403 ''key_not_registered''
          ''this device's key is no longer registered with the identity provider'')), s)
      | Some expiry \<Rightarrow> Ok (Heartbeat_renew key expiry, s))"
| "task_step parse_key now ks pks (Heartbeat_renew key expiry) s =
     Ok (Done (Some (writeJSON 200 (HeartbeatBody expiry))), s\<lparr>store := snd (Renew (store s) key expiry)\<rparr>)"
| "task_step parse_key now ks pks (Deregister_lookup key claims) s =
     (case Get (store s) key of
        None \<Rightarrow> Ok (Done (Some \<lparr>status = 204, body = NoBody\<rparr>), s)
      | Some peer \<Rightarrow>
          if p_Subject peer \<noteq> c_Subject claims
          then Ok (Done (Some (writeErr 403 ''not_owner'' ''this key belongs to another user'')), s)
          else Ok (Drop_remove key (p_IP peer) (Answer \<lparr>status = 204, body = NoBody\<rparr>), s))"
| "task_step parse_key now ks pks (Drop_remove key ip c) s =
     (case parse_key key of
        Inl _ \<Rightarrow> Ok (Drop_delete key ip c, s)
      | Inr pub \<Rightarrow> Ok (Drop_delete key ip c, s\<lparr>dev := fst (RemovePeer (gw s) pub (dev s))\<rparr>))"
| "task_step parse_key now ks pks (Drop_delete key ip c) s =
     Ok (Drop_release key ip c, s\<lparr>store := snd (Delete (store s) key)\<rparr>)"
| "task_step parse_key now ks pks (Drop_release key ip c) s =
     Ok (case c of Answer r \<Rightarrow> Done (Some r) | _ \<Rightarrow> Loop c, s\<lparr>alloc := Release (alloc s) ip\<rparr>)"
| "task_step parse_key now ks pks (Loop (Reaping (p # ps))) s =
     Ok (Drop_remove (p_PublicKey p) (p_IP p) (Reaping ps), s)"
| "task_step parse_key now ks pks (Loop (Reconciling (p # ps))) s =
     (if (case registry s of None \<Rightarrow> True | Some r \<Rightarrow> Allowed now r (p_PublicKey p) (p_Subject p))
      then Ok (Loop (Reconciling ps), s)
      else Ok (Drop_remove (p_PublicKey p) (p_IP p) (Reconciling ps), s))"
| "task_step parse_key now ks pks (Loop c) s =
     Ok (Done (case c of Answer r \<Rightarrow> Some r | _ \<Rightarrow> None), s)"
| "task_step parse_key now ks pks Reap_list s = Ok (Loop (Reaping (Expired pks (store s) now)), s)"
| "task_step parse_key now ks pks Reconcile_list s = Ok (Loop (Reconciling (List_Peers pks (store s))), s)"
| "task_step parse_key now ks pks (Tenants_list claims) s =
     obind (For ks (tstore s) (Tenancy claims)) (\<lambda>ts.
       Ok (Done (Some (writeJSON 200 (TenantsBody (map (\<lambda>t. (t_ID t, t_Name t)) ts)))), s))"
| "task_step parse_key now ks pks (Done r) s = Ok (Done r, s)"

section \<open>A task takes boundedly many steps\<close>

fun pending :: "cont \<Rightarrow> nat" where
  "pending (Answer r) = 0"
| "pending (Reaping ps) = Suc (length ps)"
| "pending (Reconciling ps) = Suc (length ps)"

fun rank :: "task \<Rightarrow> nat" where
  "rank (Enroll_registered _ _ _) = 8"
| "rank (Enroll_tenant _ _ _ _) = 7"
| "rank (Enroll_lookup _ _ _ _ _) = 6"
| "rank (Enroll_allocate _ _ _ _ _) = 5"
| "rank (Enroll_add _ _ _ _ _ _) = 4"
| "rank (Enroll_put _ _ _ _ _) = 3"
| "rank (Enroll_routes _ _ _) = 2"
| "rank (Enroll_release _ _) = 1"
| "rank (Enroll_count _ _) = 1"
| "rank (Heartbeat_lookup _ _) = 4"
| "rank (Heartbeat_member _ _ _) = 3"
| "rank (Heartbeat_registered _ _) = 2"
| "rank (Heartbeat_renew _ _) = 1"
| "rank (Deregister_lookup _ _) = 5"
| "rank (Drop_remove _ _ c) = 4 * pending c + 4"
| "rank (Drop_delete _ _ c) = 4 * pending c + 3"
| "rank (Drop_release _ _ c) = 4 * pending c + 2"
| "rank (Loop c) = Suc (4 * pending c)"
| "rank (Tenants_list _) = 1"
| "rank _ = 0"

definition lists :: "task \<Rightarrow> nat" where
  "lists t = (if t = Reap_list \<or> t = Reconcile_list then 1 else 0)"

fun finished :: "task \<Rightarrow> bool" where
  "finished (Done _) = True"
| "finished _ = False"

fun result_of :: "task \<Rightarrow> response option" where
  "result_of (Done r) = r"
| "result_of _ = None"

lemma Enroll_tenant_step:
  "task_step pk now ks pks (Enroll_tenant req claims pub expiry) s = Ok (t', s') \<longleftrightarrow>
     s' = s \<and>
     ((\<exists>code why msg. chooseTenant ks s (er_Tenant req) claims = Ok (Inl (code, why, msg)) \<and>
         t' = Done (Some (writeErr code why msg))) \<or>
      (\<exists>tid. chooseTenant ks s (er_Tenant req) claims = Ok (Inr tid) \<and> t' = Enroll_lookup req claims pub expiry tid))"
proof (cases "chooseTenant ks s (er_Tenant req) claims")
  case (Ok x)
  then show ?thesis by (cases x) auto
qed simp_all

lemma task_step_rank:
  assumes "task_step pk now ks pks t s = Ok (t', s')" "\<not> finished t"
  shows "(t', t) \<in> measures [lists, rank]"
  using assms
  by (cases "(pk, now, ks, pks, t, s)" rule: task_step.cases)
    (auto simp: lists_def obind_Ok_iff Enroll_tenant_step simp del: task_step.simps(2)
      split: option.splits prod.splits sum.splits if_splits cont.splits)

lemma obind_cong [fundef_cong]:
  "x = y \<Longrightarrow> (\<And>v. y = Ok v \<Longrightarrow> f v = g v) \<Longrightarrow> obind x f = obind y g"
  by (cases y) simp_all

text \<open>A task left alone, at one instant.\<close>

function alone ::
    "parse_key \<Rightarrow> time \<Rightarrow> string list \<Rightarrow> string list \<Rightarrow> task \<Rightarrow> 'd Server \<Rightarrow> (response option \<times> 'd Server) outcome" where
  "alone pk now ks pks t s =
     (if finished t then Ok (result_of t, s)
      else obind (task_step pk now ks pks t s) (\<lambda>(t', s'). alone pk now ks pks t' s'))"
  by pat_completeness auto
termination
  by (relation "inv_image (measures [lists, rank]) (\<lambda>(_, _, _, _, t, _). t)") (auto dest: task_step_rank)

declare alone.simps [simp del]

lemma alone_Done [simp]: "alone pk now ks pks (Done r) s = Ok (r, s)"
  by (simp add: alone.simps)

lemma alone_step:
  "\<not> finished t \<Longrightarrow>
     alone pk now ks pks t s = obind (task_step pk now ks pks t s) (\<lambda>(t', s'). alone pk now ks pks t' s')"
  by (subst alone.simps) simp

section \<open>Alone, a task is its handler\<close>

lemma alone_drop:
  "alone pk now ks pks (Drop_remove key ip c) s =
     alone pk now ks pks (case c of Answer r \<Rightarrow> Done (Some r) | _ \<Rightarrow> Loop c) (drop_peer pk key ip s)"
  by (simp add: alone_step drop_peer_def Let_def split: sum.split)

lemma alone_Reaping: "alone pk now ks pks (Loop (Reaping ps)) s = Ok (None, reap_loop pk ps s)"
  by (induction ps arbitrary: s) (simp_all add: alone_step [of "Loop c" for c] alone_drop)

lemma alone_Reconciling:
  "registry s = Some r \<Longrightarrow>
     alone pk now ks pks (Loop (Reconciling ps)) s = Ok (None, reconcile_loop pk (Allowed now r) ps s)"
  by (induction ps arbitrary: s) (simp_all add: alone_step [of "Loop c" for c] alone_drop)

lemma alone_put:
  "alone pk now ks pks (Enroll_put req claims expiry tid ip) s =
     obind (Routes (tstore s) tid) (\<lambda>rs.
       Ok (Some (writeJSON 200 (EnrollBody
             \<lparr>AssignedIP = ip_String ip @ ''/32'', ServerPublicKey = serverPubKey s,
              Endpoint = WGEndpoint (cfg s), AllowedIPs = rs_AllowedIPs rs,
              resp_DNS = rs_DNS rs, resp_GRPCEndpoint = GRPCEndpoint (cfg s),
              PersistentKeepalive = Keepalive (cfg s), LeaseExpiresAt = expiry\<rparr>)),
         EnrollInc tid (s\<lparr>store := Put (store s) (new_peer now req claims expiry tid ip)\<rparr>)))"
  by (simp add: alone_step new_peer_def) (cases "Routes (tstore s) tid"; simp add: alone_step)

lemma alone_commit:
  "alone pk now ks pks (Enroll_add req claims pub expiry tid ip) s =
     obind (enroll_commit now pub req claims expiry tid ip s) (\<lambda>(r, s'). Ok (Some r, s'))"
proof (cases "AddPeer (gw s) pub ip (dev s)")
  case (Pair d e)
  then show ?thesis
    by (cases e; cases "Routes (tstore s) tid")
      (simp_all add: alone_step [of "Enroll_add req claims pub expiry tid ip"] alone_step [of "Enroll_release k i" for k i]
        alone_put enroll_commit_def new_peer_def)
qed

lemma alone_address:
  "alone pk now ks pks (Enroll_lookup req claims pub expiry tid) s =
     (case enroll_address req claims s of
        (Inl resp, s1) \<Rightarrow> Ok (Some resp, s1)
      | (Inr ip, s1) \<Rightarrow> obind (enroll_commit now pub req claims expiry tid ip s1) (\<lambda>(r, s'). Ok (Some r, s')))"
  by (simp add: alone_step [of "Enroll_lookup req claims pub expiry tid"]
      alone_step [of "Enroll_allocate req claims pub expiry tid"] enroll_address_def alone_commit
      split: option.split prod.split sum.split)

lemma alone_enroll:
  assumes "pk (er_PublicKey req) = Inr pub"
  shows "alone pk now ks pks (Enroll_registered req claims pub) s =
    obind (handleEnroll pk now ks (Inr req) claims s) (\<lambda>(r, s'). Ok (Some r, s'))"
proof (cases "registered now s (er_PublicKey req) claims (now + LeaseTTL (cfg s))")
  case None
  with assms show ?thesis by (simp add: alone_step handleEnroll_def decode_def)
next
  case (Some expiry)
  note start = assms Some alone_step [of "Enroll_registered req claims pub"] alone_step [of "Enroll_tenant req claims pub e" for e]
    handleEnroll_def decode_def
  show ?thesis
  proof (cases "chooseTenant ks s (er_Tenant req) claims")
    case (Ok x)
    then show ?thesis
      by (cases x) (auto simp: start alone_address split: prod.split sum.split)
  qed (simp_all add: start)
qed

lemma alone_heartbeat:
  "alone pk now ks pks (Heartbeat_lookup key claims) s =
     obind (handleHeartbeat now ks (Inr key) claims s) (\<lambda>(r, s'). Ok (Some r, s'))"
proof (cases "Get (store s) key")
  case None
  then show ?thesis by (simp add: alone_step handleHeartbeat_def decode_def)
next
  case (Some peer)
  then show ?thesis
    by (cases "IsMember ks (tstore s) (p_Tenant peer) (Tenancy claims)")
      (simp_all add: alone_step handleHeartbeat_def decode_def split: option.split)
qed

lemma alone_deregister:
  "alone pk now ks pks (Deregister_lookup key claims) s =
     (case handleDeregister pk (Inr key) claims s of (r, s') \<Rightarrow> Ok (Some r, s'))"
  by (simp add: alone_step [of "Deregister_lookup key claims"] alone_drop handleDeregister_def decode_def
      split: option.split)

lemma alone_dispatch:
  "alone pk now ks pks (spawn pk c claims) s =
     obind (dispatch pk now ks c claims s) (\<lambda>(r, s'). Ok (Some r, s'))"
proof (cases c)
  case (Enroll b)
  then show ?thesis
    by (cases b; cases "pk (er_PublicKey (projr b))")
      (simp_all add: spawn_def dispatch_def decode_def alone_enroll, simp_all add: handleEnroll_def decode_def)
next
  case (Heartbeat b)
  then show ?thesis
    by (cases b) (simp_all add: spawn_def dispatch_def decode_def alone_heartbeat, simp add: handleHeartbeat_def decode_def)
next
  case (Deregister b)
  then show ?thesis
    by (cases b) (simp_all add: spawn_def dispatch_def decode_def alone_deregister split: prod.split,
      simp add: handleDeregister_def decode_def)
next
  case Tenants
  then show ?thesis
    by (cases "For ks (tstore s) (Tenancy claims)")
      (simp_all add: spawn_def dispatch_def handleTenants_def alone_step)
qed (simp add: spawn_def dispatch_def handleHealthz_def)

end
