(* ===== verification/Interleavings.thy ===== *)
theory Interleavings
  imports Goroutines
begin

text \<open>
  The server with any number of goroutines at once. A step is the next operation of one of them,
  a new request or background task, a list of keys or a change of the tenants, or time passing.
  Two levels of safety are shown: what holds however operations interleave, and what holds while
  no two of them are about the same key.
\<close>

record 'd Conc =
  cc_srv :: "'d Server"
  cc_now :: time
  cc_tasks :: "task list"

inductive conc_step :: "parse_key \<Rightarrow> verifier \<Rightarrow> 'd Conc \<Rightarrow> 'd Conc \<Rightarrow> bool"
  for pk :: parse_key and verify :: verifier where
  arrive: "bearerToken hdr \<noteq> [] \<Longrightarrow> verify (bearerToken hdr) = Inr claims \<Longrightarrow>
    conc_step pk verify C (C\<lparr>cc_tasks := cc_tasks C @ [spawn pk c claims]\<rparr>)"
| background: "t = Reap_list \<or> t = Reconcile_list \<Longrightarrow>
    conc_step pk verify C (C\<lparr>cc_tasks := cc_tasks C @ [t]\<rparr>)"
| progress: "i < length (cc_tasks C) \<Longrightarrow> ranges_over ks (tenants (tstore (cc_srv C))) \<Longrightarrow>
    ranges_over pks (peers (store (cc_srv C))) \<Longrightarrow>
    task_step pk (cc_now C) ks pks (cc_tasks C ! i) (cc_srv C) = Ok (t', s') \<Longrightarrow>
    conc_step pk verify C (C\<lparr>cc_tasks := (cc_tasks C)[i := t'], cc_srv := s'\<rparr>)"
| elapse: "cc_now C \<le> n \<Longrightarrow> conc_step pk verify C (C\<lparr>cc_now := n\<rparr>)"
| fetch: "registry (cc_srv C) = Some r \<Longrightarrow>
    conc_step pk verify C (C\<lparr>cc_srv := (cc_srv C)\<lparr>registry := Some (snd (Refresh fetched r))\<rparr>\<rparr>)"
| tenants: "ts_step (tstore (cc_srv C)) ts' \<Longrightarrow>
    conc_step pk verify C (C\<lparr>cc_srv := (cc_srv C)\<lparr>tstore := ts'\<rparr>\<rparr>)"

definition conc_run :: "parse_key \<Rightarrow> verifier \<Rightarrow> 'd Conc \<Rightarrow> 'd Conc \<Rightarrow> bool" where
  "conc_run pk verify = (conc_step pk verify)\<^sup>*\<^sup>*"

section \<open>What a task carries\<close>

fun cont_peers :: "cont \<Rightarrow> Peer list" where
  "cont_peers (Answer r) = []"
| "cont_peers (Reaping ps) = ps"
| "cont_peers (Reconciling ps) = ps"

text \<open>The addresses and the ends of leases in a task's variables.\<close>

fun addresses :: "task \<Rightarrow> ip set" where
  "addresses (Enroll_add _ _ _ _ _ ip) = {ip}"
| "addresses (Enroll_release _ ip) = {ip}"
| "addresses (Enroll_put _ _ _ _ ip) = {ip}"
| "addresses (Drop_remove _ ip c) = insert ip (p_IP ` set (cont_peers c))"
| "addresses (Drop_delete _ ip c) = insert ip (p_IP ` set (cont_peers c))"
| "addresses (Drop_release _ ip c) = insert ip (p_IP ` set (cont_peers c))"
| "addresses (Loop c) = p_IP ` set (cont_peers c)"
| "addresses _ = {}"

fun ends :: "task \<Rightarrow> time set" where
  "ends (Enroll_tenant _ _ _ e) = {e}"
| "ends (Enroll_lookup _ _ _ e _) = {e}"
| "ends (Enroll_allocate _ _ _ e _) = {e}"
| "ends (Enroll_add _ _ _ e _ _) = {e}"
| "ends (Enroll_put _ _ e _ _) = {e}"
| "ends (Heartbeat_renew _ e) = {e}"
| "ends _ = {}"

definition leasable :: "nat \<Rightarrow> 'd Server \<Rightarrow> ip set" where
  "leasable p s = hosts (network (alloc s)) p - {serverIP (alloc s)}"

definition srv_ok :: "nat \<Rightarrow> time \<Rightarrow> 'd Server \<Rightarrow> bool" where
  "srv_ok p now s \<longleftrightarrow>
     keyed (store s) \<and> ts_inv (tstore s) \<and> pool_inv p (alloc s) \<and>
     (\<forall>k q. Get (store s) k = Some q \<longrightarrow> p_IP q \<in> leasable p s \<and> p_LeaseExpiry q \<le> now + LeaseTTL (cfg s))"

definition task_ok :: "nat \<Rightarrow> time \<Rightarrow> 'd Server \<Rightarrow> task \<Rightarrow> bool" where
  "task_ok p now s t \<longleftrightarrow> (\<forall>ip \<in> addresses t. ip \<in> leasable p s) \<and> (\<forall>e \<in> ends t. e \<le> now + LeaseTTL (cfg s))"

definition conc_ok :: "nat \<Rightarrow> 'd Conc \<Rightarrow> bool" where
  "conc_ok p C \<longleftrightarrow> srv_ok p (cc_now C) (cc_srv C) \<and> (\<forall>t \<in> set (cc_tasks C). task_ok p (cc_now C) (cc_srv C) t)"

section \<open>One operation\<close>

text \<open>What no operation changes.\<close>

definition same_frame :: "'d Server \<Rightarrow> 'd Server \<Rightarrow> bool" where
  "same_frame s s' \<longleftrightarrow> network (alloc s') = network (alloc s) \<and> serverIP (alloc s') = serverIP (alloc s) \<and>
     cfg s' = cfg s \<and> gw s' = gw s \<and> tstore s' = tstore s \<and> registry s' = registry s"

lemma same_frame_leasable: "same_frame s s' \<Longrightarrow> leasable p s' = leasable p s"
  by (simp add: same_frame_def leasable_def)

lemma same_frame_task_ok: "same_frame s s' \<Longrightarrow> task_ok p now s' t = task_ok p now s t"
  by (simp add: task_ok_def same_frame_leasable) (simp add: same_frame_def)

lemma Allocate_frame: "Allocate a = (r, a') \<Longrightarrow> network a' = network a \<and> serverIP a' = serverIP a"
  by (auto simp: Allocate_def split: option.splits)

lemma task_step_frame: "task_step pk now ks pks t s = Ok (t', s') \<Longrightarrow> same_frame s s'"
  by (cases "(pk, now, ks, pks, t, s)" rule: task_step.cases)
    (auto simp: same_frame_def obind_Ok_iff Enroll_tenant_step EnrollInc_def simp del: task_step.simps(2)
      dest: Allocate_frame split: option.splits prod.splits sum.splits if_splits)

lemma srv_ok_simps [simp]:
  "srv_ok p now (s\<lparr>dev := d\<rparr>) = srv_ok p now s" "srv_ok p now (EnrollInc tid s) = srv_ok p now s"
  by (simp_all add: srv_ok_def leasable_def EnrollInc_def)

lemma srv_ok_Allocate:
  assumes ok: "srv_ok p now s" and a: "Allocate (alloc s) = (r, a)"
  shows "srv_ok p now (s\<lparr>alloc := a\<rparr>)" and "r = Inr ip \<Longrightarrow> ip \<in> leasable p s"
proof -
  have pool: "pool_inv p (alloc s)" using ok by (simp add: srv_ok_def)
  have "pool_inv p a \<and> (\<forall>ip. r = Inr ip \<longrightarrow> ip \<in> hosts (network (alloc s)) p \<and> ip \<notin> taken (alloc s))"
    using ipool.allocate_ok [OF pool] ipool.allocate_err [OF pool] a pool by (cases r) auto
  then show "srv_ok p now (s\<lparr>alloc := a\<rparr>)" and "r = Inr ip \<Longrightarrow> ip \<in> leasable p s"
    using ok Allocate_frame [OF a] ipool.reserved_busy [OF pool] by (auto simp: srv_ok_def leasable_def)
qed

lemma srv_ok_Release:
  "srv_ok p now s \<Longrightarrow> ip \<in> leasable p s \<Longrightarrow> srv_ok p now (s\<lparr>alloc := Release (alloc s) ip\<rparr>)"
  using ipool.release_ok [of p "alloc s" ip] by (simp add: srv_ok_def leasable_def)

lemma srv_ok_Put:
  "srv_ok p now s \<Longrightarrow> p_IP q \<in> leasable p s \<Longrightarrow> p_LeaseExpiry q \<le> now + LeaseTTL (cfg s) \<Longrightarrow>
     srv_ok p now (s\<lparr>store := Put (store s) q\<rparr>)"
  by (simp add: srv_ok_def leasable_def store_simps)

lemma srv_ok_Delete: "srv_ok p now s \<Longrightarrow> srv_ok p now (s\<lparr>store := snd (Delete (store s) k)\<rparr>)"
  by (simp add: srv_ok_def leasable_def store_simps)

lemma srv_ok_Renew:
  "srv_ok p now s \<Longrightarrow> e \<le> now + LeaseTTL (cfg s) \<Longrightarrow> srv_ok p now (s\<lparr>store := snd (Renew (store s) k e)\<rparr>)"
  by (auto simp: srv_ok_def leasable_def store_simps)

lemma srv_ok_peer: "srv_ok p now s \<Longrightarrow> Get (store s) k = Some q \<Longrightarrow> p_IP q \<in> leasable p s"
  by (simp add: srv_ok_def)

lemma srv_ok_range:
  assumes "srv_ok p now s" "ranges_over pks (peers (store s))"
  shows "q \<in> set (Expired pks (store s) t) \<Longrightarrow> p_IP q \<in> leasable p s"
    and "q \<in> set (List_Peers pks (store s)) \<Longrightarrow> p_IP q \<in> leasable p s"
  using srv_ok_peer [OF assms(1)] set_Expired [OF assms(2), of _ t] set_List_Peers [OF assms(2)] by auto

lemma task_step_ok:
  assumes "task_step pk now ks pks t s = Ok (t', s')" "srv_ok p now s" "task_ok p now s t"
    "ranges_over pks (peers (store s))"
  shows "srv_ok p now s' \<and> task_ok p now s t'"
  using assms
  by (cases "(pk, now, ks, pks, t, s)" rule: task_step.cases)
    (auto simp: task_ok_def obind_Ok_iff Enroll_tenant_step srv_ok_peer srv_ok_Allocate srv_ok_Release srv_ok_Put
      srv_ok_Delete srv_ok_Renew registered_Some(1) srv_ok_range simp del: task_step.simps(2)
      split: option.splits prod.splits sum.splits if_splits cont.splits)

section \<open>Any interleaving\<close>

lemma task_ok_spawn: "task_ok p now s (spawn pk c claims)"
  by (auto simp: task_ok_def spawn_def split: call.splits sum.splits)

lemma task_ok_later: "task_ok p now s t \<Longrightarrow> now \<le> now' \<Longrightarrow> task_ok p now' s t"
  by (force simp: task_ok_def)

lemma srv_ok_later: "srv_ok p now s \<Longrightarrow> now \<le> now' \<Longrightarrow> srv_ok p now' s"
  by (force simp: srv_ok_def)

lemma conc_ok_step: "conc_step pk verify C C' \<Longrightarrow> conc_ok p C \<Longrightarrow> conc_ok p C'"
proof (induction rule: conc_step.induct)
  case (progress i C ks pks t' s')
  have t: "srv_ok p (cc_now C) s' \<and> task_ok p (cc_now C) (cc_srv C) t'"
    using progress by (intro task_step_ok [OF progress(4)]) (simp_all add: conc_ok_def)
  have "task_ok p (cc_now C) s' u" if "task_ok p (cc_now C) (cc_srv C) u" for u
    using that same_frame_task_ok [OF task_step_frame [OF progress(4)]] by simp
  with t progress(5) show ?case
    using set_update_subset_insert [of "cc_tasks C" i t'] by (auto simp: conc_ok_def)
next
  case (tenants C ts')
  then have "ts_inv ts'" using ts_inv_step by (auto simp: conc_ok_def srv_ok_def)
  with tenants show ?case by (simp add: conc_ok_def srv_ok_def task_ok_def leasable_def)
next
  case (elapse C n)
  then show ?case by (auto simp: conc_ok_def intro: task_ok_later srv_ok_later)
next
  case (fetch C r fetched)
  then show ?case by (simp add: conc_ok_def srv_ok_def task_ok_def leasable_def)
qed (auto simp: conc_ok_def task_ok_spawn, auto simp: task_ok_def)

lemma conc_ok_run: "conc_run pk verify C C' \<Longrightarrow> conc_ok p C \<Longrightarrow> conc_ok p C'"
  unfolding conc_run_def by (induction rule: rtranclp_induct) (auto intro: conc_ok_step)

lemma ts_inv_conc_step: "conc_step pk verify C C' \<Longrightarrow> ts_inv (tstore (cc_srv C)) \<Longrightarrow> ts_inv (tstore (cc_srv C'))"
proof (induction rule: conc_step.induct)
  case (progress i C ks pks t' s')
  then show ?case using task_step_frame [OF progress(4)] by (simp add: same_frame_def)
qed (auto intro: ts_inv_step)

lemma ts_inv_conc_run: "conc_run pk verify C C' \<Longrightarrow> ts_inv (tstore (cc_srv C)) \<Longrightarrow> ts_inv (tstore (cc_srv C'))"
  unfolding conc_run_def by (induction rule: rtranclp_induct) (auto intro: ts_inv_conc_step)

text \<open>No operation panics or waits for ever.\<close>

lemma task_step_total:
  assumes "srv_ok p now s" "ranges_over ks (tenants (tstore s))"
  shows "\<exists>t' s'. task_step pk now ks pks t s = Ok (t', s')"
proof -
  have ts: "ts_inv (tstore s)" using assms(1) by (simp add: srv_ok_def)
  show ?thesis
  proof (cases "(pk, now, ks, pks, t, s)" rule: task_step.cases)
    case (2 _ _ _ _ req claims pub expiry)
    then show ?thesis
      by (cases rule: chooseTenant_Ok [OF ts assms(2), of "er_Tenant req" claims]) auto
  next
    case (23 _ _ _ _ claims)
    obtain l where "For ks (tstore s) (Tenancy claims) = Ok l" by (rule For_Ok [OF ts assms(2)])
    with 23 show ?thesis by simp
  qed (auto simp: IsMember_Ok [OF ts assms(2)] Routes_Ok [OF ts] split: option.split prod.split sum.split)
qed

end
