(* ===== verification/Separate_Keys.thy ===== *)
theory Separate_Keys
  imports Interleavings
begin

text \<open>
  Goroutines that overlap only on different keys. Under that condition the pool, the store and the
  addresses goroutines hold in their variables stay consistent: there is a table of leases, in the
  sense of the pool's contract, that has every stored address and every address held, and nothing
  else.
\<close>

section \<open>Keys and addresses in flight\<close>

text \<open>
  The keys a task works on, from the moment it has looked them up until it is done with them, and
  the address it holds for one.
\<close>

fun cont_keys :: "cont \<Rightarrow> string set" where
  "cont_keys c = p_PublicKey ` set (cont_peers c)"

fun keys_of :: "task \<Rightarrow> string set" where
  "keys_of (Enroll_allocate req _ _ _ _) = {er_PublicKey req}"
| "keys_of (Enroll_add req _ _ _ _ _) = {er_PublicKey req}"
| "keys_of (Enroll_release key _) = {key}"
| "keys_of (Enroll_put req _ _ _ _) = {er_PublicKey req}"
| "keys_of (Drop_remove key _ c) = insert key (cont_keys c)"
| "keys_of (Drop_delete key _ c) = insert key (cont_keys c)"
| "keys_of (Drop_release key _ c) = insert key (cont_keys c)"
| "keys_of (Loop c) = cont_keys c"
| "keys_of _ = {}"

fun holds :: "task \<Rightarrow> string \<Rightarrow> ip option" where
  "holds (Enroll_add req _ _ _ _ ip) = [er_PublicKey req \<mapsto> ip]"
| "holds (Enroll_release key ip) = [key \<mapsto> ip]"
| "holds (Enroll_put req _ _ _ ip) = [er_PublicKey req \<mapsto> ip]"
| "holds (Drop_remove key ip _) = [key \<mapsto> ip]"
| "holds (Drop_delete key ip _) = [key \<mapsto> ip]"
| "holds (Drop_release key ip _) = [key \<mapsto> ip]"
| "holds _ = Map.empty"

text \<open>
  No two tasks work on one key, and no enrolment is about to release the address of a device that
  is still enrolled, as one does whose gateway failed.
\<close>

definition separate :: "'d Conc \<Rightarrow> bool" where
  "separate C \<longleftrightarrow>
     (\<forall>i < length (cc_tasks C). \<forall>j < length (cc_tasks C). i \<noteq> j \<longrightarrow>
        keys_of (cc_tasks C ! i) \<inter> keys_of (cc_tasks C ! j) = {}) \<and>
     (\<forall>key ip. Enroll_release key ip \<in> set (cc_tasks C) \<longrightarrow> Get (store (cc_srv C)) key = None)"

text \<open>What a task believes of the store is so.\<close>

definition listed :: "'d Server \<Rightarrow> cont \<Rightarrow> bool" where
  "listed s c \<longleftrightarrow> distinct (map p_PublicKey (cont_peers c)) \<and>
     (\<forall>q \<in> set (cont_peers c). address_of s (p_PublicKey q) = Some (p_IP q))"

fun fits :: "'d Server \<Rightarrow> task \<Rightarrow> bool" where
  "fits s (Enroll_allocate req _ _ _ _) = (address_of s (er_PublicKey req) = None)"
| "fits s (Drop_remove key ip c) = (address_of s key = Some ip \<and> listed s c \<and> key \<notin> cont_keys c)"
| "fits s (Drop_delete key ip c) = (address_of s key = Some ip \<and> listed s c \<and> key \<notin> cont_keys c)"
| "fits s (Drop_release key ip c) = (address_of s key = None \<and> listed s c \<and> key \<notin> cont_keys c)"
| "fits s (Loop c) = listed s c"
| "fits s _ = True"

definition ledger :: "nat \<Rightarrow> 'd Server \<Rightarrow> task list \<Rightarrow> (string \<Rightarrow> ip option) \<Rightarrow> bool" where
  "ledger p s ts L \<longleftrightarrow>
     ipool.leases p (alloc s) L \<and>
     (\<forall>k ip. address_of s k = Some ip \<longrightarrow> L k = Some ip) \<and>
     (\<forall>t \<in> set ts. \<forall>k ip. holds t k = Some ip \<longrightarrow> L k = Some ip) \<and>
     (\<forall>k ip. L k = Some ip \<longrightarrow> address_of s k = Some ip \<or> (\<exists>t \<in> set ts. holds t k = Some ip))"

definition in_step :: "nat \<Rightarrow> 'd Conc \<Rightarrow> bool" where
  "in_step p C \<longleftrightarrow> keyed (store (cc_srv C)) \<and> (\<forall>t \<in> set (cc_tasks C). fits (cc_srv C) t) \<and>
     (\<exists>L. ledger p (cc_srv C) (cc_tasks C) L)"

lemma holds_keys: "holds t k = Some ip \<Longrightarrow> k \<in> keys_of t"
  by (cases t) (auto split: if_splits)

lemma ledger_leases: "ledger p s ts L \<Longrightarrow> ipool.leases p (alloc s) L"
  by (simp add: ledger_def)

lemma ledger_covers:
  assumes "ledger p s ts L" "L k = Some ip"
  obtains "address_of s k = Some ip" | t where "t \<in> set ts" "holds t k = Some ip"
  using assms unfolding ledger_def by blast

section \<open>The ledger through one step\<close>

lemma update_other: "u \<in> set ts \<Longrightarrow> u \<noteq> ts ! i \<Longrightarrow> u \<in> set (ts[i := t'])"
  by (metis in_set_conv_nth length_list_update nth_list_update_neq)

lemma update_old: "u \<in> set (ts[i := t']) \<Longrightarrow> u = t' \<or> u \<in> set ts"
  using set_update_subset_insert [of ts i t'] by auto

lemma update_nth: "u \<in> set (ts[i := t']) \<Longrightarrow> \<exists>j. j < length ts \<and> u = ts[i := t'] ! j"
  by (metis in_set_conv_nth length_list_update)

lemma ledger_stays:
  assumes l: "ledger p s ts L" and i: "i < length ts" "ts ! i = t" and a: "alloc s' = alloc s"
    and addr: "\<And>k ip. address_of s' k = Some ip \<Longrightarrow> L k = Some ip"
    and h: "\<And>k ip. holds t' k = Some ip \<Longrightarrow> L k = Some ip"
    and cov: "\<And>k ip. address_of s k = Some ip \<or> holds t k = Some ip \<Longrightarrow> L k = Some ip \<Longrightarrow>
      address_of s' k = Some ip \<or> holds t' k = Some ip"
  shows "ledger p s' (ts[i := t']) L"
  unfolding ledger_def
proof (intro conjI allI impI ballI)
  show "ipool.leases p (alloc s') L" using l a by (simp add: ledger_def)
  show "L k = Some ip" if "address_of s' k = Some ip" for k ip using addr that .
  show "L k = Some ip" if "u \<in> set (ts[i := t'])" "holds u k = Some ip" for u k ip
  proof -
    from update_old [OF that(1)] show ?thesis using h l that(2) by (auto simp: ledger_def)
  qed
  show "address_of s' k = Some ip \<or> (\<exists>u \<in> set (ts[i := t']). holds u k = Some ip)" if L: "L k = Some ip" for k ip
  proof -
    consider "address_of s k = Some ip \<or> holds t k = Some ip" | u where "u \<in> set ts" "u \<noteq> t" "holds u k = Some ip"
      using l L unfolding ledger_def by blast
    then show ?thesis
    proof cases
      case 1
      from cov [OF this L] show ?thesis using i by (auto intro: set_update_memI)
    next
      case 2
      then have "u \<in> set (ts[i := t'])" using i by (intro update_other) simp_all
      with 2 show ?thesis by blast
    qed
  qed
qed

text \<open>An address allocated for a key that has none, and the address of a key given back.\<close>

lemma ledger_takes:
  assumes l: "ledger p s ts L" and i: "i < length ts" "holds (ts ! i) = Map.empty" "holds t' = [k \<mapsto> ip]"
    and a: "Allocate (alloc s) = (Inr ip, a)" and k: "L k = None"
  shows "ledger p (s\<lparr>alloc := a\<rparr>) (ts[i := t']) (L(k \<mapsto> ip))"
  unfolding ledger_def
proof (intro conjI allI impI ballI)
  show "ipool.leases p (alloc (s\<lparr>alloc := a\<rparr>)) (L(k \<mapsto> ip))"
    using ipool.leases_allocate [OF ledger_leases [OF l] k a] by simp
  show "(L(k \<mapsto> ip)) k' = Some j" if "address_of (s\<lparr>alloc := a\<rparr>) k' = Some j" for k' j
    using that l k by (auto simp: ledger_def)
  show "(L(k \<mapsto> ip)) k' = Some j" if "u \<in> set (ts[i := t'])" "holds u k' = Some j" for u k' j
    using update_old [OF that(1)] that(2) l k i(3) by (auto simp: ledger_def split: if_splits)
  show "address_of (s\<lparr>alloc := a\<rparr>) k' = Some j \<or> (\<exists>u \<in> set (ts[i := t']). holds u k' = Some j)"
    if L: "(L(k \<mapsto> ip)) k' = Some j" for k' j
  proof (cases "k' = k")
    case True
    with L i(3) have "holds t' k' = Some j" by simp
    then show ?thesis using set_update_memI [OF i(1), of t'] by blast
  next
    case False
    with L have "L k' = Some j" by simp
    with l show ?thesis
    proof (cases rule: ledger_covers)
      case (2 u)
      then have "u \<noteq> ts ! i" using i(2) by auto
      from update_other [OF 2(1) this] 2(2) show ?thesis by blast
    qed simp
  qed
qed

lemma ledger_gives:
  assumes l: "ledger p s ts L" and i: "i < length ts" "holds (ts ! i) = [k \<mapsto> ip]" "holds t' = Map.empty"
    and free: "address_of s k = None"
    and only: "\<And>j. j < length ts \<Longrightarrow> j \<noteq> i \<Longrightarrow> holds (ts ! j) k = None"
  shows "ledger p (s\<lparr>alloc := Release (alloc s) ip\<rparr>) (ts[i := t']) (L(k := None))"
  unfolding ledger_def
proof (intro conjI allI impI ballI)
  have "holds (ts ! i) k = Some ip" using i(2) by simp
  then have k: "L k = Some ip" using l nth_mem [OF i(1)] unfolding ledger_def by blast
  then show "ipool.leases p (alloc (s\<lparr>alloc := Release (alloc s) ip\<rparr>)) (L(k := None))"
    using ipool.leases_release [OF ledger_leases [OF l] k] by simp
  show "(L(k := None)) k' = Some j" if "address_of (s\<lparr>alloc := Release (alloc s) ip\<rparr>) k' = Some j" for k' j
    using that l free by (auto simp: ledger_def)
  show "(L(k := None)) k' = Some j" if u: "u \<in> set (ts[i := t'])" "holds u k' = Some j" for u k' j
  proof -
    obtain m where m: "m < length ts" "u = ts[i := t'] ! m"
      using update_nth [OF u(1)] by blast
    then have "u = ts ! m" "m \<noteq> i" using u(2) i(1,3) by (auto simp: nth_list_update split: if_splits)
    then have "u \<in> set ts" "k' \<noteq> k" using m(1) only [of m] u(2) by auto
    then show ?thesis using l u(2) by (auto simp: ledger_def)
  qed
  show "address_of (s\<lparr>alloc := Release (alloc s) ip\<rparr>) k' = Some j \<or> (\<exists>u \<in> set (ts[i := t']). holds u k' = Some j)"
    if "(L(k := None)) k' = Some j" for k' j
  proof -
    from that have L: "L k' = Some j" "k' \<noteq> k" by (auto split: if_splits)
    from l L(1) show ?thesis
    proof (cases rule: ledger_covers)
      case (2 u)
      then have "u \<noteq> ts ! i" using i(2) L(2) by auto
      from update_other [OF 2(1) this] 2(2) show ?thesis by blast
    qed simp
  qed
qed

section \<open>What a task changes and believes\<close>

lemma address_of_Delete [simp]: "address_of (s\<lparr>store := snd (Delete (store s) k)\<rparr>) = (address_of s)(k := None)"
  by (auto simp: address_of_def store_simps)

lemma task_step_address:
  "task_step pk now ks pks t s = Ok (t', s') \<Longrightarrow> k \<notin> keys_of t \<Longrightarrow> address_of s' k = address_of s k"
  by (cases "(pk, now, ks, pks, t, s)" rule: task_step.cases)
    (auto simp: obind_Ok_iff Enroll_tenant_step address_of_Put address_of_Renew simp del: task_step.simps(2)
      split: option.splits prod.splits sum.splits if_splits)

lemma fits_cong:
  assumes "\<And>k. k \<in> keys_of t \<Longrightarrow> address_of s' k = address_of s k"
  shows "fits s' t = fits s t"
  using assms by (cases t) (auto simp: listed_def)

lemma address_of_None: "Get (store s) k = None \<Longrightarrow> address_of s k = None"
  and address_of_Some: "Get (store s) k = Some q \<Longrightarrow> address_of s k = Some (p_IP q)"
  by (simp_all add: address_of_def)

lemma listed_Answer [simp]: "listed s (Answer r)"
  by (simp add: listed_def)

lemma listed_Cons:
  "listed s (Reaping (q # qs)) \<longleftrightarrow> address_of s (p_PublicKey q) = Some (p_IP q) \<and> listed s (Reaping qs) \<and>
     p_PublicKey q \<notin> p_PublicKey ` set qs"
  "listed s (Reconciling (q # qs)) \<longleftrightarrow> address_of s (p_PublicKey q) = Some (p_IP q) \<and> listed s (Reconciling qs) \<and>
     p_PublicKey q \<notin> p_PublicKey ` set qs"
  by (auto simp: listed_def)

lemma listed_frame [simp]:
  "listed (s\<lparr>dev := d\<rparr>) c = listed s c" "listed (s\<lparr>alloc := a\<rparr>) c = listed s c"
  by (simp_all add: listed_def)

lemma listed_drop:
  "listed s c \<Longrightarrow> k \<notin> cont_keys c \<Longrightarrow> listed (s\<lparr>store := snd (Delete (store s) k)\<rparr>) c"
  by (auto simp: listed_def)

lemma task_step_keyed:
  "task_step pk now ks pks t s = Ok (t', s') \<Longrightarrow> keyed (store s) \<Longrightarrow> keyed (store s')"
  by (cases "(pk, now, ks, pks, t, s)" rule: task_step.cases)
    (auto simp: obind_Ok_iff Enroll_tenant_step store_simps EnrollInc_def simp del: task_step.simps(2)
      split: option.splits prod.splits sum.splits if_splits)

text \<open>The lists the loops walk: every peer once, with its address.\<close>

lemma listed_range:
  assumes "keyed (store s)" "ranges_over pks (peers (store s))"
  shows "listed s (Reaping (Expired pks (store s) now))" "listed s (Reconciling (List_Peers pks (store s)))"
proof -
  have d: "distinct (map p_PublicKey (range_values pks (peers (store s))))"
    using assms by (intro distinct_keys_range) (simp_all add: ranges_over_def)
  have a: "address_of s (p_PublicKey q) = Some (p_IP q)" if "Get (store s) k = Some q" for k q
    using that assms(1) by (auto simp: keyed_def address_of_def)
  show "listed s (Reaping (Expired pks (store s) now))"
    using d a set_Expired [OF assms(2), of _ now]
    by (auto simp: listed_def Expired_def distinct_keys_filter)
  show "listed s (Reconciling (List_Peers pks (store s)))"
    using d a set_List_Peers [OF assms(2)] by (auto simp: listed_def List_Peers_def)
qed

lemma task_step_fits:
  assumes "task_step pk now ks pks t s = Ok (t', s')" "fits s t" "keyed (store s)" "ranges_over pks (peers (store s))"
  shows "fits s' t'"
  using assms
  by (cases "(pk, now, ks, pks, t, s)" rule: task_step.cases)
    (auto simp: obind_Ok_iff Enroll_tenant_step listed_Cons listed_drop listed_range
      address_of_None address_of_Some
      simp del: task_step.simps(2)
      split: option.splits prod.splits sum.splits if_splits cont.splits)

section \<open>One operation under separation\<close>

lemma Allocate_err: "pool_inv p a \<Longrightarrow> Allocate a = (Inl e, a') \<Longrightarrow> a' = a"
  using ipool.allocate_err by blast

lemma allocate_ledger:
  assumes st: "task_step pk now ks pks (Enroll_allocate req claims pub expiry tid) s = Ok (t', s')"
    and i: "i < length ts" "ts ! i = Enroll_allocate req claims pub expiry tid"
    and l: "ledger p s ts L" and new: "address_of s (er_PublicKey req) = None"
    and only: "\<And>j. j < length ts \<Longrightarrow> j \<noteq> i \<Longrightarrow> holds (ts ! j) (er_PublicKey req) = None"
  shows "\<exists>L'. ledger p s' (ts[i := t']) L'"
proof -
  obtain x a where a: "Allocate (alloc s) = (x, a)" by (cases "Allocate (alloc s)")
  show ?thesis
  proof (cases x)
    case (Inl e)
    have "pool_inv p (alloc s)" using ledger_leases [OF l] by (simp add: ipool.leases_def)
    with a Inl have "a = alloc s" by (intro Allocate_err) simp_all
    then have "ledger p s' (ts[i := t']) L"
      using l i(1) st a Inl by (intro ledger_stays [OF l i]) (auto simp: ledger_def)
    then show ?thesis by blast
  next
    case (Inr ip)
    have "L (er_PublicKey req) \<noteq> Some j" for j
    proof
      assume "L (er_PublicKey req) = Some j"
      with l show False
      proof (cases rule: ledger_covers)
        case (2 u)
        then obtain m where "m < length ts" "u = ts ! m" by (auto simp: in_set_conv_nth)
        with 2(2) i(2) only [of m] show False by (cases "m = i") auto
      qed (use new in auto)
    qed
    then have "L (er_PublicKey req) = None" by (cases "L (er_PublicKey req)") auto
    from ledger_takes [OF l i(1) _ _ a [unfolded Inr] this, of "Enroll_add req claims pub expiry tid ip"] st i(2) a Inr
    show ?thesis by auto
  qed
qed

lemma task_step_ledger:
  assumes st: "task_step pk now ks pks (ts ! i) s = Ok (t', s')" and i: "i < length ts"
    and l: "ledger p s ts L" and fit: "fits s (ts ! i)"
    and only: "\<And>j k. j < length ts \<Longrightarrow> j \<noteq> i \<Longrightarrow> k \<in> keys_of (ts ! i) \<Longrightarrow> holds (ts ! j) k = None"
    and rel: "\<And>key ip. ts ! i = Enroll_release key ip \<Longrightarrow> address_of s key = None"
  shows "\<exists>L'. ledger p s' (ts[i := t']) L'"
proof -
  have addr: "address_of s k = Some ip \<Longrightarrow> L k = Some ip" for k ip using l by (simp add: ledger_def)
  have held: "holds (ts ! i) k = Some ip \<Longrightarrow> L k = Some ip" for k ip
    using l nth_mem [OF i] unfolding ledger_def by blast
  have stays: ?thesis if "alloc s' = alloc s" "\<And>k ip. address_of s' k = Some ip \<Longrightarrow> L k = Some ip"
    "\<And>k ip. holds t' k = Some ip \<Longrightarrow> L k = Some ip"
    "\<And>k ip. address_of s k = Some ip \<or> holds (ts ! i) k = Some ip \<Longrightarrow> L k = Some ip \<Longrightarrow>
      address_of s' k = Some ip \<or> holds t' k = Some ip"
    using ledger_stays [OF l i refl that] by blast
  show ?thesis
  proof (cases "(pk, now, ks, pks, ts ! i, s)" rule: task_step.cases)
    case (4 _ _ _ _ req claims pub expiry tid)
    with st l i fit only show ?thesis by (intro allocate_ledger [of pk now ks pks req claims pub expiry tid]) simp_all
  next
    case (6 _ _ _ _ key ip)
    have "ledger p (s\<lparr>alloc := Release (alloc s) ip\<rparr>) (ts[i := t']) (L(key := None))"
      using st 6 rel only by (intro ledger_gives [OF l i]) auto
    with st 6 show ?thesis by auto
  next
    case (17 _ _ _ _ key ip c)
    have "ledger p (s\<lparr>alloc := Release (alloc s) ip\<rparr>) (ts[i := t']) (L(key := None))"
      using st 17 fit only by (intro ledger_gives [OF l i]) (auto split: cont.splits)
    with st 17 show ?thesis by auto
  qed ((rule stays; use st fit addr held in
      \<open>auto simp: obind_Ok_iff Enroll_tenant_step address_of_Put address_of_Renew address_of_Some listed_Cons
        simp del: task_step.simps(2) split: option.splits prod.splits sum.splits if_splits\<close>)+)
qed

section \<open>Runs without overlaps on one key\<close>

lemma ledger_append: "holds t = Map.empty \<Longrightarrow> ledger p s ts L \<Longrightarrow> ledger p s (ts @ [t]) L"
  by (auto simp: ledger_def)

lemma ledger_same_store:
  "alloc s' = alloc s \<Longrightarrow> address_of s' = address_of s \<Longrightarrow> ledger p s' ts L = ledger p s ts L"
  by (simp add: ledger_def)

lemma spawn_new: "holds (spawn pk c claims) = Map.empty" "fits s (spawn pk c claims)"
  by (auto simp: spawn_def split: call.split sum.split)

lemma separate_only:
  assumes "separate C" "i < length (cc_tasks C)" "j < length (cc_tasks C)" "j \<noteq> i" "k \<in> keys_of (cc_tasks C ! i)"
  shows "k \<notin> keys_of (cc_tasks C ! j)" "holds (cc_tasks C ! j) k = None"
proof -
  show k: "k \<notin> keys_of (cc_tasks C ! j)" using assms unfolding separate_def by blast
  show "holds (cc_tasks C ! j) k = None" using k holds_keys by (cases "holds (cc_tasks C ! j) k") auto
qed

lemma in_step_progress:
  assumes inv: "in_step p C" and sep: "separate C" and i: "i < length (cc_tasks C)"
    and pks: "ranges_over pks (peers (store (cc_srv C)))"
    and st: "task_step pk (cc_now C) ks pks (cc_tasks C ! i) (cc_srv C) = Ok (t', s')"
  shows "in_step p (C\<lparr>cc_tasks := (cc_tasks C)[i := t'], cc_srv := s'\<rparr>)"
proof -
  let ?ts = "cc_tasks C"
  have kd: "keyed (store (cc_srv C))" and fit: "\<And>t. t \<in> set ?ts \<Longrightarrow> fits (cc_srv C) t"
    using inv by (simp_all add: in_step_def)
  obtain L where L: "ledger p (cc_srv C) ?ts L" using inv unfolding in_step_def by blast
  have rel: "address_of (cc_srv C) key = None" if "?ts ! i = Enroll_release key ip" for key ip
    using sep nth_mem [OF i] that unfolding separate_def by (auto intro: address_of_None)
  have "\<exists>L'. ledger p s' (?ts[i := t']) L'"
    by (rule task_step_ledger [OF st i L fit [OF nth_mem [OF i]] separate_only(2) [OF sep i] rel])
  moreover have "keyed (store s')" by (rule task_step_keyed [OF st kd])
  moreover have "fits s' u" if u: "u \<in> set (?ts[i := t'])" for u
  proof -
    obtain m where m: "m < length ?ts" "u = ?ts[i := t'] ! m" using update_nth [OF u] by blast
    show ?thesis
    proof (cases "m = i")
      case True
      with m task_step_fits [OF st fit [OF nth_mem [OF i]] kd pks] show ?thesis by simp
    next
      case False
      have "address_of s' k = address_of (cc_srv C) k" if "k \<in> keys_of (?ts ! m)" for k
        using that task_step_address [OF st] separate_only(1) [OF sep i m(1) False] by blast
      then show ?thesis using fits_cong [of "?ts ! m" s' "cc_srv C"] fit m False by auto
    qed
  qed
  ultimately show ?thesis by (auto simp: in_step_def)
qed

lemma in_step_append:
  "in_step p C \<Longrightarrow> holds t = Map.empty \<Longrightarrow> fits (cc_srv C) t \<Longrightarrow> in_step p (C\<lparr>cc_tasks := cc_tasks C @ [t]\<rparr>)"
  using ledger_append unfolding in_step_def by fastforce

lemma in_step_frame:
  assumes "in_step p C" "store s' = store (cc_srv C)" "alloc s' = alloc (cc_srv C)"
  shows "in_step p (C\<lparr>cc_srv := s'\<rparr>)"
proof -
  have a: "address_of s' = address_of (cc_srv C)" using assms(2) by (auto simp: address_of_def)
  then have "fits s' t = fits (cc_srv C) t" for t by (intro fits_cong) simp
  with assms a show ?thesis by (simp add: in_step_def ledger_def)
qed

lemma in_step_step:
  assumes "conc_step pk verify C C'" "in_step p C" "separate C"
  shows "in_step p C'"
  using assms
proof (induction rule: conc_step.induct)
  case (progress i C ks pks t' s')
  then show ?case by (intro in_step_progress)
next
  case (elapse C n)
  then show ?case by (simp add: in_step_def)
qed (auto intro!: in_step_append in_step_frame simp: spawn_new)

text \<open>
  Runs in which no two goroutines ever work on one key and no address of an enrolled device is
  about to be released.
\<close>

inductive apart_run :: "parse_key \<Rightarrow> verifier \<Rightarrow> 'd Conc \<Rightarrow> 'd Conc \<Rightarrow> bool"
  for pk :: parse_key and verify :: verifier and C :: "'d Conc" where
  start: "separate C \<Longrightarrow> apart_run pk verify C C"
| step: "apart_run pk verify C C1 \<Longrightarrow> conc_step pk verify C1 C2 \<Longrightarrow> separate C2 \<Longrightarrow> apart_run pk verify C C2"

lemma apart_run_run: "apart_run pk verify C C' \<Longrightarrow> conc_run pk verify C C'"
  unfolding conc_run_def by (induction rule: apart_run.induct) (auto intro: rtranclp.rtrancl_into_rtrancl)

lemma apart_run_in_step: "apart_run pk verify C C' \<Longrightarrow> in_step p C \<Longrightarrow> in_step p C' \<and> separate C'"
  by (induction rule: apart_run.induct) (auto intro: in_step_step)

text \<open>Between two requests, the server's own invariant.\<close>

lemma in_step_start:
  assumes "srv_inv p s"
  shows "in_step p \<lparr>cc_srv = s, cc_now = now, cc_tasks = []\<rparr>"
  using srv_invD [OF assms] by (auto simp: in_step_def ledger_def)

lemma in_step_idle:
  assumes i: "in_step p C" and idle: "\<forall>t \<in> set (cc_tasks C). finished t" and ts: "ts_inv (tstore (cc_srv C))"
  shows "srv_inv p (cc_srv C)"
proof -
  obtain L where L: "ledger p (cc_srv C) (cc_tasks C) L" using i by (auto simp: in_step_def)
  have none: "holds t = Map.empty" if "t \<in> set (cc_tasks C)" for t using idle that by (cases t) auto
  have "L k = address_of (cc_srv C) k" for k
  proof (cases "L k")
    case None
    with L show ?thesis by (cases "address_of (cc_srv C) k") (auto simp: ledger_def)
  next
    case (Some ip)
    with L show ?thesis by (cases rule: ledger_covers) (auto simp: none Some)
  qed
  then have "L = address_of (cc_srv C)" by (rule ext)
  with ledger_leases [OF L] i ts show ?thesis by (simp add: srv_inv_def in_step_def)
qed

text \<open>What the ledger says of addresses.\<close>

lemma in_step_addresses:
  assumes "in_step p C"
  shows "address_of (cc_srv C) k = Some ip \<Longrightarrow> address_of (cc_srv C) k' = Some ip \<Longrightarrow> k = k'"
    and "address_of (cc_srv C) k = Some ip \<Longrightarrow> t \<in> set (cc_tasks C) \<Longrightarrow> holds t k' = Some ip \<Longrightarrow> k = k'"
    and "ip \<in> taken (alloc (cc_srv C)) \<longleftrightarrow> ip = serverIP (alloc (cc_srv C)) \<or>
      (\<exists>k. address_of (cc_srv C) k = Some ip) \<or> (\<exists>t \<in> set (cc_tasks C). \<exists>k. holds t k = Some ip)"
proof -
  obtain L where L: "ledger p (cc_srv C) (cc_tasks C) L" using assms by (auto simp: in_step_def)
  note d = ipool.leases_distinct [OF ledger_leases [OF L]]
  have a: "address_of (cc_srv C) j = Some i \<Longrightarrow> L j = Some i" for j i using L by (simp add: ledger_def)
  have h: "t \<in> set (cc_tasks C) \<Longrightarrow> holds t j = Some i \<Longrightarrow> L j = Some i" for t j i
    using L unfolding ledger_def by blast
  show "address_of (cc_srv C) k = Some ip \<Longrightarrow> address_of (cc_srv C) k' = Some ip \<Longrightarrow> k = k'"
    and "address_of (cc_srv C) k = Some ip \<Longrightarrow> t \<in> set (cc_tasks C) \<Longrightarrow> holds t k' = Some ip \<Longrightarrow> k = k'"
    using d a h by blast+
  have "taken (alloc (cc_srv C)) = insert (serverIP (alloc (cc_srv C))) (ran L)"
    using ledger_leases [OF L] by (simp add: ipool.leases_def)
  moreover have "ip \<in> ran L \<longleftrightarrow> (\<exists>k. address_of (cc_srv C) k = Some ip) \<or> (\<exists>t \<in> set (cc_tasks C). \<exists>k. holds t k = Some ip)"
    using a h ledger_covers [OF L] unfolding ran_def by (auto, blast+)
  ultimately show "ip \<in> taken (alloc (cc_srv C)) \<longleftrightarrow> ip = serverIP (alloc (cc_srv C)) \<or>
      (\<exists>k. address_of (cc_srv C) k = Some ip) \<or> (\<exists>t \<in> set (cc_tasks C). \<exists>k. holds t k = Some ip)"
    by blast
qed

end
