(* ===== verification/Overlaps.thy ===== *)
theory Overlaps
  imports Separate_Keys
begin

text \<open>
  A goroutine that nobody disturbs is an interleaving too, so every serial run of handlers is one
  of the concurrent server. With it the order of events is built in which a device enrols again
  while the reaper drops it, and its address ends with two owners, and the one in which a heartbeat
  is answered for a device that is gone.
\<close>

section \<open>Undisturbed goroutines\<close>

text \<open>Only the loops look at the order in which peers are visited.\<close>

lemma task_step_order:
  "lists t = 0 \<Longrightarrow> task_step pk now ks pks t s = task_step pk now ks pks' t s"
  by (cases "(pk, now, ks, pks, t, s)" rule: task_step.cases) (simp_all add: lists_def)

lemma task_step_lists: "task_step pk now ks pks t s = Ok (t', s') \<Longrightarrow> lists t' = 0"
  by (cases "(pk, now, ks, pks, t, s)" rule: task_step.cases)
    (auto simp: lists_def obind_Ok_iff Enroll_tenant_step simp del: task_step.simps(2)
      split: option.splits prod.splits sum.splits if_splits cont.splits)

lemma conc_run_progress:
  assumes "i < length (cc_tasks C)" "ranges_over ks (tenants (tstore (cc_srv C)))"
    and "lists (cc_tasks C ! i) = 0 \<or> ranges_over pks (peers (store (cc_srv C)))"
    and "task_step pk (cc_now C) ks pks (cc_tasks C ! i) (cc_srv C) = Ok (t', s')"
  shows "conc_step pk verify C (C\<lparr>cc_tasks := (cc_tasks C)[i := t'], cc_srv := s'\<rparr>)"
proof -
  obtain pks' where pks': "ranges_over pks' (peers (store (cc_srv C)))" using ranges_over_exists by blast
  show ?thesis
  proof (cases "ranges_over pks (peers (store (cc_srv C)))")
    case True
    with assms show ?thesis by (intro conc_step.progress)
  next
    case False
    with assms have "task_step pk (cc_now C) ks pks' (cc_tasks C ! i) (cc_srv C) = Ok (t', s')"
      using task_step_order by metis
    with assms pks' show ?thesis by (intro conc_step.progress)
  qed
qed

lemma alone_run:
  assumes "alone pk now ks pks t s = Ok (r, s')"
    and "i < length ts" "ts ! i = t" "ranges_over ks (tenants (tstore s))"
    and "lists t = 0 \<or> ranges_over pks (peers (store s))"
  shows "conc_run pk verify \<lparr>cc_srv = s, cc_now = now, cc_tasks = ts\<rparr>
    \<lparr>cc_srv = s', cc_now = now, cc_tasks = ts[i := Done r]\<rparr>"
  using assms
proof (induction pk now ks pks t s arbitrary: ts rule: alone.induct)
  case (1 pk now ks pks t s)
  show ?case
  proof (cases "finished t")
    case True
    then obtain x where "t = Done x" by (cases t) auto
    with 1 have "s' = s" "r = x" by auto
    moreover from \<open>t = Done x\<close> 1 have "ts[i := Done x] = ts" by (metis list_update_id)
    ultimately show ?thesis by (simp add: conc_run_def)
  next
    case False
    with 1(2) obtain t1 s1 where st: "task_step pk now ks pks t s = Ok (t1, s1)"
      and al: "alone pk now ks pks t1 s1 = Ok (r, s')"
      by (auto simp: alone_step obind_Ok_iff)
    have "conc_step pk verify \<lparr>cc_srv = s, cc_now = now, cc_tasks = ts\<rparr>
        \<lparr>cc_srv = s1, cc_now = now, cc_tasks = ts[i := t1]\<rparr>"
      using conc_run_progress [of i "\<lparr>cc_srv = s, cc_now = now, cc_tasks = ts\<rparr>" ks pks pk t1 s1 verify] st 1 by simp
    moreover have "tstore s1 = tstore s" using task_step_frame [OF st] by (simp add: same_frame_def)
    then have "conc_run pk verify \<lparr>cc_srv = s1, cc_now = now, cc_tasks = ts[i := t1]\<rparr>
        \<lparr>cc_srv = s', cc_now = now, cc_tasks = (ts[i := t1])[i := Done r]\<rparr>"
      using 1(1) [OF False st refl al, of "ts[i := t1]"] 1(3,5) task_step_lists [OF st] by simp
    ultimately show ?thesis by (simp add: conc_run_def converse_rtranclp_into_rtranclp)
  qed
qed

lemma alone_reap: "alone pk now ks pks Reap_list s = Ok (None, ReapExpired pk now pks s)"
  by (simp add: alone_step [of Reap_list] alone_Reaping ReapExpired_def lists_def)

lemma alone_reconcile:
  "registry s = Some r \<Longrightarrow>
     alone pk now ks pks Reconcile_list s = Ok (None, Reconcile pk pks (Allowed now r) s)"
  by (simp add: alone_step [of Reconcile_list] alone_Reconciling Reconcile_def lists_def)

section \<open>A device that enrols again while it is reaped\<close>

text \<open>
  \<open>k\<close>'s lease is over. Its owner's enrolment has looked the device up, and will use the address
  it found. The reaper drops the device and frees the address; a new device is given it; then
  the first enrolment stores its peer.
\<close>

definition reaped_between :: "parse_key \<Rightarrow> EnrollRequest \<Rightarrow> Claims \<Rightarrow> EnrollRequest \<Rightarrow> Claims \<Rightarrow> task list" where
  "reaped_between pk reqA clA reqB clB = [spawn pk (Enroll (Inr reqA)) clA, Reap_list, spawn pk (Enroll (Inr reqB)) clB]"

lemma spawn_enroll: "pk (er_PublicKey req) = Inr pub \<Longrightarrow> spawn pk (Enroll (Inr req)) claims = Enroll_registered req claims pub"
  by (simp add: spawn_def decode_def)

lemma lists_spawn: "lists (spawn pk c claims) = 0"
  by (auto simp: lists_def spawn_def split: call.splits sum.splits)

lemma enroll_looks_up:
  assumes adm: "admitted pk now ks req claims s pub expiry tid"
    and q: "Get (store s) (er_PublicKey req) = Some q" "p_Subject q = c_Subject claims"
    and i: "i < length ts" "ts ! i = spawn pk (Enroll (Inr req)) claims" and ks: "ranges_over ks (tenants (tstore s))"
  shows "conc_run pk verify \<lparr>cc_srv = s, cc_now = now, cc_tasks = ts\<rparr>
    \<lparr>cc_srv = s, cc_now = now, cc_tasks = ts[i := Enroll_add req claims pub expiry tid (p_IP q)]\<rparr>"
proof -
  have go: "conc_step pk verify \<lparr>cc_srv = s, cc_now = now, cc_tasks = ts[i := t]\<rparr>
      \<lparr>cc_srv = s, cc_now = now, cc_tasks = ts[i := t']\<rparr>"
    if "task_step pk now ks [] t s = Ok (t', s)" "lists t = 0" for t t'
    using conc_run_progress [of i "\<lparr>cc_srv = s, cc_now = now, cc_tasks = ts[i := t]\<rparr>" ks "[]" pk t' s verify] that i ks
    by simp
  have "ts[i := Enroll_registered req claims pub] = ts"
    using adm i by (metis admitted_def spawn_enroll list_update_id)
  moreover have "conc_step pk verify \<lparr>cc_srv = s, cc_now = now, cc_tasks = ts[i := Enroll_registered req claims pub]\<rparr>
      \<lparr>cc_srv = s, cc_now = now, cc_tasks = ts[i := Enroll_tenant req claims pub expiry]\<rparr>"
    using adm by (intro go) (simp_all add: admitted_def lists_def)
  moreover have "conc_step pk verify \<lparr>cc_srv = s, cc_now = now, cc_tasks = ts[i := Enroll_tenant req claims pub expiry]\<rparr>
      \<lparr>cc_srv = s, cc_now = now, cc_tasks = ts[i := Enroll_lookup req claims pub expiry tid]\<rparr>"
    using adm by (intro go) (simp_all add: admitted_def lists_def)
  moreover have "conc_step pk verify \<lparr>cc_srv = s, cc_now = now, cc_tasks = ts[i := Enroll_lookup req claims pub expiry tid]\<rparr>
      \<lparr>cc_srv = s, cc_now = now, cc_tasks = ts[i := Enroll_add req claims pub expiry tid (p_IP q)]\<rparr>"
    using q by (intro go) (simp_all add: lists_def)
  ultimately show ?thesis
    unfolding conc_run_def by (metis converse_rtranclp_into_rtranclp rtranclp.rtrancl_refl)
qed

lemma alone_enroll_new:
  assumes adm: "admitted pk now ks req claims s pub expiry tid" and ts: "ts_inv (tstore s)"
    and new: "Get (store s) (er_PublicKey req) = None" "Allocate (alloc s) = (Inr ip, a)"
    and g: "AddPeer (gw s) pub ip (dev s) = (d, None)"
  shows "alone pk now ks pks (spawn pk (Enroll (Inr req)) claims) s = Ok (Some (enroll_reply s expiry tid ip),
    EnrollInc tid (s\<lparr>alloc := a, dev := d, store := Put (store s) (new_peer now req claims expiry tid ip)\<rparr>))"
  using assms by (simp add: alone_dispatch dispatch_def handleEnroll_admitted [OF adm] enroll_address_def enroll_commit_Ok)

lemma alone_enroll_add:
  assumes "ts_inv (tstore s)" "AddPeer (gw s) pub ip (dev s) = (d, None)"
  shows "alone pk now ks pks (Enroll_add req claims pub expiry tid ip) s = Ok (Some (enroll_reply s expiry tid ip),
    EnrollInc tid (s\<lparr>dev := d, store := Put (store s) (new_peer now req claims expiry tid ip)\<rparr>))"
  using assms by (simp add: alone_commit enroll_commit_Ok)

lemma reap_reenroll_race:
  assumes inv: "srv_inv p s" and ks: "ranges_over ks (tenants (tstore s))" and pks: "ranges_over pks (peers (store s))"
    and A: "admitted pk now ks reqA clA s pubA eA tA" and B: "admitted pk now ks reqB clB s pubB eB tB"
    and q: "Get (store s) (er_PublicKey reqA) = Some q" "p_Subject q = c_Subject clA"
    and new: "Get (store s) (er_PublicKey reqB) = None"
    and a: "Allocate (alloc (ReapExpired pk now pks s)) = (Inr (p_IP q), a)"
    and up: "\<And>pub ip d. snd (AddPeer (gw s) pub ip d) = None"
  shows "\<exists>s' rA rB qA qB. conc_run pk verify
      \<lparr>cc_srv = s, cc_now = now, cc_tasks = reaped_between pk reqA clA reqB clB\<rparr>
      \<lparr>cc_srv = s', cc_now = now, cc_tasks = [Done (Some rA), Done None, Done (Some rB)]\<rparr> \<and>
    status rA = 200 \<and> status rB = 200 \<and>
    Get (store s') (er_PublicKey reqA) = Some qA \<and> Get (store s') (er_PublicKey reqB) = Some qB \<and>
    p_IP qA = p_IP q \<and> p_IP qB = p_IP q"
proof -
  let ?add = "Enroll_add reqA clA pubA eA tA (p_IP q)"
  let ?enB = "spawn pk (Enroll (Inr reqB)) clB"
  let ?C = "\<lambda>s ts. \<lparr>cc_srv = s, cc_now = now, cc_tasks = ts\<rparr>"
  define s1 where "s1 = ReapExpired pk now pks s"
  have fr: "tstore s1 = tstore s" "registry s1 = registry s" "cfg s1 = cfg s" "gw s1 = gw s"
    by (simp_all add: s1_def ReapExpired_def)
  have ts: "ts_inv (tstore s1)" using srv_invD(2) [OF inv] fr by simp
  have newB: "Get (store s1) (er_PublicKey reqB) = None"
    using new by (simp add: s1_def ReapExpired_def reap_loop_Get)
  have admB: "admitted pk now ks reqB clB s1 pubB eB tB"
    using B fr by (simp add: admitted_def registered_def chooseTenant_def)
  have g: "AddPeer (gw s) pub ip d = (fst (AddPeer (gw s) pub ip d), None)" for pub ip d
    using up by (simp add: prod_eq_iff)
  obtain rB s2 where hB: "alone pk now ks pks ?enB s1 = Ok (Some rB, s2)" and rB: "status rB = 200"
    and s2: "tstore s2 = tstore s1" "gw s2 = gw s" "store s2 = Put (store s1) (new_peer now reqB clB eB tB (p_IP q))"
    using alone_enroll_new [OF admB ts newB _ g [of pubB "p_IP q" "dev s1", folded fr(4)]] a fr
    by (auto simp: s1_def [symmetric] enroll_reply_def writeJSON_def)
  obtain rA s3 where hA: "alone pk now ks pks ?add s2 = Ok (Some rA, s3)" and rA: "status rA = 200"
    and s3: "store s3 = Put (store s2) (new_peer now reqA clA eA tA (p_IP q))"
    using alone_enroll_add [of s2 pubA "p_IP q"] ts s2 g [of pubA "p_IP q" "dev s2"]
    by (simp add: enroll_reply_def writeJSON_def)
  have "conc_run pk verify (?C s (reaped_between pk reqA clA reqB clB)) (?C s [?add, Reap_list, ?enB])"
    using enroll_looks_up [OF A q _ _ ks, of 0 "reaped_between pk reqA clA reqB clB" verify]
    by (simp add: reaped_between_def)
  moreover have "conc_run pk verify (?C s [?add, Reap_list, ?enB]) (?C s1 [?add, Done None, ?enB])"
    using alone_run [OF alone_reap, of 1 "[?add, Reap_list, ?enB]" ks s pks pk verify now] ks pks by (simp add: s1_def)
  moreover have "conc_run pk verify (?C s1 [?add, Done None, ?enB]) (?C s2 [?add, Done None, Done (Some rB)])"
    using alone_run [OF hB, of 2 "[?add, Done None, ?enB]" verify] ks fr lists_spawn by simp
  moreover have "conc_run pk verify (?C s2 [?add, Done None, Done (Some rB)]) (?C s3 [Done (Some rA), Done None, Done (Some rB)])"
    using alone_run [OF hA, of 0 "[?add, Done None, Done (Some rB)]" verify] ks fr s2 by (simp add: lists_def)
  ultimately have "conc_run pk verify (?C s (reaped_between pk reqA clA reqB clB)) (?C s3 [Done (Some rA), Done None, Done (Some rB)])"
    unfolding conc_run_def by (meson rtranclp_trans)
  moreover have "er_PublicKey reqA \<noteq> er_PublicKey reqB" using q(1) new by auto
  ultimately show ?thesis
    using rA rB by (intro exI [of _ s3] exI [of _ rA] exI [of _ rB]) (auto simp: s3 s2(3) store_simps)
qed

section \<open>A heartbeat that comes too late\<close>

text \<open>
  The heartbeat has found its device and passed its checks when the reaper drops it; \<open>Renew\<close> then
  finds nothing, and the answer is 200 all the same.
\<close>

lemma heartbeat_too_late:
  assumes inv: "srv_inv p s" and ks: "ranges_over ks (tenants (tstore s))" and pks: "ranges_over pks (peers (store s))"
    and q: "Get (store s) k = Some q" "p_LeaseExpiry q \<le> now" "p_Subject q = c_Subject claims"
    and m: "p_Tenant q \<in> tenants_of (tstore s) (Tenancy claims)"
    and reg: "registered now s k claims (now + LeaseTTL (cfg s)) = Some e"
  shows "\<exists>s'. conc_run pk verify \<lparr>cc_srv = s, cc_now = now, cc_tasks = [Heartbeat_lookup k claims, Reap_list]\<rparr>
      \<lparr>cc_srv = s', cc_now = now, cc_tasks = [Done (Some (writeJSON 200 (HeartbeatBody e))), Done None]\<rparr> \<and> Get (store s') k = None"
proof -
  let ?C = "\<lambda>s ts. \<lparr>cc_srv = s, cc_now = now, cc_tasks = ts\<rparr>"
  define s1 where "s1 = ReapExpired pk now pks s"
  have gone: "Get (store s1) k = None" using ReapExpired_Get [OF inv pks, of pk now k] q by (simp add: s1_def)
  have go: "conc_step pk verify (?C s [t, Reap_list]) (?C s [t', Reap_list])"
    if "task_step pk now ks [] t s = Ok (t', s)" "lists t = 0" for t t'
    using conc_run_progress [of 0 "?C s [t, Reap_list]" ks "[]" pk t' s verify] that ks by simp
  have "conc_step pk verify (?C s [Heartbeat_lookup k claims, Reap_list]) (?C s [Heartbeat_member k claims (p_Tenant q), Reap_list])"
    using q by (intro go) (simp_all add: lists_def)
  moreover have "conc_step pk verify (?C s [Heartbeat_member k claims (p_Tenant q), Reap_list]) (?C s [Heartbeat_registered k claims, Reap_list])"
    using m by (intro go) (simp_all add: lists_def IsMember_Ok [OF srv_invD(2) [OF inv] ks])
  moreover have "conc_step pk verify (?C s [Heartbeat_registered k claims, Reap_list]) (?C s [Heartbeat_renew k e, Reap_list])"
    using reg by (intro go) (simp_all add: lists_def)
  moreover have "conc_run pk verify (?C s [Heartbeat_renew k e, Reap_list]) (?C s1 [Heartbeat_renew k e, Done None])"
    using alone_run [OF alone_reap, of 1 "[Heartbeat_renew k e, Reap_list]" ks s pks pk verify now] ks pks by (simp add: s1_def)
  moreover have "conc_step pk verify (?C s1 [Heartbeat_renew k e, Done None])
      (?C (s1\<lparr>store := snd (Renew (store s1) k e)\<rparr>) [Done (Some (writeJSON 200 (HeartbeatBody e))), Done None])"
    using conc_run_progress [of 0 "?C s1 [Heartbeat_renew k e, Done None]" ks "[]" pk] ks by (simp add: lists_def s1_def)
  ultimately have "conc_run pk verify (?C s [Heartbeat_lookup k claims, Reap_list])
      (?C (s1\<lparr>store := snd (Renew (store s1) k e)\<rparr>) [Done (Some (writeJSON 200 (HeartbeatBody e))), Done None])"
    unfolding conc_run_def by (meson rtranclp_trans converse_rtranclp_into_rtranclp rtranclp.rtrancl_into_rtrancl)
  moreover have "Get (store (s1\<lparr>store := snd (Renew (store s1) k e)\<rparr>)) k = None" using gone by (simp add: store_simps)
  ultimately show ?thesis by blast
qed

end
