(* ===== verification/Separate_Device.thy ===== *)
theory Separate_Device
  imports Separate_Keys
begin

text \<open>
  The WireGuard device while goroutines overlap on different keys. Between its operations a
  goroutine may have programmed an address it has not stored yet, or taken one off that is still
  stored; with those two corrections the device holds what the store says.
\<close>

section \<open>What the device should hold\<close>

text \<open>Where a goroutine is ahead of the store: what it has programmed, or taken off.\<close>

fun ahead :: "task \<Rightarrow> string \<Rightarrow> ip option option" where
  "ahead (Enroll_put req _ _ _ ip) = [er_PublicKey req \<mapsto> Some ip]"
| "ahead (Drop_delete key _ _) = [key \<mapsto> None]"
| "ahead _ = Map.empty"

text \<open>The key an enrolment is for, and the parsed key it carries.\<close>

fun enrols :: "task \<Rightarrow> (string \<times> wgkey) option" where
  "enrols (Enroll_registered req _ pub) = Some (er_PublicKey req, pub)"
| "enrols (Enroll_tenant req _ pub _) = Some (er_PublicKey req, pub)"
| "enrols (Enroll_lookup req _ pub _ _) = Some (er_PublicKey req, pub)"
| "enrols (Enroll_allocate req _ pub _ _) = Some (er_PublicKey req, pub)"
| "enrols (Enroll_add req _ pub _ _ _) = Some (er_PublicKey req, pub)"
| "enrols _ = None"

definition parsed :: "parse_key \<Rightarrow> string set \<Rightarrow> task \<Rightarrow> bool" where
  "parsed pk C t \<longleftrightarrow> (\<forall>k pub. enrols t = Some (k, pub) \<longrightarrow> k \<in> C \<and> pk k = Inr pub)"

definition target :: "'d Server \<Rightarrow> task list \<Rightarrow> (string \<Rightarrow> ip option) \<Rightarrow> bool" where
  "target s ts D \<longleftrightarrow>
     (\<forall>t \<in> set ts. \<forall>k x. ahead t k = Some x \<longrightarrow> D k = x) \<and>
     (\<forall>k. (\<forall>t \<in> set ts. ahead t k = None) \<longrightarrow> D k = address_of s k)"

definition dev_step :: "parse_key \<Rightarrow> string set \<Rightarrow> 'd view \<Rightarrow> nat \<Rightarrow> 'd Conc \<Rightarrow> bool" where
  "dev_step pk C view p X \<longleftrightarrow>
     gateway_ok view (gw (cc_srv X)) \<and> removes (gw (cc_srv X)) \<and> (\<forall>t \<in> set (cc_tasks X). parsed pk C t) \<and>
     (\<exists>D. target (cc_srv X) (cc_tasks X) D \<and>
        programmed pk C (hosts (network (alloc (cc_srv X))) p) D (view (dev (cc_srv X))))"

lemma ahead_keys: "ahead t k = Some x \<Longrightarrow> k \<in> keys_of t"
  and ahead_holds: "ahead t k = Some (Some ip) \<Longrightarrow> holds t k = Some ip"
  by (cases t; auto split: if_splits)+

lemma ahead_None: "k \<notin> keys_of t \<Longrightarrow> ahead t k = None"
  using ahead_keys [of t k] by (cases "ahead t k") auto

lemma parsed_step:
  "task_step pk now ks pks t s = Ok (t', s') \<Longrightarrow> parsed pk C t \<Longrightarrow> parsed pk C t'"
  by (cases "(pk, now, ks, pks, t, s)" rule: task_step.cases)
    (auto simp: parsed_def obind_Ok_iff Enroll_tenant_step simp del: task_step.simps(2)
      split: option.splits prod.splits sum.splits if_splits cont.splits)

text \<open>A key nobody else works on: the target after one task's step.\<close>

lemma target_step:
  assumes D: "target s ts D" and i: "i < length ts" "ts ! i = t"
    and only: "\<And>j k. j < length ts \<Longrightarrow> j \<noteq> i \<Longrightarrow> k \<in> keys_of t \<Longrightarrow> k \<notin> keys_of (ts ! j)"
    and frame: "\<And>k. k \<notin> keys_of t \<Longrightarrow> address_of s' k = address_of s k \<and> D' k = D k \<and> ahead t' k = None"
    and here: "\<And>k. k \<in> keys_of t \<Longrightarrow> D' k = (case ahead t' k of Some x \<Rightarrow> x | None \<Rightarrow> address_of s' k)"
  shows "target s' (ts[i := t']) D'"
  unfolding target_def
proof (intro conjI ballI allI impI)
  fix u k x assume u: "u \<in> set (ts[i := t'])" "ahead u k = Some x"
  obtain j where j: "j < length ts" "u = ts[i := t'] ! j" using update_nth [OF u(1)] by blast
  show "D' k = x"
  proof (cases "j = i")
    case True
    with j u(2) have a: "ahead t' k = Some x" by simp
    then have "k \<in> keys_of t" using frame [of k] by (cases "k \<in> keys_of t") simp_all
    from here [OF this] a show ?thesis by simp
  next
    case False
    with j have w: "u = ts ! j" "u \<in> set ts" by simp_all
    with only [OF j(1) False, of k] ahead_keys [OF u(2)] have "k \<notin> keys_of t" by auto
    with D u(2) w(2) frame [of k] show ?thesis unfolding target_def by simp
  qed
next
  fix k assume none: "\<forall>u \<in> set (ts[i := t']). ahead u k = None"
  have t': "ahead t' k = None" using none set_update_memI [OF i(1), of t'] by blast
  show "D' k = address_of s' k"
  proof (cases "k \<in> keys_of t")
    case True
    with here [of k] t' show ?thesis by simp
  next
    case False
    have "ahead u k = None" if "u \<in> set ts" for u
      using that i none ahead_None [OF False] update_other [of u ts i t'] by (cases "u = t") auto
    with D False frame [of k] show ?thesis unfolding target_def by simp
  qed
qed

lemma target_at:
  assumes D: "target s ts D" and i: "i < length ts" "k \<in> keys_of (ts ! i)"
    and only: "\<And>j. j < length ts \<Longrightarrow> j \<noteq> i \<Longrightarrow> k \<notin> keys_of (ts ! j)"
  shows "D k = (case ahead (ts ! i) k of Some x \<Rightarrow> x | None \<Rightarrow> address_of s k)"
proof (cases "ahead (ts ! i) k")
  case None
  have "ahead u k = None" if "u \<in> set ts" for u
  proof -
    from that obtain j where "j < length ts" "u = ts ! j" by (auto simp: in_set_conv_nth)
    then show ?thesis using None ahead_None only by (cases "j = i") auto
  qed
  with D None show ?thesis unfolding target_def by simp
next
  case (Some x)
  with D nth_mem [OF i(1)] show ?thesis unfolding target_def by auto
qed

lemma target_holds:
  assumes D: "target s ts D" and L: "ledger p s ts L" and k: "D k = Some ip"
  shows "L k = Some ip"
proof (cases "\<forall>t \<in> set ts. ahead t k = None")
  case True
  with D k have "address_of s k = Some ip" unfolding target_def by simp
  with L show ?thesis unfolding ledger_def by simp
next
  case False
  then obtain t x where t: "t \<in> set ts" "ahead t k = Some x" by fastforce
  with D k have "ahead t k = Some (Some ip)" unfolding target_def by auto
  from ahead_holds [OF this] t(1) L show ?thesis unfolding ledger_def by blast
qed

section \<open>One operation\<close>

text \<open>The device after an operation of a goroutine, and the map it then holds.\<close>

lemma add_device:
  assumes st: "task_step pk now ks pks (Enroll_add req claims pub expiry tid ip) s = Ok (t', s')"
    and D: "target s ts D" and P: "programmed pk C H D (view (dev s))"
    and C: "canonical pk C" and g: "gateway_ok view (gw s)" and up: "snd (AddPeer (gw s) pub ip (dev s)) = None"
    and k: "er_PublicKey req \<in> C" "pk (er_PublicKey req) = Inr pub" and L: "ledger p s ts L" "L (er_PublicKey req) = Some ip"
  shows "t' = Enroll_put req claims expiry tid ip" "address_of s' = address_of s"
    "programmed pk C H (D(er_PublicKey req \<mapsto> ip)) (view (dev s'))"
proof -
  obtain d where d: "AddPeer (gw s) pub ip (dev s) = (d, None)" using up by (cases "AddPeer (gw s) pub ip (dev s)") auto
  have fresh: "k' = er_PublicKey req" if "D k' = Some ip" for k'
    using ipool.leases_distinct [OF ledger_leases [OF L(1)]] target_holds [OF D L(1) that] L(2) by blast
  have same: "j = ip" if "D (er_PublicKey req) = Some j" for j using target_holds [OF D L(1) that] L(2) by simp
  have "programmed pk C H (D(er_PublicKey req \<mapsto> ip)) (view d)"
    by (rule programmed_add [OF P C k fresh same gateway_AddPeer [OF g d]])
  with st d show "t' = Enroll_put req claims expiry tid ip" "address_of s' = address_of s"
    "programmed pk C H (D(er_PublicKey req \<mapsto> ip)) (view (dev s'))" by auto
qed

lemma remove_device:
  assumes st: "task_step pk now ks pks (Drop_remove key ip c) s = Ok (t', s')"
    and P: "programmed pk C H D (view (dev s))" and Dk: "D key = Some ip"
    and C: "canonical pk C" and g: "gateway_ok view (gw s)" "removes (gw s)"
  shows "t' = Drop_delete key ip c" "address_of s' = address_of s" "programmed pk C H (D(key := None)) (view (dev s'))"
proof -
  obtain pub where pub: "pk key = Inr pub" using programmedD(2) [OF P Dk] by blast
  obtain d where d: "RemovePeer (gw s) pub (dev s) = (d, None)"
    using g(2) unfolding removes_def by (metis prod.collapse)
  have "programmed pk C H (D(key := None)) (view d)"
    using programmed_drop [OF P C Dk pub] gateway_RemovePeer [OF g(1) d] by simp
  with st pub d show "t' = Drop_delete key ip c" "address_of s' = address_of s" "programmed pk C H (D(key := None)) (view (dev s'))"
    by auto
qed

lemma task_step_device:
  assumes st: "task_step pk now ks pks (ts ! i) s = Ok (t', s')" and i: "i < length ts"
    and D: "target s ts D" and P: "programmed pk C H D (view (dev s))"
    and C: "canonical pk C" and g: "gateway_ok view (gw s)" "removes (gw s)"
    and up: "\<And>pub ip d. snd (AddPeer (gw s) pub ip d) = None"
    and t: "parsed pk C (ts ! i)" "fits s (ts ! i)" and L: "ledger p s ts L"
    and only: "\<And>j k. j < length ts \<Longrightarrow> j \<noteq> i \<Longrightarrow> k \<in> keys_of (ts ! i) \<Longrightarrow> k \<notin> keys_of (ts ! j)"
  shows "\<exists>D'. target s' (ts[i := t']) D' \<and> programmed pk C H D' (view (dev s'))"
proof -
  note at = target_at [OF D i _ only]
  note step = target_step [OF D i refl only]
  have keep: ?thesis if "dev s' = dev s" "\<And>k. ahead t' k = None"
    and "\<And>k. k \<in> keys_of (ts ! i) \<Longrightarrow> (case ahead (ts ! i) k of Some x \<Rightarrow> x | None \<Rightarrow> address_of s k) = address_of s' k"
  proof -
    have "target s' (ts[i := t']) D" by (rule step) (use that at task_step_address [OF st] in auto)
    with P that(1) show ?thesis by auto
  qed
  show ?thesis
  proof (cases "(pk, now, ks, pks, ts ! i, s)" rule: task_step.cases)
    case (5 _ _ _ _ req claims pub expiry tid ip)
    have k: "er_PublicKey req \<in> C" "pk (er_PublicKey req) = Inr pub" using t(1) 5 by (simp_all add: parsed_def)
    have "L (er_PublicKey req) = Some ip" using L nth_mem [OF i] 5 unfolding ledger_def by force
    note d = add_device [OF _ D P C g(1) up k L this, of now ks pks claims expiry tid t' s']
    have "target s' (ts[i := t']) (D(er_PublicKey req \<mapsto> ip))" by (intro step) (use 5 st d in auto)
    with d st 5 show ?thesis by auto
  next
    case (15 _ _ _ _ key ip c)
    then have "D key = Some ip" using at [of key] t(2) by simp
    note d = remove_device [OF _ P this C g, of now ks pks c t' s']
    have "target s' (ts[i := t']) (D(key := None))" by (rule step) (use 15 st d at in auto)
    with d st 15 show ?thesis by auto
  qed ((rule keep; use st t(2) in
      \<open>auto simp: obind_Ok_iff Enroll_tenant_step address_of_Put address_of_Renew EnrollInc_def
        simp del: task_step.simps(2) split: option.splits prod.splits sum.splits if_splits cont.splits\<close>)+)
qed

section \<open>Runs\<close>

definition adds :: "'d Gateway \<Rightarrow> bool" where
  "adds g \<longleftrightarrow> (\<forall>pub ip d. snd (AddPeer g pub ip d) = None)"

lemma dev_step_progress:
  assumes inv: "in_step p X" "dev_step pk C view p X" and sep: "separate X" and C: "canonical pk C" and up: "adds (gw (cc_srv X))"
    and i: "i < length (cc_tasks X)"
    and st: "task_step pk (cc_now X) ks pks (cc_tasks X ! i) (cc_srv X) = Ok (t', s')"
  shows "dev_step pk C view p (X\<lparr>cc_tasks := (cc_tasks X)[i := t'], cc_srv := s'\<rparr>)"
proof -
  let ?s = "cc_srv X" and ?ts = "cc_tasks X"
  obtain D where D: "target ?s ?ts D" "programmed pk C (hosts (network (alloc ?s)) p) D (view (dev ?s))"
    using inv(2) by (auto simp: dev_step_def)
  obtain L where L: "ledger p ?s ?ts L" using inv(1) by (auto simp: in_step_def)
  have g: "gateway_ok view (gw ?s)" "removes (gw ?s)" using inv(2) by (simp_all add: dev_step_def)
  have t: "?ts ! i \<in> set ?ts" using i by simp
  have par: "parsed pk C u" if "u \<in> set ?ts" for u using inv(2) that by (simp add: dev_step_def)
  have fit: "fits ?s (?ts ! i)" using inv(1) t by (simp add: in_step_def)
  have up': "snd (AddPeer (gw ?s) pub ip d) = None" for pub ip d using up by (simp add: adds_def)
  have "\<exists>D'. target s' (?ts[i := t']) D' \<and> programmed pk C (hosts (network (alloc ?s)) p) D' (view (dev s'))"
    by (rule task_step_device [OF st i D C g up' par [OF t] fit L separate_only(1) [OF sep i]])
  moreover have "parsed pk C u" if "u \<in> set (?ts[i := t'])" for u
    using update_old [OF that] par parsed_step [OF st par [OF t]] by blast
  moreover have "same_frame ?s s'" by (rule task_step_frame [OF st])
  ultimately show ?thesis using g by (auto simp: dev_step_def same_frame_def)
qed

lemma target_append: "ahead t = Map.empty \<Longrightarrow> target s (ts @ [t]) D = target s ts D"
  by (auto simp: target_def)

lemma target_same_store: "address_of s' = address_of s \<Longrightarrow> target s' ts D = target s ts D"
  by (simp add: target_def)

lemma spawn_untouched: "ahead (spawn pk c claims) = Map.empty"
  by (auto simp: spawn_def split: call.split sum.split)

lemma dev_step_append:
  assumes "dev_step pk C view p X" "ahead t = Map.empty" "parsed pk C t"
  shows "dev_step pk C view p (X\<lparr>cc_tasks := cc_tasks X @ [t]\<rparr>)"
  using assms(1,3) unfolding dev_step_def by (simp add: target_append [OF assms(2)])

lemma dev_step_frame:
  assumes "dev_step pk C view p X" "store s' = store (cc_srv X)" "alloc s' = alloc (cc_srv X)" "dev s' = dev (cc_srv X)"
    "gw s' = gw (cc_srv X)"
  shows "dev_step pk C view p (X\<lparr>cc_srv := s'\<rparr>)"
proof -
  have "address_of s' = address_of (cc_srv X)" using assms(2) by (auto simp: address_of_def)
  then have "target s' ts D = target (cc_srv X) ts D" for ts D by (rule target_same_store)
  with assms show ?thesis unfolding dev_step_def by simp
qed

lemma dev_step_step:
  assumes "conc_step pk verify X X'" "in_step p X" "dev_step pk C view p X" "separate X" "canonical pk C" "adds (gw (cc_srv X))"
    "\<forall>t \<in> set (cc_tasks X'). parsed pk C t"
  shows "dev_step pk C view p X'"
  using assms
proof (induction rule: conc_step.induct)
  case (progress i X ks pks t' s')
  then show ?case by (intro dev_step_progress)
next
  case (elapse X n)
  then show ?case by (simp add: dev_step_def)
next
  case (fetch X r fetched)
  then show ?case by (intro dev_step_frame) simp_all
next
  case (tenants X ts')
  then show ?case by (intro dev_step_frame) simp_all
qed (auto intro!: dev_step_append simp: spawn_untouched)

lemma conc_step_gw: "conc_step pk verify X X' \<Longrightarrow> gw (cc_srv X') = gw (cc_srv X)"
  by (induction rule: conc_step.induct) (auto dest: task_step_frame simp: same_frame_def)

text \<open>Runs with goroutines on different keys whose texts are from \<open>C\<close>.\<close>

inductive canon_run :: "parse_key \<Rightarrow> verifier \<Rightarrow> string set \<Rightarrow> 'd Conc \<Rightarrow> 'd Conc \<Rightarrow> bool"
  for pk :: parse_key and verify :: verifier and C :: "string set" and X :: "'d Conc" where
  start: "separate X \<Longrightarrow> canon_run pk verify C X X"
| step: "canon_run pk verify C X X1 \<Longrightarrow> conc_step pk verify X1 X2 \<Longrightarrow> separate X2 \<Longrightarrow>
    \<forall>t \<in> set (cc_tasks X2). parsed pk C t \<Longrightarrow> canon_run pk verify C X X2"

lemma canon_run_apart: "canon_run pk verify C X X' \<Longrightarrow> apart_run pk verify X X'"
  by (induction rule: canon_run.induct) (auto intro: apart_run.intros)

lemma canon_run_gw: "canon_run pk verify C X X' \<Longrightarrow> gw (cc_srv X') = gw (cc_srv X)"
  by (induction rule: canon_run.induct) (auto dest: conc_step_gw)

lemma canon_run_dev:
  "canon_run pk verify C X X' \<Longrightarrow> in_step p X \<Longrightarrow> dev_step pk C view p X \<Longrightarrow> canonical pk C \<Longrightarrow> adds (gw (cc_srv X)) \<Longrightarrow>
     dev_step pk C view p X'"
proof (induction rule: canon_run.induct)
  case (step X1 X2)
  then have "in_step p X1" "separate X1" using apart_run_in_step [OF canon_run_apart [OF step(1)]] by blast+
  with step show ?case using canon_run_gw [OF step(1)] by (intro dev_step_step [OF step(2)]) auto
qed

lemma dev_step_start:
  "dev_inv pk C view p s \<Longrightarrow> dev_step pk C view p \<lparr>cc_srv = s, cc_now = now, cc_tasks = []\<rparr>"
  by (auto simp: dev_inv_def dev_step_def target_def)

lemma dev_step_idle:
  assumes "dev_step pk C view p X" "\<forall>t \<in> set (cc_tasks X). finished t"
  shows "dev_inv pk C view p (cc_srv X)"
proof -
  have "ahead t = Map.empty" if "t \<in> set (cc_tasks X)" for t using assms(2) that by (cases t) auto
  then have "D = address_of (cc_srv X)" if "target (cc_srv X) (cc_tasks X) D" for D
    using that by (auto simp: target_def fun_eq_iff)
  with assms(1) show ?thesis by (auto simp: dev_inv_def dev_step_def)
qed

text \<open>What is on the device at any moment.\<close>

lemma dev_step_view:
  assumes X: "dev_step pk C view p X" and i: "in_step p X"
  shows "address_of (cc_srv X) k = Some ip \<Longrightarrow> \<forall>t \<in> set (cc_tasks X). k \<notin> keys_of t \<Longrightarrow>
      \<exists>pub. pk k = Inr pub \<and> fmlookup (view (dev (cc_srv X))) pub = Some [host_net ip]"
    and "fmlookup (view (dev (cc_srv X))) pub = Some nets \<Longrightarrow> j \<in> hosts (network (alloc (cc_srv X))) p \<Longrightarrow>
      host_net j \<in> set nets \<Longrightarrow>
      \<exists>k. pk k = Inr pub \<and> (address_of (cc_srv X) k = Some j \<or> (\<exists>t \<in> set (cc_tasks X). holds t k = Some j))"
proof -
  obtain D where D: "target (cc_srv X) (cc_tasks X) D"
    and P: "programmed pk C (hosts (network (alloc (cc_srv X))) p) D (view (dev (cc_srv X)))"
    using X by (auto simp: dev_step_def)
  obtain L where L: "ledger p (cc_srv X) (cc_tasks X) L" using i by (auto simp: in_step_def)
  show "\<exists>pub. pk k = Inr pub \<and> fmlookup (view (dev (cc_srv X))) pub = Some [host_net ip]"
    if a: "address_of (cc_srv X) k = Some ip" and free: "\<forall>t \<in> set (cc_tasks X). k \<notin> keys_of t"
  proof -
    have "ahead t k = None" if "t \<in> set (cc_tasks X)" for t using that free ahead_None by blast
    with D a have "D k = Some ip" unfolding target_def by simp
    then show ?thesis by (rule programmedD(2) [OF P])
  qed
  show "\<exists>k. pk k = Inr pub \<and> (address_of (cc_srv X) k = Some j \<or> (\<exists>t \<in> set (cc_tasks X). holds t k = Some j))"
    if v: "fmlookup (view (dev (cc_srv X))) pub = Some nets" "j \<in> hosts (network (alloc (cc_srv X))) p" "host_net j \<in> set nets"
  proof -
    obtain k where k: "D k = Some j" "pk k = Inr pub" using programmedD(3) [OF P v] by blast
    from L target_holds [OF D L k(1)] have
      "address_of (cc_srv X) k = Some j \<or> (\<exists>t \<in> set (cc_tasks X). holds t k = Some j)"
      by (cases rule: ledger_covers) blast+
    with k(2) show ?thesis by blast
  qed
qed

end
