(* ===== verification/Traces.thy ===== *)
theory Traces
  imports Main
begin

text \<open>
  Runs of a labelled step relation, and forward simulation between two of them: from an invariant
  and one step to runs of any length, with the labels of the abstract run explained one by one.
\<close>

inductive trace :: "('s \<Rightarrow> 'e \<Rightarrow> 's \<Rightarrow> bool) \<Rightarrow> 's \<Rightarrow> 'e list \<Rightarrow> 's \<Rightarrow> bool"
  for step :: "'s \<Rightarrow> 'e \<Rightarrow> 's \<Rightarrow> bool" where
  start: "trace step s [] s"
| step: "trace step s es s' \<Longrightarrow> step s' e s'' \<Longrightarrow> trace step s (es @ [e]) s''"

lemma list_all2_mem: "list_all2 P xs ys \<Longrightarrow> y \<in> set ys \<Longrightarrow> \<exists>x \<in> set xs. P x y"
  by (induction rule: list_all2_induct) auto

lemma trace_one: "trace step s [e] s' \<longleftrightarrow> step s e s'"
proof
  assume "trace step s [e] s'"
  then show "step s e s'" by (cases rule: trace.cases) (auto elim: trace.cases [of step s "[]"])
next
  show "step s e s' \<Longrightarrow> trace step s [e] s'" using trace.step [of step s "[]" s e s'] by (simp add: trace.start)
qed

lemma trace_keeps:
  assumes "trace step s es s'" "I s" "\<And>s e s'. step s e s' \<Longrightarrow> I s \<Longrightarrow> I s'"
  shows "I s'"
  using assms by (induction rule: trace.induct) blast+

text \<open>
  A simulation of one system by another, kept by the invariant of the first on the labels that are
  \<open>ok\<close>. \<open>explains e a\<close> says that the label \<open>a\<close> may stand for \<open>e\<close>.
\<close>

locale simulates =
  fixes cstep :: "'c \<Rightarrow> 'e \<Rightarrow> 'c \<Rightarrow> bool" and astep :: "'a \<Rightarrow> 'b \<Rightarrow> 'a \<Rightarrow> bool"
    and inv :: "'c \<Rightarrow> bool" and ok :: "'e \<Rightarrow> bool" and abs_of :: "'c \<Rightarrow> 'a" and explains :: "'e \<Rightarrow> 'b \<Rightarrow> bool"
  assumes keeps: "inv s \<Longrightarrow> ok e \<Longrightarrow> cstep s e s' \<Longrightarrow> inv s'"
    and simulated: "inv s \<Longrightarrow> ok e \<Longrightarrow> cstep s e s' \<Longrightarrow> \<exists>a. astep (abs_of s) a (abs_of s') \<and> explains e a"
begin

lemma run_keeps: "trace cstep s es s' \<Longrightarrow> inv s \<Longrightarrow> \<forall>e \<in> set es. ok e \<Longrightarrow> inv s'"
  by (induction rule: trace.induct) (auto intro: keeps)

lemma run_simulated:
  assumes "trace cstep s es s'" "inv s" "\<forall>e \<in> set es. ok e"
  shows "\<exists>as. trace astep (abs_of s) as (abs_of s') \<and> list_all2 explains es as"
  using assms
proof (induction rule: trace.induct)
  case (start s)
  show ?case by (intro exI [of _ "[]"]) (simp add: trace.start)
next
  case (step s es s' e s'')
  then obtain as where as: "trace astep (abs_of s) as (abs_of s')" "list_all2 explains es as" by auto
  from step have "inv s'" "ok e" by (auto intro: run_keeps)
  from simulated [OF this step(2)] obtain a where "astep (abs_of s') a (abs_of s'')" "explains e a" by blast
  with as show ?case by (intro exI [of _ "as @ [a]"]) (simp add: trace.step list_all2_appendI)
qed

end

text \<open>Two simulations, one above the other, are one.\<close>

locale simulates_through =
  lower: simulates cstep bstep inv ok abs1 ex1 + upper: simulates bstep astep inv2 ok2 abs2 ex2
  for cstep :: "'c \<Rightarrow> 'e \<Rightarrow> 'c \<Rightarrow> bool" and bstep :: "'m \<Rightarrow> 'f \<Rightarrow> 'm \<Rightarrow> bool" and inv ok abs1 ex1
    and astep :: "'a \<Rightarrow> 'b \<Rightarrow> 'a \<Rightarrow> bool" and inv2 ok2 abs2 ex2 +
  assumes below: "inv s \<Longrightarrow> inv2 (abs1 s)" and labels: "ok e \<Longrightarrow> ex1 e f \<Longrightarrow> ok2 f"
begin

lemma through:
  assumes "inv s" "ok e" "cstep s e s'"
  shows "\<exists>a. astep (abs2 (abs1 s)) a (abs2 (abs1 s')) \<and> (\<exists>f. ex1 e f \<and> ex2 f a)"
proof -
  from lower.simulated [OF assms] obtain f where f: "bstep (abs1 s) f (abs1 s')" "ex1 e f" by blast
  from upper.simulated [OF below [OF assms(1)] labels [OF assms(2) f(2)] f(1)] f(2) show ?thesis by blast
qed

end

sublocale simulates_through \<subseteq> simulates cstep astep inv ok "\<lambda>s. abs2 (abs1 s)" "\<lambda>e a. \<exists>f. ex1 e f \<and> ex2 f a"
  by unfold_locales (rule lower.keeps, assumption+, rule through)

end
