(* ===== verification/Lease_Book.thy ===== *)
theory Lease_Book
  imports System Traces
begin

text \<open>
  What the server is for, without how it does it: a book of leases. A lease has an owner, an
  address, a tenant and an end; people take leases, extend them and give them up, the clock runs,
  ends come and registrations are withdrawn. The server's store, allocator, tenants, tokens and
  gateway are an implementation of the book: every step of the running server is a step of the
  book, done in the name of whom the request's token proves.
\<close>

record lease =
  l_owner :: string
  l_address :: ip
  l_tenant :: string
  l_until :: time

record book =
  bk_now :: time
  bk_leases :: "string \<Rightarrow> lease option"

datatype action =
    Idle
  | Elapse
  | Grant string string
  | Extend string string
  | GiveUp string string
  | Expire
  | Revoke "string \<Rightarrow> string \<Rightarrow> bool"

inductive book_step :: "duration \<Rightarrow> ip set \<Rightarrow> book \<Rightarrow> action \<Rightarrow> book \<Rightarrow> bool"
  for ttl :: duration and pool :: "ip set" where
  idle: "book_step ttl pool B Idle B"
| elapse: "bk_now B \<le> t \<Longrightarrow> book_step ttl pool B Elapse (B\<lparr>bk_now := t\<rparr>)"
| grant: "bk_leases B k = None \<Longrightarrow> l_address l \<in> pool \<Longrightarrow>
    (\<forall>k' l'. bk_leases B k' = Some l' \<longrightarrow> l_address l' \<noteq> l_address l) \<Longrightarrow> l_until l \<le> bk_now B + ttl \<Longrightarrow>
    book_step ttl pool B (Grant (l_owner l) k) (B\<lparr>bk_leases := (bk_leases B)(k \<mapsto> l)\<rparr>)"
| extend: "bk_leases B k = Some l0 \<Longrightarrow> l_owner l = l_owner l0 \<Longrightarrow> l_address l = l_address l0 \<Longrightarrow>
    l_until l \<le> bk_now B + ttl \<Longrightarrow>
    book_step ttl pool B (Extend (l_owner l) k) (B\<lparr>bk_leases := (bk_leases B)(k \<mapsto> l)\<rparr>)"
| give_up: "bk_leases B k = Some l \<Longrightarrow>
    book_step ttl pool B (GiveUp (l_owner l) k) (B\<lparr>bk_leases := (bk_leases B)(k := None)\<rparr>)"
| expire: "book_step ttl pool B Expire (B\<lparr>bk_leases := (\<lambda>k. case bk_leases B k of None \<Rightarrow> None
      | Some l \<Rightarrow> if l_until l \<le> bk_now B then None else Some l)\<rparr>)"
| revoke: "book_step ttl pool B (Revoke A) (B\<lparr>bk_leases := (\<lambda>k. case bk_leases B k of None \<Rightarrow> None
      | Some l \<Rightarrow> if A k (l_owner l) then Some l else None)\<rparr>)"

abbreviation book_run :: "duration \<Rightarrow> ip set \<Rightarrow> book \<Rightarrow> action list \<Rightarrow> book \<Rightarrow> bool" where
  "book_run ttl pool \<equiv> trace (book_step ttl pool)"

section \<open>What a book keeps\<close>

definition book_ok :: "duration \<Rightarrow> ip set \<Rightarrow> book \<Rightarrow> bool" where
  "book_ok ttl pool B \<longleftrightarrow>
     (\<forall>k l. bk_leases B k = Some l \<longrightarrow> l_address l \<in> pool \<and> l_until l \<le> bk_now B + ttl) \<and>
     (\<forall>k k' l l'. bk_leases B k = Some l \<longrightarrow> bk_leases B k' = Some l' \<longrightarrow> l_address l = l_address l' \<longrightarrow> k = k')"

lemma book_ok_sub:
  assumes "book_ok ttl pool B" "\<And>k l. L k = Some l \<Longrightarrow> bk_leases B k = Some l"
  shows "book_ok ttl pool (B\<lparr>bk_leases := L\<rparr>)"
  using assms unfolding book_ok_def by (simp, blast)

lemma book_ok_step: "book_step ttl pool B a B' \<Longrightarrow> book_ok ttl pool B \<Longrightarrow> book_ok ttl pool B'"
proof (induction rule: book_step.induct)
  case (elapse B t)
  then show ?case by (fastforce simp: book_ok_def)
next
  case (grant B k l)
  then show ?case by (auto simp: book_ok_def) metis+
next
  case (extend B k l0 l)
  then show ?case by (auto simp: book_ok_def)
qed (auto intro!: book_ok_sub split: option.splits if_splits)

lemma book_ok_run: "book_run ttl pool B as B' \<Longrightarrow> book_ok ttl pool B \<Longrightarrow> book_ok ttl pool B'"
  using trace_keeps [of "book_step ttl pool" B as B' "book_ok ttl pool"] book_ok_step by blast

text \<open>An action in somebody's name touches only that person's leases.\<close>

fun actor :: "action \<Rightarrow> string option" where
  "actor (Grant o' k) = Some o'"
| "actor (Extend o' k) = Some o'"
| "actor (GiveUp o' k) = Some o'"
| "actor _ = None"

lemma book_step_owner:
  assumes "book_step ttl pool B a B'" "actor a = Some o'" "bk_leases B k = Some l" "l_owner l \<noteq> o'"
  shows "bk_leases B' k = Some l"
  using assms by (induction rule: book_step.induct) auto

text \<open>
  A change of one entry that leaves the book in order is a grant, an extension or a return, if the
  entry was and is the person's own and keeps its address.
\<close>

lemma book_change:
  assumes ok: "book_ok ttl pool B'" and B': "B' = B\<lparr>bk_leases := (bk_leases B)(k := new)\<rparr>"
    and ch: "new \<noteq> None \<or> bk_leases B k \<noteq> None"
    and old: "\<And>l0. bk_leases B k = Some l0 \<Longrightarrow> l_owner l0 = me"
    and own: "\<And>l. new = Some l \<Longrightarrow> l_owner l = me"
    and keep: "\<And>l l0. new = Some l \<Longrightarrow> bk_leases B k = Some l0 \<Longrightarrow> l_address l = l_address l0"
  shows "book_step ttl pool B (if new = None then GiveUp me k else if bk_leases B k = None then Grant me k else Extend me k) B'"
proof (cases new)
  case None
  with ch obtain l where l: "bk_leases B k = Some l" by (cases "bk_leases B k") auto
  have "book_step ttl pool B (GiveUp (l_owner l) k) B'"
    unfolding B' None using l by (rule book_step.give_up)
  with old [OF l] None show ?thesis by simp
next
  case (Some l)
  have new: "bk_leases B' k = Some l" "bk_now B' = bk_now B" using Some by (simp_all add: B')
  with ok have l: "l_address l \<in> pool" "l_until l \<le> bk_now B + ttl" unfolding book_ok_def by auto
  show ?thesis
  proof (cases "bk_leases B k")
    case None
    have "l_address l' \<noteq> l_address l" if "bk_leases B k' = Some l'" for k' l'
    proof
      assume "l_address l' = l_address l"
      moreover have "k' \<noteq> k" using that None by auto
      moreover have "bk_leases B' k' = Some l'" using that \<open>k' \<noteq> k\<close> by (simp add: B')
      ultimately show False using ok new unfolding book_ok_def by blast
    qed
    then have "book_step ttl pool B (Grant (l_owner l) k) B'"
      unfolding B' Some using None l by (intro book_step.grant) auto
    with own [OF Some] None Some show ?thesis by simp
  next
    case (Some l0)
    have "book_step ttl pool B (Extend (l_owner l) k) B'"
      unfolding B' \<open>new = Some l\<close>
      using l own [OF \<open>new = Some l\<close>] old [OF Some] keep [OF \<open>new = Some l\<close> Some] Some
      by (intro book_step.extend [of B k l0 l]) simp_all
    with own [OF \<open>new = Some l\<close>] Some \<open>new = Some l\<close> show ?thesis by simp
  qed
qed

section \<open>The server as a book\<close>

definition lease_of :: "Peer \<Rightarrow> lease" where
  "lease_of q = \<lparr>l_owner = p_Subject q, l_address = p_IP q, l_tenant = p_Tenant q, l_until = p_LeaseExpiry q\<rparr>"

definition book_of :: "'d System \<Rightarrow> book" where
  "book_of S = \<lparr>bk_now = sy_now S, bk_leases = (\<lambda>k. map_option lease_of (Get (store (sy_srv S)) k))\<rparr>"

text \<open>The addresses the book leases: the hosts of the pool but the gateway's own.\<close>

definition pool_of :: "nat \<Rightarrow> 'd System \<Rightarrow> ip set" where
  "pool_of p S = hosts (network (alloc (sy_srv S))) p - {serverIP (alloc (sy_srv S))}"

text \<open>What a call may do in somebody's name, and which action of the book an event of the server may be.\<close>

fun acts :: "call \<Rightarrow> string \<Rightarrow> action set" where
  "acts (Enroll (Inr req)) me = {Grant me (er_PublicKey req), Extend me (er_PublicKey req)}"
| "acts (Heartbeat (Inr k)) me = {Extend me k}"
| "acts (Deregister (Inr k)) me = {GiveUp me k}"
| "acts _ me = {}"

fun explains :: "verifier \<Rightarrow> event \<Rightarrow> action \<Rightarrow> bool" where
  "explains verify Tick a = (a = Elapse)"
| "explains verify Reaped a = (a = Expire)"
| "explains verify (Refreshed f) a = (a = Idle \<or> (\<exists>A l. f = Inr l \<and> a = Revoke A))"
| "explains verify (AdminCall c r) a = (a = Idle)"
| "explains verify WatchStep a = (a = Idle)"
| "explains verify (Request hdr c r) a =
     (a = Idle \<or> (\<exists>claims. verify (bearerToken hdr) = Inr claims \<and> a \<in> acts c (c_Subject claims)))"

lemma lease_of_simps [simp]:
  "l_owner (lease_of q) = p_Subject q" "l_address (lease_of q) = p_IP q"
  "l_tenant (lease_of q) = p_Tenant q" "l_until (lease_of q) = p_LeaseExpiry q"
  by (simp_all add: lease_of_def)

lemma book_of_simps [simp]:
  "bk_now (book_of S) = sy_now S" "bk_leases (book_of S) k = map_option lease_of (Get (store (sy_srv S)) k)"
  by (simp_all add: book_of_def)

lemma book_of_ok: "sys_inv p S \<Longrightarrow> book_ok (LeaseTTL (cfg (sy_srv S))) (pool_of p S) (book_of S)"
  unfolding book_ok_def sys_inv_def
  using srv_inv_peer [of p "sy_srv S"] ipool.leases_distinct [OF srv_invD(3), of p "sy_srv S"]
  by (auto simp: pool_of_def leases_bounded_def address_of_def)

text \<open>The pool stays the same.\<close>

lemma same_pool_drop: "network (alloc (drop_peer pk k ip s)) = network (alloc s)"
    "serverIP (alloc (drop_peer pk k ip s)) = serverIP (alloc s)"
  by simp_all

lemma same_pool_reap: "network (alloc (reap_loop pk ps s)) = network (alloc s)"
    "serverIP (alloc (reap_loop pk ps s)) = serverIP (alloc s)"
  by (induction ps arbitrary: s) simp_all

lemma same_pool_address:
  "address_for req claims s ip a \<Longrightarrow> network a = network (alloc s) \<and> serverIP a = serverIP (alloc s)"
  by (auto simp: address_for_def Allocate_def split: option.splits prod.splits sum.splits if_splits)

lemma same_pool_Handler:
  assumes inv: "srv_inv p s" and ks: "ranges_over ks (tenants (tstore s))"
    and h: "Handler pk verify now ks hdr c s = Ok (r, s')"
  shows "network (alloc s') = network (alloc s) \<and> serverIP (alloc s') = serverIP (alloc s)"
proof (cases rule: Handler_cases [of c pk verify now ks hdr s])
  case (verified claims)
  with h have d: "dispatch pk now ks c claims s = Ok (r, s')" by simp
  show ?thesis
  proof (cases c)
    case (Enroll b)
    with d have "handleEnroll pk now ks b claims s = Ok (r, s')" by (simp add: dispatch_def)
    with inv show ?thesis by (cases rule: handleEnroll_cases) (auto dest: same_pool_address)
  next
    case (Heartbeat b)
    with d show ?thesis
      by (cases rule: handleHeartbeat_cases [OF srv_invD(2) [OF inv] ks, of b now claims]) (auto simp: dispatch_def)
  next
    case (Deregister b)
    with d show ?thesis
      by (cases rule: handleDeregister_cases [of b pk claims s]) (auto simp: dispatch_def)
  qed (use d handleTenants_state in \<open>force simp: dispatch_def handleHealthz_def\<close>)+
qed (use h in auto)

lemma same_pool_step:
  assumes "sys_step pk verify S e S'" "sys_inv p S"
  shows "network (alloc (sy_srv S')) = network (alloc (sy_srv S)) \<and> serverIP (alloc (sy_srv S')) = serverIP (alloc (sy_srv S))"
  using assms
proof (induction rule: sys_step.induct)
  case (request ks S hdr c r s')
  then show ?case using same_pool_Handler [of p "sy_srv S" ks pk verify "sy_now S" hdr c r s'] by (simp add: sys_inv_def)
next
  case (refresh ks S fetched)
  show ?case
    by (auto simp: refresh_turn_def Reconcile_def reconcile_loop_reap same_pool_reap split: option.splits prod.splits sum.splits)
qed (simp_all add: ReapExpired_def same_pool_reap)

lemma pool_of_step: "sys_step pk verify S e S' \<Longrightarrow> sys_inv p S \<Longrightarrow> pool_of p S' = pool_of p S"
  by (drule (1) same_pool_step) (simp add: pool_of_def)

section \<open>Every step of the server is a step of the book\<close>

lemma names_key_one: "names_key c k \<Longrightarrow> names_key c k' \<Longrightarrow> k' = k"
  by (auto simp: names_key_def)

text \<open>An enrolment leaves a lease, a heartbeat leaves the one there was, a deregistration none.\<close>

lemma Handler_acts:
  assumes inv: "srv_inv p s" and ks: "ranges_over ks (tenants (tstore s))"
    and h: "Handler pk verify now ks hdr c s = Ok (r, s')" and k: "Get (store s') k \<noteq> Get (store s) k"
  shows "(if Get (store s') k = None then GiveUp me k else if Get (store s) k = None then Grant me k else Extend me k) \<in> acts c me"
proof (cases rule: Handler_cases [of c pk verify now ks hdr s])
  case (verified claims)
  with h have d: "dispatch pk now ks c claims s = Ok (r, s')" by simp
  show ?thesis
  proof (cases c)
    case (Enroll b)
    with d have "handleEnroll pk now ks b claims s = Ok (r, s')" by (simp add: dispatch_def)
    with inv show ?thesis
      by (cases rule: handleEnroll_cases) (use k Enroll in \<open>auto simp: store_simps split: if_splits\<close>)
  next
    case (Heartbeat b)
    with d k show ?thesis
      by (cases rule: handleHeartbeat_cases [OF srv_invD(2) [OF inv] ks, of b now claims])
        (auto simp: dispatch_def store_simps split: if_splits)
  next
    case (Deregister b)
    with d k show ?thesis
      by (cases rule: handleDeregister_cases [of b pk claims s]) (auto simp: dispatch_def store_simps split: if_splits)
  qed (use d k handleTenants_state in \<open>force simp: dispatch_def handleHealthz_def\<close>)+
qed (use h k in auto)

lemma book_of_eqI: "sy_now S' = sy_now S \<Longrightarrow> (\<And>k. Get (store (sy_srv S')) k = Get (store (sy_srv S)) k) \<Longrightarrow> book_of S' = book_of S"
  by (simp add: book_of_def)

lemma book_request:
  assumes inv: "sys_inv p S" and inv': "sys_inv p S'" and pool: "pool_of p S' = pool_of p S"
    and now: "sy_now S' = sy_now S" and ttl: "LeaseTTL (cfg (sy_srv S')) = ttl"
    and ks: "ranges_over ks (tenants (tstore (sy_srv S)))"
    and h: "Handler pk verify (sy_now S) ks hdr c (sy_srv S) = Ok (r, sy_srv S')"
  shows "\<exists>a. book_step ttl (pool_of p S) (book_of S) a (book_of S') \<and> explains verify (Request hdr c r) a"
proof (cases "\<exists>k. Get (store (sy_srv S')) k \<noteq> Get (store (sy_srv S)) k")
  case False
  then have "book_of S' = book_of S" by (intro book_of_eqI now) simp
  then show ?thesis by (intro exI [of _ Idle]) (simp add: book_step.idle)
next
  case True
  have i: "srv_inv p (sy_srv S)" using inv by (simp add: sys_inv_def)
  obtain k where k: "Get (store (sy_srv S')) k \<noteq> Get (store (sy_srv S)) k" using True by blast
  have named: "names_key c k" using Handler_key [OF i ks h] k by blast
  have other: "Get (store (sy_srv S')) k' = Get (store (sy_srv S)) k'" if "k' \<noteq> k" for k'
    using Handler_key [OF i ks h] names_key_one [OF named] that by blast
  obtain claims where v: "verify (bearerToken hdr) = Inr claims"
    and own: "own_change (sy_now S) (sy_srv S) claims k (Get (store (sy_srv S')) k)"
    by (rule Handler_change [OF i ks h k])
  have book: "book_of S' = (book_of S)\<lparr>bk_leases := (bk_leases (book_of S))(k := map_option lease_of (Get (store (sy_srv S')) k))\<rparr>"
    using other now by (auto simp: book_of_def)
  let ?a = "if Get (store (sy_srv S')) k = None then GiveUp (c_Subject claims) k
    else if Get (store (sy_srv S)) k = None then Grant (c_Subject claims) k else Extend (c_Subject claims) k"
  have "book_step ttl (pool_of p S) (book_of S) (if map_option lease_of (Get (store (sy_srv S')) k) = None then GiveUp (c_Subject claims) k
    else if bk_leases (book_of S) k = None then Grant (c_Subject claims) k else Extend (c_Subject claims) k) (book_of S')"
  proof (rule book_change [OF book_of_ok [OF inv', unfolded ttl pool] book])
    show "map_option lease_of (Get (store (sy_srv S')) k) \<noteq> None \<or> bk_leases (book_of S) k \<noteq> None"
      using k by (cases "Get (store (sy_srv S')) k"; cases "Get (store (sy_srv S)) k") simp_all
  qed (use own in \<open>auto simp: own_change_def granted_def\<close>)
  then have "book_step ttl (pool_of p S) (book_of S) ?a (book_of S')"
    by (simp only: book_of_simps option.map_disc_iff)
  moreover have "explains verify (Request hdr c r) ?a"
    unfolding explains.simps using v Handler_acts [OF i ks h k] by blast
  ultimately show ?thesis by blast
qed

lemma book_refresh:
  assumes inv: "srv_inv p (sy_srv S)" and ks: "ranges_over ks (peers (store (sy_srv S)))"
  shows "\<exists>a. book_step ttl pool (book_of S) a (book_of (S\<lparr>sy_srv := refresh_turn pk now ks f (sy_srv S)\<rparr>)) \<and>
    explains verify (Refreshed f) a"
proof (cases "registry (sy_srv S)")
  case None
  then show ?thesis by (intro exI [of _ Idle]) (simp add: refresh_turn_def book_step.idle)
next
  case (Some r)
  show ?thesis
  proof (cases f)
    case (Inl e)
    with Some have "book_of (S\<lparr>sy_srv := refresh_turn pk now ks f (sy_srv S)\<rparr>) = book_of S"
      by (intro book_of_eqI) (simp_all add: refresh_turn_def Refresh_def)
    then show ?thesis by (intro exI [of _ Idle]) (simp add: book_step.idle Inl)
  next
    case (Inr l)
    define r' where "r' = snd (Refresh (Inr l) r)"
    have eq: "refresh_turn pk now ks f (sy_srv S) = Reconcile pk ks (Allowed now r') ((sy_srv S)\<lparr>registry := Some r'\<rparr>)"
      by (simp add: refresh_turn_def Some Inr Refresh_def r'_def)
    have inv': "srv_inv p ((sy_srv S)\<lparr>registry := Some r'\<rparr>)" using inv by (simp add: srv_inv_registry)
    have "book_of (S\<lparr>sy_srv := refresh_turn pk now ks f (sy_srv S)\<rparr>) =
        (book_of S)\<lparr>bk_leases := (\<lambda>k. case bk_leases (book_of S) k of None \<Rightarrow> None
          | Some l \<Rightarrow> if Allowed now r' k (l_owner l) then Some l else None)\<rparr>"
      using Reconcile_Get [OF inv', of ks pk "Allowed now r'"] ks
      by (auto simp: book_of_def eq fun_eq_iff split: option.splits)
    then have "book_step ttl pool (book_of S) (Revoke (Allowed now r')) (book_of (S\<lparr>sy_srv := refresh_turn pk now ks f (sy_srv S)\<rparr>))"
      by (simp only: book_step.revoke)
    moreover have "explains verify (Refreshed f) (Revoke (Allowed now r'))" by (simp add: Inr)
    ultimately show ?thesis by blast
  qed
qed

lemma book_step_refines:
  assumes "sys_step pk verify S e S'" "sys_inv p S" "calm e" "LeaseTTL (cfg (sy_srv S)) = ttl"
  shows "\<exists>a. book_step ttl (pool_of p S) (book_of S) a (book_of S') \<and> explains verify e a"
proof -
  have inv': "sys_inv p S'" by (rule sys_inv_step [OF assms(1-3)])
  have pool: "pool_of p S' = pool_of p S" by (rule pool_of_step [OF assms(1,2)])
  have cfg: "LeaseTTL (cfg (sy_srv S')) = ttl" using sys_step_fixed(1) [OF assms(1,2)] assms(4) by simp
  show ?thesis
    using assms(1,2) inv' pool cfg
  proof (cases rule: sys_step.cases)
    case (tick t)
    have "book_of (S\<lparr>sy_now := t\<rparr>) = (book_of S)\<lparr>bk_now := t\<rparr>" by (simp add: book_of_def)
    with tick show ?thesis by (intro exI [of _ Elapse]) (simp add: book_step.elapse)
  next
    case (request ks hdr c r s')
    with assms(2) inv' pool cfg show ?thesis
      using book_request [of p S S' ttl ks pk verify hdr c r] by simp
  next
    case (reap ks)
    have "srv_inv p (sy_srv S)" using assms(2) by (simp add: sys_inv_def)
    from ReapExpired_Get [OF this reap(3), of pk "sy_now S"]
    have "book_of S' = (book_of S)\<lparr>bk_leases := (\<lambda>k. case bk_leases (book_of S) k of None \<Rightarrow> None
          | Some l \<Rightarrow> if l_until l \<le> bk_now (book_of S) then None else Some l)\<rparr>"
      by (auto simp: book_of_def reap(2) fun_eq_iff split: option.splits)
    then have "book_step ttl (pool_of p S) (book_of S) Expire (book_of S')" by (simp only: book_step.expire)
    with reap(1) show ?thesis by (intro exI [of _ Expire]) simp
  next
    case (refresh ks fetched)
    with assms(2) show ?thesis
      using book_refresh [of p S ks ttl "pool_of p S" pk "sy_now S" fetched verify] by (simp add: sys_inv_def)
  qed (auto intro!: exI [of _ Idle] book_step.idle simp: book_of_def)
qed

text \<open>The server's runs, and their simulation.\<close>

lemma sys_run_trace: "sys_run pk verify S es S' \<longleftrightarrow> trace (sys_step pk verify) S es S'"
proof
  show "sys_run pk verify S es S' \<Longrightarrow> trace (sys_step pk verify) S es S'"
    by (induction rule: sys_run.induct) (auto intro: trace.intros)
  show "trace (sys_step pk verify) S es S' \<Longrightarrow> sys_run pk verify S es S'"
    by (induction rule: trace.induct) (auto intro: sys_run.intros)
qed

definition serving :: "nat \<Rightarrow> duration \<Rightarrow> IPNet \<Rightarrow> 'd System \<Rightarrow> bool" where
  "serving p ttl n S \<longleftrightarrow> sys_inv p S \<and> LeaseTTL (cfg (sy_srv S)) = ttl \<and> network (alloc (sy_srv S)) = n"

definition leased :: "IPNet \<Rightarrow> nat \<Rightarrow> ip set" where
  "leased n p = hosts n p - {firstHost n}"

lemma serving_pool: "serving p ttl n S \<Longrightarrow> pool_of p S = leased n p"
  using srv_invD(3) [of p "sy_srv S"]
  by (auto simp: serving_def sys_inv_def pool_of_def leased_def ipool.leases_def pool_inv_def)

lemma serving_book: "serving p ttl n S \<Longrightarrow> book_ok ttl (leased n p) (book_of S)"
  using book_of_ok [of p S] by (simp add: serving_pool [symmetric]) (simp add: serving_def)

lemma serving_step:
  assumes "serving p ttl n S" "calm e" "sys_step pk verify S e S'"
  shows "serving p ttl n S'"
  using assms sys_inv_step [OF assms(3), of p] sys_step_fixed(1) [OF assms(3), of p] same_pool_step [OF assms(3), of p]
  by (simp add: serving_def)

interpretation server: simulates "sys_step pk verify" "book_step ttl (leased n p)" "serving p ttl n" calm book_of "explains verify"
  for pk verify ttl n p
proof
  show "serving p ttl n S'" if "serving p ttl n S" "calm e" "sys_step pk verify S e S'" for S S' :: "'d System" and e
    using that by (rule serving_step)
  show "\<exists>a. book_step ttl (leased n p) (book_of S) a (book_of S') \<and> explains verify e a"
    if "serving p ttl n S" "calm e" "sys_step pk verify S e S'" for S S' :: "'d System" and e
    using book_step_refines [OF that(3), of p] that(1,2) unfolding serving_pool [OF that(1), symmetric] by (auto simp: serving_def)
qed

end
