(* ===== verification/Separate_Book.thy ===== *)
theory Separate_Book
  imports Separate_Keys Lease_Book
begin

text \<open>
  Goroutines that overlap only on different keys implement the book of leases, operation by
  operation: what an enrolment stores, a heartbeat renews, a deregistration or a loop deletes is one
  step of the book each, and every other operation is none.
\<close>

section \<open>Who a goroutine acts for\<close>

definition proven :: "verifier \<Rightarrow> string \<Rightarrow> bool" where
  "proven verify me \<longleftrightarrow> (\<exists>tok claims. tok \<noteq> [] \<and> verify tok = Inr claims \<and> c_Subject claims = me)"

definition subject_of :: "'d Server \<Rightarrow> string \<Rightarrow> string option" where
  "subject_of s k = map_option p_Subject (Get (store s) k)"

text \<open>
  A goroutine's claims come from an accepted token; it stores only where its own device is or none,
  and a deregistration deletes a device of an identity that was proved.
\<close>

fun believes :: "verifier \<Rightarrow> 'd Server \<Rightarrow> task \<Rightarrow> bool" where
  "believes verify s (Enroll_registered _ claims _) = proven verify (c_Subject claims)"
| "believes verify s (Enroll_tenant _ claims _ _) = proven verify (c_Subject claims)"
| "believes verify s (Enroll_lookup _ claims _ _ _) = proven verify (c_Subject claims)"
| "believes verify s (Enroll_allocate _ claims _ _ _) = proven verify (c_Subject claims)"
| "believes verify s (Enroll_add req claims _ _ _ _) =
     (proven verify (c_Subject claims) \<and> subject_of s (er_PublicKey req) \<in> {None, Some (c_Subject claims)})"
| "believes verify s (Enroll_put req claims _ _ _) =
     (proven verify (c_Subject claims) \<and> subject_of s (er_PublicKey req) \<in> {None, Some (c_Subject claims)})"
| "believes verify s (Deregister_lookup _ claims) = proven verify (c_Subject claims)"
| "believes verify s (Drop_remove key _ (Answer _)) = (\<exists>me. proven verify me \<and> subject_of s key = Some me)"
| "believes verify s (Drop_delete key _ (Answer _)) = (\<exists>me. proven verify me \<and> subject_of s key = Some me)"
| "believes verify s _ = True"

lemma believes_drop:
  "believes verify s (Drop_remove key ip c) \<longleftrightarrow> (\<forall>r. c = Answer r \<longrightarrow> (\<exists>me. proven verify me \<and> subject_of s key = Some me))"
  "believes verify s (Drop_delete key ip c) \<longleftrightarrow> (\<forall>r. c = Answer r \<longrightarrow> (\<exists>me. proven verify me \<and> subject_of s key = Some me))"
  by (cases c; simp)+

lemma believes_cong:
  assumes "\<And>k. k \<in> keys_of t \<Longrightarrow> subject_of s' k = subject_of s k"
  shows "believes verify s' t = believes verify s t"
  using assms by (cases "(verify, s, t)" rule: believes.cases) auto

lemma subject_frame [simp]:
  "subject_of (s\<lparr>alloc := a\<rparr>) = subject_of s" "subject_of (s\<lparr>dev := d\<rparr>) = subject_of s" "subject_of (EnrollInc tid s) = subject_of s"
  by (simp_all add: subject_of_def EnrollInc_def fun_eq_iff)

lemma subject_store:
  "subject_of (s\<lparr>store := snd (Renew (store s) k e)\<rparr>) = subject_of s"
  "subject_of (s\<lparr>store := snd (Delete (store s) k)\<rparr>) = (subject_of s)(k := None)"
  "subject_of (s\<lparr>store := Put (store s) q\<rparr>) = (subject_of s)(p_PublicKey q \<mapsto> p_Subject q)"
  by (auto simp: subject_of_def store_simps fun_eq_iff option.map_comp o_def split: option.splits)

lemma subject_None: "address_of s k = None \<Longrightarrow> subject_of s k = None"
  by (simp add: subject_of_def address_of_def)

lemma subject_Get: "Get (store s) k = x \<Longrightarrow> subject_of s k = map_option p_Subject x"
  by (simp add: subject_of_def)

lemma task_step_subject:
  "task_step pk now ks pks t s = Ok (t', s') \<Longrightarrow> k \<notin> keys_of t \<Longrightarrow> subject_of s' k = subject_of s k"
  by (cases "(pk, now, ks, pks, t, s)" rule: task_step.cases)
    (auto simp: obind_Ok_iff Enroll_tenant_step subject_store simp del: task_step.simps(2)
      split: option.splits prod.splits sum.splits if_splits)

lemma task_step_believes:
  assumes "task_step pk now ks pks t s = Ok (t', s')" "believes verify s t" "fits s t"
  shows "believes verify s' t'"
  using assms
  by (cases "(pk, now, ks, pks, t, s)" rule: task_step.cases)
    (auto simp: obind_Ok_iff Enroll_tenant_step subject_None subject_Get believes_drop simp del: task_step.simps(2)
      split: option.splits prod.splits sum.splits if_splits cont.splits)

section \<open>Which goroutine moved\<close>

definition mover :: "'d Conc \<Rightarrow> 'd Conc \<Rightarrow> task option" where
  "mover C C' =
     map_option (\<lambda>i. cc_tasks C ! i) (List.find (\<lambda>i. cc_tasks C ! i \<noteq> cc_tasks C' ! i) [0..<length (cc_tasks C)])"

definition apart_step :: "parse_key \<Rightarrow> verifier \<Rightarrow> 'd Conc \<Rightarrow> task option \<Rightarrow> 'd Conc \<Rightarrow> bool" where
  "apart_step pk verify C e C' \<longleftrightarrow> conc_step pk verify C C' \<and> separate C' \<and> e = mover C C'"

lemma mover_progress:
  assumes "i < length (cc_tasks C)" "t' \<noteq> cc_tasks C ! i"
  shows "mover C (C\<lparr>cc_tasks := (cc_tasks C)[i := t'], cc_srv := s'\<rparr>) = Some (cc_tasks C ! i)"
proof -
  have "List.find (\<lambda>j. cc_tasks C ! j \<noteq> (cc_tasks C)[i := t'] ! j) [0..<length (cc_tasks C)] = Some i"
    unfolding find_Some_iff using assms by (intro exI [of _ i]) auto
  then show ?thesis by (simp add: mover_def)
qed

lemma mover_none: "\<forall>i < length (cc_tasks C). cc_tasks C' ! i = cc_tasks C ! i \<Longrightarrow> mover C C' = None"
  by (auto simp: mover_def find_None_iff)

lemma apart_run_trace:
  "separate C \<Longrightarrow> apart_run pk verify C C' \<longleftrightarrow> (\<exists>es. trace (apart_step pk verify) C es C')"
proof
  assume "apart_run pk verify C C'"
  then show "\<exists>es. trace (apart_step pk verify) C es C'"
  proof (induction rule: apart_run.induct)
    case (step C1 C2)
    then show ?case by (metis trace.step apart_step_def)
  qed (auto intro: trace.start)
next
  assume "separate C" "\<exists>es. trace (apart_step pk verify) C es C'"
  then obtain es where "trace (apart_step pk verify) C es C'" by blast
  then show "apart_run pk verify C C'" using \<open>separate C\<close>
    by (induction rule: trace.induct) (auto intro: apart_run.intros simp: apart_step_def)
qed

section \<open>The store as a book\<close>

definition conc_book :: "'d Conc \<Rightarrow> book" where
  "conc_book C = book_of \<lparr>sy_srv = cc_srv C, sy_now = cc_now C\<rparr>"

lemma conc_book_simps [simp]:
  "bk_now (conc_book C) = cc_now C" "bk_leases (conc_book C) k = map_option lease_of (Get (store (cc_srv C)) k)"
  by (simp_all add: conc_book_def)

lemma conc_book_eq: "store (cc_srv C') = store (cc_srv C) \<Longrightarrow> cc_now C' = cc_now C \<Longrightarrow> conc_book C' = conc_book C"
  by (simp add: conc_book_def book_of_def)

text \<open>The invariant: the ledger, the bounds, and what the goroutines believe.\<close>

definition apart_inv :: "verifier \<Rightarrow> nat \<Rightarrow> duration \<Rightarrow> IPNet \<Rightarrow> 'd Conc \<Rightarrow> bool" where
  "apart_inv verify p ttl n C \<longleftrightarrow>
     in_step p C \<and> separate C \<and> conc_ok p C \<and> (\<forall>t \<in> set (cc_tasks C). believes verify (cc_srv C) t) \<and>
     LeaseTTL (cfg (cc_srv C)) = ttl \<and> network (alloc (cc_srv C)) = n"

lemma apart_inv_book: "apart_inv verify p ttl n C \<Longrightarrow> book_ok ttl (leased n p) (conc_book C)"
  unfolding book_ok_def apart_inv_def conc_ok_def srv_ok_def
  using in_step_addresses(1) [of p C] by (auto simp: leasable_def leased_def pool_inv_def address_of_def)

lemma conc_step_fixed:
  "conc_step pk verify C C' \<Longrightarrow> cfg (cc_srv C') = cfg (cc_srv C) \<and> network (alloc (cc_srv C')) = network (alloc (cc_srv C))"
proof (induction rule: conc_step.induct)
  case (progress i C ks pks t' s')
  then show ?case using task_step_frame [OF progress(4)] by (simp add: same_frame_def)
qed auto

lemma believes_spawn: "proven verify (c_Subject claims) \<Longrightarrow> believes verify s (spawn pk c claims)"
  by (auto simp: spawn_def split: call.splits sum.splits)

lemma believes_step:
  assumes "conc_step pk verify C C'" "separate C" "\<forall>t \<in> set (cc_tasks C). fits (cc_srv C) t"
    "\<forall>t \<in> set (cc_tasks C). believes verify (cc_srv C) t"
  shows "\<forall>t \<in> set (cc_tasks C'). believes verify (cc_srv C') t"
  using assms
proof (induction rule: conc_step.induct)
  case (arrive hdr claims C c)
  then have "proven verify (c_Subject claims)" unfolding proven_def by blast
  with arrive show ?case by (auto simp: believes_spawn)
next
  case (progress i C ks pks t' s')
  show ?case
  proof
    fix u assume "u \<in> set (cc_tasks (C\<lparr>cc_tasks := (cc_tasks C)[i := t'], cc_srv := s'\<rparr>))"
    then have "u \<in> set ((cc_tasks C)[i := t'])" by simp
    from update_nth [OF this] obtain m where m: "m < length (cc_tasks C)" "u = (cc_tasks C)[i := t'] ! m" by blast
    show "believes verify (cc_srv (C\<lparr>cc_tasks := (cc_tasks C)[i := t'], cc_srv := s'\<rparr>)) u"
    proof (cases "m = i")
      case True
      have "believes verify s' t'" using progress(1,6,7) by (intro task_step_believes [OF progress(4)]) simp_all
      with m True show ?thesis by simp
    next
      case False
      have "subject_of s' k = subject_of (cc_srv C) k" if "k \<in> keys_of (cc_tasks C ! m)" for k
        using that task_step_subject [OF progress(4)] separate_only(1) [OF progress(5,1) m(1) False] by blast
      then have "believes verify s' (cc_tasks C ! m) = believes verify (cc_srv C) (cc_tasks C ! m)" by (rule believes_cong)
      moreover have "believes verify (cc_srv C) (cc_tasks C ! m)" using progress(7) m(1) by simp
      ultimately show ?thesis using m False by simp
    qed
  qed
next
  case (fetch C r fetched)
  have "subject_of ((cc_srv C)\<lparr>registry := x\<rparr>) = subject_of (cc_srv C)" for x by (simp add: subject_of_def fun_eq_iff)
  then show ?case using fetch believes_cong [of _ "(cc_srv C)\<lparr>registry := _\<rparr>" "cc_srv C" verify] by simp
next
  case (tenants C ts')
  have "subject_of ((cc_srv C)\<lparr>tstore := x\<rparr>) = subject_of (cc_srv C)" for x by (simp add: subject_of_def fun_eq_iff)
  then show ?case using tenants believes_cong [of _ "(cc_srv C)\<lparr>tstore := _\<rparr>" "cc_srv C" verify] by simp
qed auto

lemma apart_inv_step:
  assumes "apart_inv verify p ttl n C" "apart_step pk verify C e C'"
  shows "apart_inv verify p ttl n C'"
  using assms in_step_step [of pk verify C C' p] conc_ok_step [of pk verify C C' p] conc_step_fixed [of pk verify C C']
    believes_step [of pk verify C C']
  by (auto simp: apart_inv_def apart_step_def in_step_def)

section \<open>Every operation is a step of the book\<close>

fun writes :: "task \<Rightarrow> bool" where
  "writes (Enroll_put _ _ _ _ _) = True"
| "writes (Heartbeat_renew _ _) = True"
| "writes (Drop_delete _ _ _) = True"
| "writes _ = False"

lemma task_step_store: "task_step pk now ks pks t s = Ok (t', s') \<Longrightarrow> \<not> writes t \<Longrightarrow> store s' = store s"
  by (cases "(pk, now, ks, pks, t, s)" rule: task_step.cases)
    (auto simp: obind_Ok_iff Enroll_tenant_step EnrollInc_def simp del: task_step.simps(2)
      split: option.splits prod.splits sum.splits if_splits)

fun move_explains :: "verifier \<Rightarrow> task option \<Rightarrow> action \<Rightarrow> bool" where
  "move_explains verify (Some (Enroll_put req claims expiry tid ip)) a =
     (proven verify (c_Subject claims) \<and> a \<in> {Grant (c_Subject claims) (er_PublicKey req), Extend (c_Subject claims) (er_PublicKey req)})"
| "move_explains verify (Some (Heartbeat_renew key expiry)) a = (a = Idle \<or> (\<exists>me. a = Extend me key))"
| "move_explains verify (Some (Drop_delete key ip (Answer r))) a = (\<exists>me. proven verify me \<and> a = GiveUp me key)"
| "move_explains verify (Some (Drop_delete key ip c)) a = (a = Revoke (\<lambda>k me. k \<noteq> key))"
| "move_explains verify None a = (a = Idle \<or> a = Elapse)"
| "move_explains verify _ a = (a = Idle)"

lemma explains_idle: "\<not> writes t \<Longrightarrow> move_explains verify (Some t) Idle"
  by (cases t) simp_all

text \<open>One entry of the store changed.\<close>

lemma conc_book_upd:
  "Get (store (cc_srv C')) = (Get (store (cc_srv C)))(k := x) \<Longrightarrow> cc_now C' = cc_now C \<Longrightarrow>
     conc_book C' = (conc_book C)\<lparr>bk_leases := (bk_leases (conc_book C))(k := map_option lease_of x)\<rparr>"
  by (auto simp: conc_book_def book_of_def fun_eq_iff)

lemma put_simulated:
  assumes ok: "book_ok ttl pool (conc_book C')" and now: "cc_now C' = cc_now C"
    and st: "store (cc_srv C') = Put (store (cc_srv C)) q"
    and own: "subject_of (cc_srv C) (p_PublicKey q) \<in> {None, Some (p_Subject q)}"
    and keep: "\<And>ip. address_of (cc_srv C) (p_PublicKey q) = Some ip \<Longrightarrow> p_IP q = ip"
  shows "\<exists>a \<in> {Grant (p_Subject q) (p_PublicKey q), Extend (p_Subject q) (p_PublicKey q)}. book_step ttl pool (conc_book C) a (conc_book C')"
proof -
  let ?k = "p_PublicKey q" and ?me = "p_Subject q"
  have "Get (store (cc_srv C')) = (Get (store (cc_srv C)))(?k := Some q)" using st by (auto simp: fun_eq_iff store_simps)
  then have "book_step ttl pool (conc_book C) (if map_option lease_of (Some q) = None then GiveUp ?me ?k
      else if bk_leases (conc_book C) ?k = None then Grant ?me ?k else Extend ?me ?k) (conc_book C')"
    by (rule book_change [OF ok conc_book_upd [OF _ now]]) (use own keep in \<open>auto simp: subject_of_def address_of_def\<close>)
  then show ?thesis by (auto split: if_splits)
qed

lemma renew_simulated:
  assumes ok: "book_ok ttl pool (conc_book C')" and now: "cc_now C' = cc_now C"
    and st: "store (cc_srv C') = snd (Renew (store (cc_srv C)) k e)"
  shows "\<exists>a. book_step ttl pool (conc_book C) a (conc_book C') \<and> (a = Idle \<or> (\<exists>me. a = Extend me k))"
proof (cases "Get (store (cc_srv C)) k")
  case None
  then have "conc_book C' = conc_book C" using st now by (auto simp: conc_book_def book_of_def fun_eq_iff store_simps)
  then show ?thesis using book_step.idle by metis
next
  case (Some q)
  have "Get (store (cc_srv C')) = (Get (store (cc_srv C)))(k := Some (q\<lparr>p_LeaseExpiry := e\<rparr>))"
    using st Some by (auto simp: fun_eq_iff store_simps)
  then have "book_step ttl pool (conc_book C) (if map_option lease_of (Some (q\<lparr>p_LeaseExpiry := e\<rparr>)) = None then GiveUp (p_Subject q) k
      else if bk_leases (conc_book C) k = None then Grant (p_Subject q) k else Extend (p_Subject q) k) (conc_book C')"
    by (rule book_change [OF ok conc_book_upd [OF _ now]]) (use Some in auto)
  with Some show ?thesis by auto
qed

lemma delete_simulated:
  assumes now: "cc_now C' = cc_now C" and st: "store (cc_srv C') = snd (Delete (store (cc_srv C)) k)"
  shows "subject_of (cc_srv C) k = Some me \<Longrightarrow> book_step ttl pool (conc_book C) (GiveUp me k) (conc_book C')"
    and "book_step ttl pool (conc_book C) (Revoke (\<lambda>k' me. k' \<noteq> k)) (conc_book C')"
proof -
  have d: "Get (store (cc_srv C')) = (Get (store (cc_srv C)))(k := None)" using st by (auto simp: fun_eq_iff store_simps)
  note b = conc_book_upd [OF d now]
  show "book_step ttl pool (conc_book C) (GiveUp me k) (conc_book C')" if "subject_of (cc_srv C) k = Some me"
  proof -
    from that obtain q where "Get (store (cc_srv C)) k = Some q" "p_Subject q = me" by (auto simp: subject_of_def)
    then show ?thesis using book_step.give_up [of "conc_book C" k "lease_of q"] b by simp
  qed
  have "conc_book C' = (conc_book C)\<lparr>bk_leases := (\<lambda>k'. case bk_leases (conc_book C) k' of None \<Rightarrow> None
      | Some l \<Rightarrow> if k' \<noteq> k then Some l else None)\<rparr>"
    using b by (auto simp: fun_eq_iff split: option.splits)
  then show "book_step ttl pool (conc_book C) (Revoke (\<lambda>k' me. k' \<noteq> k)) (conc_book C')"
    using book_step.revoke [of ttl pool "conc_book C" "\<lambda>k' me. k' \<noteq> k"] by simp
qed

lemma progress_simulated:
  assumes inv: "apart_inv verify p ttl n C" and inv': "apart_inv verify p ttl n C'" and i: "i < length (cc_tasks C)"
    and st: "task_step pk (cc_now C) ks pks (cc_tasks C ! i) (cc_srv C) = Ok (t', s')"
    and C': "C' = C\<lparr>cc_tasks := (cc_tasks C)[i := t'], cc_srv := s'\<rparr>"
  shows "\<exists>a. book_step ttl (leased n p) (conc_book C) a (conc_book C') \<and> move_explains verify (Some (cc_tasks C ! i)) a"
proof -
  note ok = apart_inv_book [OF inv']
  have now: "cc_now C' = cc_now C" using C' by simp
  have mem: "cc_tasks C ! i \<in> set (cc_tasks C)" using i by simp
  have bel: "believes verify (cc_srv C) (cc_tasks C ! i)" and fit: "fits (cc_srv C) (cc_tasks C ! i)"
    using inv mem by (auto simp: apart_inv_def in_step_def)
  have idle: ?thesis if "\<not> writes (cc_tasks C ! i)"
  proof -
    have "conc_book C' = conc_book C" using task_step_store [OF st that] by (intro conc_book_eq) (simp_all add: C')
    then show ?thesis using explains_idle [OF that] book_step.idle by metis
  qed
  show ?thesis
  proof (cases "cc_tasks C ! i")
    case (Enroll_put req claims expiry tid ip)
    let ?q = "new_peer (cc_now C) req claims expiry tid ip"
    obtain L where L: "ledger p (cc_srv C) (cc_tasks C) L" using inv by (auto simp: apart_inv_def in_step_def)
    have "holds (cc_tasks C ! i) (er_PublicKey req) = Some ip" using Enroll_put by simp
    then have l: "L (er_PublicKey req) = Some ip" using L mem unfolding ledger_def by blast
    have keep: "p_IP ?q = j" if "address_of (cc_srv C) (p_PublicKey ?q) = Some j" for j
      using that L l by (auto simp: ledger_def new_peer_def)
    have "store (cc_srv C') = Put (store (cc_srv C)) ?q" using st Enroll_put by (auto simp: C' new_peer_def)
    from put_simulated [OF ok now this _ keep] bel Enroll_put show ?thesis by (auto simp: new_peer_def)
  next
    case (Heartbeat_renew key expiry)
    then have "store (cc_srv C') = snd (Renew (store (cc_srv C)) key expiry)" using st by (auto simp: C')
    from renew_simulated [OF ok now this] Heartbeat_renew show ?thesis by simp
  next
    case (Drop_delete key ip c)
    then have d: "store (cc_srv C') = snd (Delete (store (cc_srv C)) key)" using st by (auto simp: C')
    show ?thesis
    proof (cases c)
      case (Answer r)
      with bel Drop_delete obtain me where "proven verify me" "subject_of (cc_srv C) key = Some me" by auto
      with delete_simulated(1) [OF now d] Answer Drop_delete show ?thesis by auto
    qed (use delete_simulated(2) [OF now d] Drop_delete in auto)
  qed (rule idle, simp)+
qed

lemma apart_simulated:
  assumes inv: "apart_inv verify p ttl n C" and st: "apart_step pk verify C e C'"
  shows "\<exists>a. book_step ttl (leased n p) (conc_book C) a (conc_book C') \<and> move_explains verify e a"
proof -
  have inv': "apart_inv verify p ttl n C'" by (rule apart_inv_step [OF inv st])
  have step: "conc_step pk verify C C'" and e: "e = mover C C'" using st by (simp_all add: apart_step_def)
  have still: ?thesis if "store (cc_srv C') = store (cc_srv C)" "cc_now C' = cc_now C" "\<forall>i < length (cc_tasks C). cc_tasks C' ! i = cc_tasks C ! i"
    using conc_book_eq [OF that(1,2)] mover_none [OF that(3)] e book_step.idle by (metis move_explains.simps(6))
  from step show ?thesis
  proof (cases rule: conc_step.cases)
    case (progress i ks pks t' s')
    show ?thesis
    proof (cases "finished (cc_tasks C ! i)")
      case True
      then obtain r where "cc_tasks C ! i = Done r" by (cases "cc_tasks C ! i") simp_all
      with progress have "t' = cc_tasks C ! i" "s' = cc_srv C" by simp_all
      with progress(1) show ?thesis by (intro still) simp_all
    next
      case False
      then have "t' \<noteq> cc_tasks C ! i" using task_step_rank [OF progress(5)] by auto
      then have "e = Some (cc_tasks C ! i)" using e progress(1,2) by (simp add: mover_progress)
      with progress_simulated [OF inv inv' progress(2,5,1)] show ?thesis by simp
    qed
  next
    case (elapse m)
    have "conc_book C' = (conc_book C)\<lparr>bk_now := m\<rparr>" using elapse(1) by (simp add: conc_book_def book_of_def)
    moreover have "e = None" using e elapse(1) by (simp add: mover_none)
    ultimately show ?thesis using book_step.elapse [of "conc_book C" m] elapse(2) by (intro exI [of _ Elapse]) simp
  qed (rule still; simp add: nth_append)+
qed

interpretation apart: simulates "apart_step pk verify" "book_step ttl (leased n p)" "apart_inv verify p ttl n" "\<lambda>_. True"
    conc_book "move_explains verify"
  for pk verify ttl n p
  by unfold_locales (blast intro: apart_inv_step apart_simulated)+

text \<open>Where such a run begins.\<close>

lemma apart_inv_start:
  assumes "srv_inv p s" "leases_bounded now s"
  shows "apart_inv verify p (LeaseTTL (cfg s)) (network (alloc s)) \<lparr>cc_srv = s, cc_now = now, cc_tasks = []\<rparr>"
proof -
  have "srv_ok p now s"
    using srv_inv_peer [OF assms(1)] srv_invD [OF assms(1)] assms(2)
    by (auto simp: srv_ok_def leasable_def leases_bounded_def ipool.leases_def)
  then show ?thesis using in_step_start [OF assms(1), of now] by (simp add: apart_inv_def separate_def conc_ok_def)
qed

end
