(* ===== verification/Concurrency_Claims.thy ===== *)
theory Concurrency_Claims
  imports Overlaps Separate_Device Separate_Book Sample
begin

text \<open>
  The properties of handlers that overlap: a goroutine left alone is its handler; whatever the
  interleaving, the server stays sound and no goroutine gets stuck; while goroutines work on
  different keys, addresses are exclusive; and what can happen on one key.
\<close>

section \<open>One goroutine\<close>

lemma alone_unregistered: "registry s = None \<Longrightarrow> alone pk now ks pks (Loop (Reconciling ps)) s = Ok (None, s)"
  by (induction ps) (simp_all add: alone_step [of "Loop c" for c])

text \<open>
  The two models of the handlers agree. A goroutine that is not disturbed does exactly what its handler does, whatever the request:
  the operations it takes one by one, each under its own lock, add up to the handler, the reap or
  the reconciliation, with its answer and its effect on the store, the pool, the device and the
  metrics.
\<close>

theorem goroutine_is_handler:
  "alone pk now ks pks (spawn pk c claims) s = obind (dispatch pk now ks c claims s) (\<lambda>(r, s'). Ok (Some r, s')) \<and>
   alone pk now ks pks Reap_list s = Ok (None, ReapExpired pk now pks s) \<and>
   alone pk now ks pks Reconcile_list s =
     Ok (None, case registry s of None \<Rightarrow> s | Some r \<Rightarrow> Reconcile pk pks (Allowed now r) s)"
  by (simp add: alone_dispatch alone_reap alone_unregistered alone_Reconciling Reconcile_def
      alone_step [of Reconcile_list] split: option.split)

section \<open>Every interleaving\<close>

text \<open>
  C7: However the operations of requests, reaps and reconciliations interleave, with lists of keys
  and changes of the tenants arriving between them: every stored device is under its own key, has
  a host of the pool other than the gateway's address, and its lease ends within the configured
  time; the gateway's address is never freed; and every goroutine can take its next operation,
  which neither panics nor blocks and brings it nearer to its end.
\<close>

theorem interleaving_safe:
  assumes "conc_run pk verify C C'" "conc_ok p C" "ranges_over ks (tenants (tstore (cc_srv C')))" "i < length (cc_tasks C')"
  shows "(\<forall>k q. Get (store (cc_srv C')) k = Some q \<longrightarrow> p_PublicKey q = k \<and>
      p_IP q \<in> hosts (network (alloc (cc_srv C'))) p \<and> p_IP q \<noteq> ServerIP (alloc (cc_srv C')) \<and>
      p_LeaseExpiry q \<le> cc_now C' + LeaseTTL (cfg (cc_srv C'))) \<and>
    ServerIP (alloc (cc_srv C')) \<in> taken (alloc (cc_srv C')) \<and>
    (\<exists>t' s'. task_step pk (cc_now C') ks pks (cc_tasks C' ! i) (cc_srv C') = Ok (t', s') \<and>
      (finished (cc_tasks C' ! i) \<or> (t', cc_tasks C' ! i) \<in> measures [lists, rank]))"
proof -
  have ok: "srv_ok p (cc_now C') (cc_srv C')" using conc_ok_run [OF assms(1,2)] by (simp add: conc_ok_def)
  obtain t' s' where st: "task_step pk (cc_now C') ks pks (cc_tasks C' ! i) (cc_srv C') = Ok (t', s')"
    using task_step_total [OF ok assms(3)] by blast
  then have "finished (cc_tasks C' ! i) \<or> (t', cc_tasks C' ! i) \<in> measures [lists, rank]"
    using task_step_rank by blast
  with st ok ipool.reserved_busy [of p "alloc (cc_srv C')"] show ?thesis
    unfolding srv_ok_def keyed_def leasable_def ServerIP_def by blast
qed

text \<open>Bob enrols his phone while Alice's laptop is enrolled.\<close>

definition sample_conc :: "mem_dev Conc" where
  "sample_conc = \<lparr>cc_srv = sample_peer_srv, cc_now = hour, cc_tasks = []\<rparr>"

definition sample_busy :: "mem_dev Conc" where
  "sample_busy = sample_conc\<lparr>cc_tasks := [spawn plain_key (Enroll (Inr (sample_req ''phone''))) bob]\<rparr>"

lemma sample_arrives: "conc_step plain_key sample_verify sample_conc sample_busy"
proof -
  have "sample_busy = sample_conc\<lparr>cc_tasks := cc_tasks sample_conc @ [spawn plain_key (Enroll (Inr (sample_req ''phone''))) bob]\<rparr>"
    by (simp add: sample_busy_def sample_conc_def)
  moreover have "conc_step plain_key sample_verify sample_conc
      (sample_conc\<lparr>cc_tasks := cc_tasks sample_conc @ [spawn plain_key (Enroll (Inr (sample_req ''phone''))) bob]\<rparr>)"
    by (rule conc_step.arrive [of "''Bearer B''"]) (simp_all add: sample_bearer sample_verify_def)
  ultimately show ?thesis by simp
qed

lemma sample_conc_ok: "conc_ok 24 sample_conc"
proof -
  have "srv_ok 24 hour sample_peer_srv"
    using srv_invD [OF sample_peer_srv_inv] srv_inv_pool [OF sample_peer_srv_inv] srv_inv_peer [OF sample_peer_srv_inv]
      sample_sys_inv
    unfolding srv_ok_def leasable_def sys_inv_def leases_bounded_def by (auto simp: sample_system_def)
  then show ?thesis by (simp add: conc_ok_def sample_conc_def)
qed

lemma sample_busy_separate: "separate sample_conc" "separate sample_busy"
proof -
  have "cc_tasks sample_busy = [Enroll_registered (sample_req ''phone'') bob (map (\<lambda>c. word_of_nat (of_char c)) ''phone'')]"
    by (simp add: sample_busy_def spawn_def decode_def sample_req_def plain_key_def)
  then show "separate sample_conc" "separate sample_busy" unfolding separate_def by (simp_all add: sample_conc_def)
qed

theorem interleaving_safe_witness:
  "\<exists>t' s'. task_step plain_key hour [DefaultID] [''laptop''] (cc_tasks sample_busy ! 0) (cc_srv sample_busy) = Ok (t', s') \<and>
     (finished (cc_tasks sample_busy ! 0) \<or> (t', cc_tasks sample_busy ! 0) \<in> measures [lists, rank])"
proof -
  have "conc_run plain_key sample_verify sample_conc sample_busy"
    unfolding conc_run_def by (rule r_into_rtranclp) (rule sample_arrives)
  from interleaving_safe [OF this sample_conc_ok, of "[DefaultID]" 0 "[''laptop'']"] show ?thesis
    using sample_tenants by (simp add: sample_busy_def sample_conc_def)
qed

text \<open>
  C8: While no two goroutines work on one key at a time, and no enrolment releases the address of a
  device that is still enrolled, addresses are exclusive at every moment: two enrolled devices
  never share one, no goroutine holds an address of another device, and an address is marked as
  used exactly if it is the gateway's, an enrolled device's, or held by a goroutine. Whenever all
  goroutines are done, the server's invariant holds.
\<close>

theorem separate_exclusive:
  assumes "apart_run pk verify C C'" "cc_tasks C = []" "srv_inv p (cc_srv C)"
  shows "(\<forall>k k' ip. address_of (cc_srv C') k = Some ip \<longrightarrow> address_of (cc_srv C') k' = Some ip \<longrightarrow> k = k') \<and>
    (\<forall>k k' ip. \<forall>t \<in> set (cc_tasks C'). address_of (cc_srv C') k = Some ip \<longrightarrow> holds t k' = Some ip \<longrightarrow> k = k') \<and>
    (\<forall>ip. ip \<in> taken (alloc (cc_srv C')) \<longleftrightarrow> ip = serverIP (alloc (cc_srv C')) \<or>
      (\<exists>k. address_of (cc_srv C') k = Some ip) \<or> (\<exists>t \<in> set (cc_tasks C'). \<exists>k. holds t k = Some ip)) \<and>
    ((\<forall>t \<in> set (cc_tasks C'). finished t) \<longrightarrow> srv_inv p (cc_srv C'))"
proof -
  have "in_step p C" using in_step_start [OF assms(3), of "cc_now C"] assms(2) by (cases C) simp
  from apart_run_in_step [OF assms(1) this] have i: "in_step p C'" ..
  have "ts_inv (tstore (cc_srv C'))"
    using ts_inv_conc_run [OF apart_run_run [OF assms(1)]] srv_invD(2) [OF assms(3)] .
  with in_step_addresses [OF i] in_step_idle [OF i] show ?thesis by blast
qed

theorem separate_exclusive_witness:
  "taken (alloc (cc_srv sample_busy)) = {serverIP (alloc (cc_srv sample_busy)), [10, 80, 0, 2]}"
proof -
  have t: "cc_tasks sample_busy = [Enroll_registered (sample_req ''phone'') bob (map (\<lambda>c. word_of_nat (of_char c)) ''phone'')]"
    by (simp add: sample_busy_def spawn_def decode_def sample_req_def plain_key_def)
  have r: "apart_run plain_key sample_verify sample_conc sample_busy"
    using sample_arrives sample_busy_separate by (meson apart_run.start apart_run.step)
  have "srv_inv 24 (cc_srv sample_conc)" using sample_peer_srv_inv by (simp add: sample_conc_def)
  note e = separate_exclusive [OF r _ this]
  have u: "ip \<in> taken (alloc (cc_srv sample_busy)) \<longleftrightarrow> ip = serverIP (alloc (cc_srv sample_busy)) \<or>
      (\<exists>k. address_of (cc_srv sample_busy) k = Some ip)" for ip
    using e [THEN conjunct2, THEN conjunct2, THEN conjunct1] unfolding t by (simp add: sample_conc_def)
  have "(\<exists>k. address_of (cc_srv sample_busy) k = Some ip) \<longleftrightarrow> ip = [10, 80, 0, 2]" for ip
    using sample_Get by (simp add: sample_busy_def sample_conc_def address_of_def) metis
  with u show ?thesis by auto
qed

text \<open>
  C9: Nor does the device get out of step. From a state in which device and leases agree and no
  goroutine is at work, while no two goroutines work on one key, no enrolment is about to release
  the address of a device that is still enrolled, the gateway reports no error and every key text
  a goroutine works on is from a set in which a key has one text only: every enrolled device no goroutine is
  working on is programmed under its key with exactly its address; whoever has a pool address on
  the device is the one enrolled with it, or the one a goroutine holds it for; and whenever all
  goroutines are done, device and leases agree.
\<close>

theorem separate_device:
  assumes "canon_run pk verify C X X'" "cc_tasks X = []" "srv_inv p (cc_srv X)" "dev_inv pk C view p (cc_srv X)"
    and "canonical pk C" "adds (gw (cc_srv X))"
  shows "(\<forall>k ip. address_of (cc_srv X') k = Some ip \<longrightarrow> (\<exists>t \<in> set (cc_tasks X'). k \<in> keys_of t) \<or>
      (\<exists>pub. pk k = Inr pub \<and> fmlookup (view (dev (cc_srv X'))) pub = Some [host_net ip])) \<and>
    (\<forall>pub nets j. fmlookup (view (dev (cc_srv X'))) pub = Some nets \<longrightarrow> j \<in> hosts (network (alloc (cc_srv X'))) p \<longrightarrow>
      host_net j \<in> set nets \<longrightarrow>
      (\<exists>k. pk k = Inr pub \<and> (address_of (cc_srv X') k = Some j \<or> (\<exists>t \<in> set (cc_tasks X'). holds t k = Some j)))) \<and>
    ((\<forall>t \<in> set (cc_tasks X'). finished t) \<longrightarrow> dev_inv pk C view p (cc_srv X'))"
proof -
  have i: "in_step p X" using in_step_start [OF assms(3), of "cc_now X"] assms(2) by (cases X) simp
  have "dev_step pk C view p X" using dev_step_start [OF assms(4), of "cc_now X"] assms(2) by (cases X) simp
  from canon_run_dev [OF assms(1) i this assms(5,6)] have d: "dev_step pk C view p X'" .
  have i': "in_step p X'" using apart_run_in_step [OF canon_run_apart [OF assms(1)] i] ..
  show ?thesis using dev_step_view [OF d i'] dev_step_idle [OF d] by blast
qed

theorem separate_device_witness:
  "\<exists>pub. plain_key ''laptop'' = Inr pub \<and>
     fmlookup (mem_view (dev (cc_srv sample_busy))) pub = Some [host_net [10, 80, 0, 2]]"
proof -
  have t: "cc_tasks sample_busy = [Enroll_registered (sample_req ''phone'') bob (map (\<lambda>c. word_of_nat (of_char c)) ''phone'')]"
    by (simp add: sample_busy_def spawn_def decode_def sample_req_def plain_key_def)
  have "\<forall>t \<in> set (cc_tasks sample_busy). parsed plain_key UNIV t"
    unfolding t by (simp add: parsed_def plain_key_def sample_req_def)
  then have r: "canon_run plain_key sample_verify UNIV sample_conc sample_busy"
    using sample_arrives sample_busy_separate by (meson canon_run.start canon_run.step)
  have s: "cc_tasks sample_conc = []" "srv_inv 24 (cc_srv sample_conc)" "dev_inv plain_key UNIV mem_view 24 (cc_srv sample_conc)"
    "adds (gw (cc_srv sample_conc))"
    using sample_peer_srv_inv sample_dev_inv(2) by (simp_all add: sample_conc_def adds_def mem_gw_no_error)
  have "address_of (cc_srv sample_busy) ''laptop'' = Some [10, 80, 0, 2]"
    using sample_Get by (simp add: sample_busy_def sample_conc_def address_of_def)
  with separate_device [OF r s(1,2,3) plain_key_canonical s(4), THEN conjunct1] show ?thesis unfolding t by auto
qed

text \<open>
  C10: While no two goroutines work on one key, and no enrolment is about to release the address of
  a device that is still enrolled, as one does whose gateway failed, the overlapping handlers still implement the book of
  leases, one operation at a time. Where an enrolment stores its device the book has a grant or an
  extension in the name of the identity the request's token proved; where a heartbeat renews, an
  extension of the lease the key has at that moment, if it has one; where a deregistration deletes,
  a return in the name of a proved identity; where the reaper or the reconciliation deletes, the
  withdrawal of that key's lease; and every other operation is nothing to the book. Its laws hold
  at every moment, in the middle of handlers too.
\<close>

theorem separate_refines_book:
  assumes "trace (apart_step pk verify) \<lparr>cc_srv = s, cc_now = now, cc_tasks = []\<rparr> es C'"
    and "srv_inv p s" "leases_bounded now s"
  shows "\<exists>as. book_run (LeaseTTL (cfg s)) (leased (network (alloc s)) p) (book_of \<lparr>sy_srv = s, sy_now = now\<rparr>) as (conc_book C') \<and>
    list_all2 (move_explains verify) es as \<and> book_ok (LeaseTTL (cfg s)) (leased (network (alloc s)) p) (conc_book C')"
proof -
  let ?C = "\<lparr>cc_srv = s, cc_now = now, cc_tasks = []\<rparr>"
  have inv: "apart_inv verify p (LeaseTTL (cfg s)) (network (alloc s)) ?C" by (rule apart_inv_start [OF assms(2,3)])
  have "conc_book ?C = book_of \<lparr>sy_srv = s, sy_now = now\<rparr>" by (simp add: conc_book_def)
  moreover have "apart_inv verify p (LeaseTTL (cfg s)) (network (alloc s)) C'" using apart.run_keeps [OF assms(1) inv] by simp
  ultimately show ?thesis using apart.run_simulated [OF assms(1) inv] apart_inv_book by fastforce
qed

text \<open>Alice's enrolment on the empty server, operation by operation.\<close>

definition solo :: "task \<Rightarrow> mem_dev Server \<Rightarrow> mem_dev Conc" where
  "solo t s = \<lparr>cc_srv = s, cc_now = hour, cc_tasks = [t]\<rparr>"

lemma solo_step:
  assumes "task_step plain_key hour [DefaultID] [] t s = Ok (t', s')" "\<not> finished t" "\<And>k ip. t' \<noteq> Enroll_release k ip"
    and "tstore s = tstore sample_srv" "store s = New_Store"
  shows "apart_step plain_key sample_verify (solo t s) (Some t) (solo t' s')"
proof -
  have C: "solo t' s' = (solo t s)\<lparr>cc_tasks := (cc_tasks (solo t s))[0 := t'], cc_srv := s'\<rparr>" by (simp add: solo_def)
  have "ranges_over [DefaultID] (tenants (tstore s))" using assms(4) sample_srv_tenants by simp
  then have "conc_step plain_key sample_verify (solo t s) (solo t' s')"
    unfolding C using assms(1,5)
    by (intro conc_step.progress [of _ _ "[DefaultID]" "[]"]) (simp_all add: solo_def ranges_over_def New_Store_def)
  moreover have "t' \<noteq> t" using task_step_rank [OF assms(1,2)] by auto
  then have "mover (solo t s) (solo t' s') = Some t" unfolding C by (subst mover_progress) (simp_all add: solo_def)
  moreover have "separate (solo t' s')" using assms(3) by (auto simp: separate_def solo_def)
  ultimately show ?thesis by (simp add: apart_step_def)
qed

definition soloed :: "task \<Rightarrow> mem_dev Server \<Rightarrow> bool" where
  "soloed t s \<longleftrightarrow> (\<exists>es. trace (apart_step plain_key sample_verify) \<lparr>cc_srv = sample_srv, cc_now = hour, cc_tasks = []\<rparr> es (solo t s))"

lemma soloed_step:
  assumes "soloed t s" "task_step plain_key hour [DefaultID] [] t s = Ok (t', s')"
    "\<not> finished t" "\<And>k ip. t' \<noteq> Enroll_release k ip" "tstore s = tstore sample_srv" "store s = New_Store"
  shows "soloed t' s'"
proof -
  obtain es where "trace (apart_step plain_key sample_verify) \<lparr>cc_srv = sample_srv, cc_now = hour, cc_tasks = []\<rparr> es (solo t s)"
    using assms(1) unfolding soloed_def by blast
  then have "trace (apart_step plain_key sample_verify) \<lparr>cc_srv = sample_srv, cc_now = hour, cc_tasks = []\<rparr> (es @ [Some t]) (solo t' s')"
    using solo_step [OF assms(2-6)] by (rule trace.step)
  then show ?thesis unfolding soloed_def by blast
qed

lemma soloed_start: "soloed (Enroll_registered (sample_req ''laptop'') alice (map (\<lambda>c. word_of_nat (of_char c)) ''laptop'')) sample_srv"
proof -
  let ?C = "\<lparr>cc_srv = sample_srv, cc_now = hour, cc_tasks = []\<rparr>"
  let ?C' = "solo (Enroll_registered (sample_req ''laptop'') alice (map (\<lambda>c. word_of_nat (of_char c)) ''laptop'')) sample_srv"
  have "conc_step plain_key sample_verify ?C ?C'"
    using conc_step.arrive [of "''Bearer A''" sample_verify alice plain_key ?C "Enroll (Inr (sample_req ''laptop''))"] sample_admitted
    by (simp add: sample_bearer sample_verify_def solo_def spawn_enroll admitted_def)
  then have "apart_step plain_key sample_verify ?C None ?C'"
    by (simp add: apart_step_def solo_def separate_def mover_def)
  then show ?thesis unfolding soloed_def by (intro exI [of _ "[None]"]) (simp only: trace_one)
qed

lemma sample_enrolling:
  "\<exists>d. soloed (Enroll_put (sample_req ''laptop'') alice (25 * hour) DefaultID [10, 80, 0, 2])
     (sample_srv\<lparr>alloc := snd (Allocate sample_alloc), dev := d\<rparr>)"
proof -
  let ?pub = "map (\<lambda>c. word_of_nat (of_char c)) ''laptop'' :: wgkey" and ?req = "sample_req ''laptop''"
  let ?s = "sample_srv\<lparr>alloc := snd (Allocate sample_alloc)\<rparr>"
  note adm = sample_admitted [unfolded admitted_def]
  have f: "store sample_srv = New_Store" "alloc sample_srv = sample_alloc" "gw sample_srv = mem_gw"
    by (simp_all add: sample_srv_def)
  obtain d where d: "AddPeer mem_gw ?pub [10, 80, 0, 2] (dev sample_srv) = (d, None)"
    using mem_gw_no_error(1) [of ?pub "[10, 80, 0, 2]" "dev sample_srv"] by (cases "AddPeer mem_gw ?pub [10, 80, 0, 2] (dev sample_srv)") auto
  have "soloed (Enroll_tenant ?req alice ?pub (25 * hour)) sample_srv"
    by (rule soloed_step [OF soloed_start]) (use adm f in auto)
  then have "soloed (Enroll_lookup ?req alice ?pub (25 * hour) DefaultID) sample_srv"
    by (rule soloed_step) (use adm f in auto)
  then have "soloed (Enroll_allocate ?req alice ?pub (25 * hour) DefaultID) sample_srv"
    by (rule soloed_step) (use f in auto)
  then have "soloed (Enroll_add ?req alice ?pub (25 * hour) DefaultID [10, 80, 0, 2]) ?s"
    by (rule soloed_step) (use f in \<open>auto simp: sample_Allocate\<close>)
  then have "soloed (Enroll_put ?req alice (25 * hour) DefaultID [10, 80, 0, 2]) (?s\<lparr>dev := d\<rparr>)"
    by (rule soloed_step) (use f d in auto)
  then show ?thesis by auto
qed

theorem separate_refines_book_witness:
  "\<exists>as a (C' :: mem_dev Conc). book_run (24 * hour) (leased sample_net 24) \<lparr>bk_now = hour, bk_leases = Map.empty\<rparr> (as @ [a]) (conc_book C') \<and>
     a \<in> {Grant ''github:1'' ''laptop'', Extend ''github:1'' ''laptop''} \<and> proven sample_verify ''github:1''"
proof -
  let ?t = "Enroll_put (sample_req ''laptop'') alice (25 * hour) DefaultID [10, 80, 0, 2]"
  obtain d where "soloed ?t (sample_srv\<lparr>alloc := snd (Allocate sample_alloc), dev := d\<rparr>)" using sample_enrolling by blast
  then obtain es where es: "trace (apart_step plain_key sample_verify) \<lparr>cc_srv = sample_srv, cc_now = hour, cc_tasks = []\<rparr> es
      (solo ?t (sample_srv\<lparr>alloc := snd (Allocate sample_alloc), dev := d\<rparr>))" unfolding soloed_def by blast
  obtain t' s' where st: "apart_step plain_key sample_verify (solo ?t (sample_srv\<lparr>alloc := snd (Allocate sample_alloc), dev := d\<rparr>)) (Some ?t) (solo t' s')"
    using solo_step [of ?t "sample_srv\<lparr>alloc := snd (Allocate sample_alloc), dev := d\<rparr>"] by (auto simp: sample_srv_def)
  have r: "trace (apart_step plain_key sample_verify) \<lparr>cc_srv = sample_srv, cc_now = hour, cc_tasks = []\<rparr> (es @ [Some ?t]) (solo t' s')"
    using es st by (rule trace.step)
  have "leases_bounded hour sample_srv" by (simp add: leases_bounded_def sample_srv_def)
  from separate_refines_book [OF r sample_srv_inv this] obtain bs where
    b: "book_run (24 * hour) (leased sample_net 24) (book_of \<lparr>sy_srv = sample_srv, sy_now = hour\<rparr>) bs (conc_book (solo t' s'))"
       "list_all2 (move_explains sample_verify) (es @ [Some ?t]) bs"
    by (auto simp: sample_srv_def sample_alloc_def)
  have e: "book_of \<lparr>sy_srv = sample_srv, sy_now = hour\<rparr> = \<lparr>bk_now = hour, bk_leases = Map.empty\<rparr>"
    by (simp add: book_of_def sample_srv_def)
  from b(2) obtain as a where a: "bs = as @ [a]" "move_explains sample_verify (Some ?t) a"
    by (auto simp: list_all2_append1 list_all2_Cons1)
  then have "a \<in> {Grant ''github:1'' ''laptop'', Extend ''github:1'' ''laptop''}" "proven sample_verify ''github:1''"
    by (auto simp: alice_def sample_req_def)
  with b(1) [unfolded e a(1)] show ?thesis by blast
qed

section \<open>Two goroutines on one key\<close>

text \<open>
  C28: Working on one key at a time is needed. When a device enrols again at the moment the reaper
  drops it for its ended lease, and a new device enrols before that first enrolment is finished,
  some order of their operations answers both enrolments with 200 and leaves both devices in the
  store with one and the same address.
\<close>

theorem reaped_while_enrolling:
  assumes "srv_inv p s" "ranges_over ks (tenants (tstore s))" "ranges_over pks (peers (store s))"
    and "admitted pk now ks reqA clA s pubA eA tA" "admitted pk now ks reqB clB s pubB eB tB"
    and "Get (store s) (er_PublicKey reqA) = Some q" "p_Subject q = c_Subject clA"
    and "Get (store s) (er_PublicKey reqB) = None"
    and "Allocate (alloc (ReapExpired pk now pks s)) = (Inr (p_IP q), a)"
    and "\<And>pub ip d. snd (AddPeer (gw s) pub ip d) = None"
  shows "\<exists>s' rA rB qA qB. conc_run pk verify
      \<lparr>cc_srv = s, cc_now = now, cc_tasks = reaped_between pk reqA clA reqB clB\<rparr>
      \<lparr>cc_srv = s', cc_now = now, cc_tasks = [Done (Some rA), Done None, Done (Some rB)]\<rparr> \<and>
    status rA = 200 \<and> status rB = 200 \<and>
    Get (store s') (er_PublicKey reqA) = Some qA \<and> Get (store s') (er_PublicKey reqB) = Some qB \<and>
    p_IP qA = p_IP q \<and> p_IP qB = p_IP q"
  by (rule reap_reenroll_race [OF assms])

lemma sample_admitted_later:
  assumes "k \<noteq> []"
  shows "admitted plain_key (25 * hour) [DefaultID] (sample_req k) c sample_peer_srv
    (map (\<lambda>c. word_of_nat (of_char c)) k) (49 * hour) DefaultID"
proof -
  have ts: "ts_inv (tstore sample_peer_srv)" by (rule srv_invD(2) [OF sample_peer_srv_inv])
  have "chooseTenant [DefaultID] sample_peer_srv [] c = Ok (Inr DefaultID)"
    by (cases rule: chooseTenant_Ok [OF ts sample_tenants, of "[]" c]) (auto simp: sample_tenants_of)
  then show ?thesis using assms by (simp add: admitted_def plain_key_def sample_req_def registered_def)
qed

lemma sample_reaped:
  "Allocate (alloc (ReapExpired plain_key (25 * hour) [''laptop''] sample_peer_srv)) =
     (Inr (p_IP sample_peer), snd (Allocate (Release (snd (Allocate sample_alloc)) [10, 80, 0, 2])))"
proof -
  have "Expired [''laptop''] (store sample_peer_srv) (25 * hour) = [sample_peer]"
    by (simp add: Expired_def range_values_def Put_def New_Store_def)
  then have "alloc (ReapExpired plain_key (25 * hour) [''laptop''] sample_peer_srv) =
      Release (snd (Allocate sample_alloc)) [10, 80, 0, 2]"
    by (simp add: ReapExpired_def drop_peer_def Let_def plain_key_def)
  moreover have "fst (Allocate (Release (snd (Allocate sample_alloc)) [10, 80, 0, 2])) = Inr [10, 80, 0, 2]"
    by code_simp
  ultimately show ?thesis by (simp add: prod_eq_iff)
qed

theorem reaped_while_enrolling_witness:
  "\<exists>s' rA rB qA qB. conc_run plain_key sample_verify
      \<lparr>cc_srv = sample_peer_srv, cc_now = 25 * hour,
       cc_tasks = reaped_between plain_key (sample_req ''laptop'') alice (sample_req ''phone'') bob\<rparr>
      \<lparr>cc_srv = s', cc_now = 25 * hour, cc_tasks = [Done (Some rA), Done None, Done (Some rB)]\<rparr> \<and>
    Get (store s') ''laptop'' = Some qA \<and> Get (store s') ''phone'' = Some qB \<and>
    p_IP qA = [10, 80, 0, 2] \<and> p_IP qB = [10, 80, 0, 2]"
proof -
  have key: "er_PublicKey (sample_req k) = k" for k by (simp add: sample_req_def)
  have q: "Get (store sample_peer_srv) (er_PublicKey (sample_req ''laptop'')) = Some sample_peer"
    and new: "Get (store sample_peer_srv) (er_PublicKey (sample_req ''phone'')) = None"
    unfolding sample_Get key by simp_all
  have up: "snd (AddPeer (gw sample_peer_srv) pub ip d) = None" for pub ip d by (simp add: mem_gw_no_error)
  show ?thesis
    using reaped_while_enrolling [OF sample_peer_srv_inv sample_tenants sample_peers
      sample_admitted_later [of "''laptop''" alice] sample_admitted_later [of "''phone''" bob] q _ new sample_reaped up]
    unfolding key by (simp add: alice_def) blast
qed

end
