(* ===== verification/Serve_Mux.thy ===== *)
theory Serve_Mux
  imports Go_Strings
begin

text \<open>
  The part of Go's \<open>net/http.ServeMux\<close> the server uses: patterns with a method, literal
  segments, \<open>{id}\<close> wildcards and trailing slashes; the conflicts at which registration panics; the
  search for the most specific pattern; the redirects to a clean path or to a trailing slash; and
  the answers 404 and 405. Patterns with hosts, named rests (\<open>{x...}\<close>) and \<open>{$}\<close> are not used.
\<close>

section \<open>Paths\<close>

definition hexval :: "char \<Rightarrow> nat option" where
  "hexval c =
     (let n = of_char c
      in if 48 \<le> n \<and> n \<le> 57 then Some (n - 48)
         else if 97 \<le> n \<and> n \<le> 102 then Some (n - 87)
         else if 65 \<le> n \<and> n \<le> 70 then Some (n - 55) else None)"

text \<open>\<open>url.PathUnescape\<close>; a segment with a broken escape is used as it is.\<close>

fun unescape :: "string \<Rightarrow> string option" where
  "unescape [] = Some []"
| "unescape (c # cs) =
     (if c = CHR ''%'' then
        (case cs of
           a # b # cs' \<Rightarrow>
             (case (hexval a, hexval b) of
                (Some x, Some y) \<Rightarrow> map_option (\<lambda>s. char_of (16 * x + y) # s) (unescape cs')
              | _ \<Rightarrow> None)
         | _ \<Rightarrow> None)
      else map_option (\<lambda>s. c # s) (unescape cs))"

definition pathUnescape :: "string \<Rightarrow> string" where
  "pathUnescape s = (case unescape s of None \<Rightarrow> s | Some t \<Rightarrow> t)"

text \<open>\<open>path.Clean\<close> of a rooted path, on its segments: the kept ones, last first.\<close>

fun clean_segs :: "string list \<Rightarrow> string list \<Rightarrow> string list" where
  "clean_segs kept [] = rev kept"
| "clean_segs kept (s # ss) =
     (if s = [] \<or> s = ''.'' then clean_segs kept ss
      else if s = ''..'' then clean_segs (tl kept) ss
      else clean_segs (s # kept) ss)"

definition rooted :: "string list \<Rightarrow> string" where
  "rooted ss = (if ss = [] then ''/'' else concat (map (\<lambda>s. CHR ''/'' # s) ss))"

definition cleanPath :: "string \<Rightarrow> string" where
  "cleanPath p =
     (if p = [] then ''/''
      else let p' = (if hd p = CHR ''/'' then p else CHR ''/'' # p);
               np = rooted (clean_segs [] (split_on (CHR ''/'') (tl p')))
           in if last p' = CHR ''/'' \<and> np \<noteq> ''/'' then np @ ''/'' else np)"

text \<open>The segments of a request's path; a trailing slash is the segment \<open>/\<close>.\<close>

definition path_segs :: "string \<Rightarrow> string list" where
  "path_segs p =
     (if p = [] then []
      else let ss = map pathUnescape (split_on (CHR ''/'') (tl p))
           in if last ss = [] then butlast ss @ [''/''] else ss)"

section \<open>Patterns\<close>

datatype segment = Lit string | Wild | Multi

record pat =
  pat_method :: string
  pat_segs :: "segment list"

definition parse_segment :: "string \<Rightarrow> segment" where
  "parse_segment s = (if s \<noteq> [] \<and> hd s = CHR ''{'' \<and> last s = CHR ''}'' then Wild else Lit (pathUnescape s))"

definition parse_segs :: "string \<Rightarrow> segment list" where
  "parse_segs p =
     (let ss = split_on (CHR ''/'') (tl p)
      in if last ss = [] then map parse_segment (butlast ss) @ [Multi] else map parse_segment ss)"

text \<open>\<open>[METHOD ]/PATH\<close>.\<close>

definition parsePattern :: "string \<Rightarrow> pat" where
  "parsePattern s =
     (let m = takeWhile (\<lambda>c. c \<noteq> CHR '' '') s
      in if m = s then \<lparr>pat_method = [], pat_segs = parse_segs s\<rparr>
         else \<lparr>pat_method = m, pat_segs = parse_segs (dropWhile (\<lambda>c. c = CHR '' '') (drop (length m) s))\<rparr>)"

text \<open>How the requests two patterns match relate.\<close>

datatype relationship = Equivalent | MoreGeneral | MoreSpecific | Disjoint | Overlaps

fun combine :: "relationship \<Rightarrow> relationship \<Rightarrow> relationship" where
  "combine Equivalent r = r"
| "combine Disjoint r = Disjoint"
| "combine Overlaps r = (if r = Disjoint then Disjoint else Overlaps)"
| "combine MoreGeneral r =
     (case r of Equivalent \<Rightarrow> MoreGeneral | MoreSpecific \<Rightarrow> Overlaps | _ \<Rightarrow> r)"
| "combine MoreSpecific r =
     (case r of Equivalent \<Rightarrow> MoreSpecific | MoreGeneral \<Rightarrow> Overlaps | _ \<Rightarrow> r)"

fun compareSegments :: "segment \<Rightarrow> segment \<Rightarrow> relationship" where
  "compareSegments Multi Multi = Equivalent"
| "compareSegments Multi _ = MoreGeneral"
| "compareSegments _ Multi = MoreSpecific"
| "compareSegments Wild Wild = Equivalent"
| "compareSegments Wild (Lit s) = (if s = ''/'' then Disjoint else MoreGeneral)"
| "compareSegments (Lit s) Wild = (if s = ''/'' then Disjoint else MoreSpecific)"
| "compareSegments (Lit s) (Lit t) = (if s = t then Equivalent else Disjoint)"

text \<open>Segment by segment; then the shorter pattern has to end in a rest.\<close>

fun comparePaths :: "relationship \<Rightarrow> bool \<Rightarrow> bool \<Rightarrow> segment list \<Rightarrow> segment list \<Rightarrow> relationship" where
  "comparePaths rel m1 m2 [] [] = rel"
| "comparePaths rel m1 m2 [] (b # bs) = (if m1 then combine rel MoreGeneral else Disjoint)"
| "comparePaths rel m1 m2 (a # as) [] = (if m2 then combine rel MoreSpecific else Disjoint)"
| "comparePaths rel m1 m2 (a # as) (b # bs) =
     (let rel' = combine rel (compareSegments a b)
      in if rel' = Disjoint then Disjoint else comparePaths rel' m1 m2 as bs)"

definition ends_multi :: "segment list \<Rightarrow> bool" where
  "ends_multi ss \<longleftrightarrow> ss \<noteq> [] \<and> last ss = Multi"

definition compare_segs :: "segment list \<Rightarrow> segment list \<Rightarrow> relationship" where
  "compare_segs as bs =
     (if length as \<noteq> length bs \<and> \<not> ends_multi as \<and> \<not> ends_multi bs then Disjoint
      else comparePaths Equivalent (ends_multi as) (ends_multi bs) as bs)"

definition compareMethods :: "string \<Rightarrow> string \<Rightarrow> relationship" where
  "compareMethods m n =
     (if m = n then Equivalent
      else if m = [] then MoreGeneral
      else if n = [] then MoreSpecific
      else if m = ''GET'' \<and> n = ''HEAD'' then MoreGeneral
      else if n = ''GET'' \<and> m = ''HEAD'' then MoreSpecific
      else Disjoint)"

definition conflictsWith :: "pat \<Rightarrow> pat \<Rightarrow> bool" where
  "conflictsWith p q \<longleftrightarrow>
     (let mrel = compareMethods (pat_method p) (pat_method q)
      in mrel \<noteq> Disjoint \<and> combine mrel (compare_segs (pat_segs p) (pat_segs q)) \<in> {Equivalent, Overlaps})"

text \<open>\<open>mux.Handle\<close>: a pattern that conflicts with one that is there panics.\<close>

type_synonym 'h mux = "(pat \<times> 'h) list"

definition Handle :: "string \<Rightarrow> 'h \<Rightarrow> 'h mux \<Rightarrow> 'h mux outcome" where
  "Handle p h m = (if list_ex (\<lambda>(q, _). conflictsWith (parsePattern p) q) m then Panic else Ok (m @ [(parsePattern p, h)]))"

fun HandleAll :: "(string \<times> 'h) list \<Rightarrow> 'h mux \<Rightarrow> 'h mux outcome" where
  "HandleAll [] m = Ok m"
| "HandleAll ((p, h) # rs) m = obind (Handle p h m) (HandleAll rs)"

section \<open>The search\<close>

text \<open>
  The routing tree, as the patterns below a node: a literal segment first, then a wildcard, which
  no trailing slash matches, then a rest. The result has the values of the wildcards.
\<close>

definition below :: "segment \<Rightarrow> (segment list \<times> 'r) list \<Rightarrow> (segment list \<times> 'r) list" where
  "below x rs = map (\<lambda>(ps, r). (tl ps, r)) (filter (\<lambda>(ps, _). ps \<noteq> [] \<and> hd ps = x) rs)"

fun match_path :: "(segment list \<times> 'r) list \<Rightarrow> string list \<Rightarrow> ('r \<times> string list) option" where
  "match_path rs [] = (case List.find (\<lambda>(ps, _). ps = []) rs of Some (_, r) \<Rightarrow> Some (r, []) | None \<Rightarrow> None)"
| "match_path rs (s # ss) =
     (case match_path (below (Lit s) rs) ss of
        Some x \<Rightarrow> Some x
      | None \<Rightarrow>
          (case (if s = ''/'' then None else match_path (below Wild rs) ss) of
             Some (r, ms) \<Rightarrow> Some (r, s # ms)
           | None \<Rightarrow>
               (case List.find (\<lambda>(ps, _). ps = [Multi]) rs of Some (_, r) \<Rightarrow> Some (r, []) | None \<Rightarrow> None)))"

definition of_method :: "string \<Rightarrow> 'h mux \<Rightarrow> (segment list \<times> (pat \<times> 'h)) list" where
  "of_method m rs = map (\<lambda>(p, h). (pat_segs p, (p, h))) (filter (\<lambda>(p, _). pat_method p = m) rs)"

definition orelse :: "'a option \<Rightarrow> 'a option \<Rightarrow> 'a option" where
  "orelse x y = (case x of Some v \<Rightarrow> Some v | None \<Rightarrow> y)"

text \<open>The method's own patterns, those of \<open>GET\<close> for \<open>HEAD\<close>, then those without a method.\<close>

definition match_method :: "'h mux \<Rightarrow> string \<Rightarrow> string \<Rightarrow> ((pat \<times> 'h) \<times> string list) option" where
  "match_method rs m path =
     orelse (match_path (of_method m rs) (path_segs path))
       (orelse (if m = ''HEAD'' then match_path (of_method ''GET'' rs) (path_segs path) else None)
          (match_path (of_method [] rs) (path_segs path)))"

definition exactMatch :: "((pat \<times> 'h) \<times> string list) option \<Rightarrow> string \<Rightarrow> bool" where
  "exactMatch n path =
     (case n of
        None \<Rightarrow> False
      | Some ((p, _), _) \<Rightarrow>
          \<not> ends_multi (pat_segs p) \<or>
          (path = [] \<or> last path = CHR ''/'') \<and> length (pat_segs p) = length (filter (\<lambda>c. c = CHR ''/'') path))"

text \<open>The methods some pattern has for a path, for the answer 405.\<close>

definition methods_at :: "'h mux \<Rightarrow> string \<Rightarrow> string list" where
  "methods_at rs path =
     filter (\<lambda>m. m \<noteq> [] \<and> match_path (of_method m rs) (path_segs path) \<noteq> None) (remdups (map (pat_method \<circ> fst) rs))"

definition matchingMethods :: "'h mux \<Rightarrow> string \<Rightarrow> string list" where
  "matchingMethods rs path =
     (let ms = methods_at rs path @ (if path \<noteq> [] \<and> last path = CHR ''/'' then [] else methods_at rs (path @ ''/''))
      in sort (remdups (if ''GET'' \<in> set ms then ''HEAD'' # ms else ms)))"

datatype 'h found =
    Found 'h "string list"
  | Moved string
  | NotAllowed "string list"
  | NoPattern

text \<open>
  \<open>findHandler\<close>, on the escaped path of the request. A \<open>CONNECT\<close> request is not cleaned. The
  target of a redirect is its path; the query goes with it.
\<close>

definition findHandler :: "'h mux \<Rightarrow> string \<Rightarrow> string \<Rightarrow> 'h found" where
  "findHandler rs m escaped =
     (let path = (if m = ''CONNECT'' then escaped else cleanPath escaped);
          n = match_method rs m path
      in if \<not> exactMatch n path \<and> path \<noteq> [] \<and> last path \<noteq> CHR ''/'' \<and>
            exactMatch (match_method rs m (path @ ''/'')) (path @ ''/'')
         then Moved (cleanPath (pathUnescape escaped) @ ''/'')
         else if path \<noteq> escaped then Moved path
         else (case n of
            Some ((_, h), ms) \<Rightarrow> Found h ms
          | None \<Rightarrow>
              (let allowed = matchingMethods rs path
               in if allowed = [] then NoPattern else NotAllowed allowed)))"

section \<open>What a search finds\<close>

text \<open>One pattern against a path, with the values of its wildcards.\<close>

fun seg_match :: "segment list \<Rightarrow> string list \<Rightarrow> string list option" where
  "seg_match [] [] = Some []"
| "seg_match (Lit l # ps) (s # ss) = (if l = s then seg_match ps ss else None)"
| "seg_match (Wild # ps) (s # ss) = (if s = ''/'' then None else map_option ((#) s) (seg_match ps ss))"
| "seg_match [Multi] (s # ss) = Some []"
| "seg_match _ _ = None"

lemma below_iff: "(ps, r) \<in> set (below x rs) \<longleftrightarrow> (x # ps, r) \<in> set rs"
proof
  assume "(ps, r) \<in> set (below x rs)"
  then obtain qs where "(qs, r) \<in> set rs" "qs \<noteq> []" "hd qs = x" "ps = tl qs" by (auto simp: below_def)
  then show "(x # ps, r) \<in> set rs" by auto
next
  assume "(x # ps, r) \<in> set rs"
  then have "(\<lambda>(ps, r). (tl ps, r)) (x # ps, r) \<in> set (below x rs)"
    unfolding below_def set_map by (intro imageI) simp
  then show "(ps, r) \<in> set (below x rs)" by simp
qed

lemma find_in: "List.find P xs = Some x \<Longrightarrow> x \<in> set xs \<and> P x"
  by (auto simp: find_Some_iff)

text \<open>
  The pattern found matches, and of the patterns that match it has the most literal segments
  from the left: \<open>prefers\<close> is the order in which the tree is searched.
\<close>

fun prefers :: "segment list \<Rightarrow> segment list \<Rightarrow> bool" where
  "prefers (Lit l # ps) (q # qs) = (if q = Lit l then prefers ps qs else True)"
| "prefers (Wild # ps) (q # qs) = (case q of Wild \<Rightarrow> prefers ps qs | Multi \<Rightarrow> True | Lit _ \<Rightarrow> False)"
| "prefers (Multi # ps) (q # qs) = (ps = [] \<and> q = Multi \<and> qs = [])"
| "prefers [] qs = (qs = [])"
| "prefers ps [] = (ps = [])"

lemma match_path_None: "match_path rs ss = None \<longleftrightarrow> (\<forall>(ps, r) \<in> set rs. seg_match ps ss = None)"
proof (induction ss arbitrary: rs)
  case Nil
  have "seg_match ps [] = None \<longleftrightarrow> ps \<noteq> []" for ps by (cases ps rule: list.exhaust; cases "hd ps") auto
  then show ?case by (auto simp: find_None_iff split: option.splits dest!: find_in)
next
  case (Cons s ss)
  have seg: "seg_match ps (s # ss) = None \<longleftrightarrow>
      (\<forall>qs. ps = Lit s # qs \<longrightarrow> seg_match qs ss = None) \<and>
      (\<forall>qs. ps = Wild # qs \<longrightarrow> s \<noteq> ''/'' \<longrightarrow> seg_match qs ss = None) \<and> ps \<noteq> [Multi]" for ps
    by (cases "(ps, s # ss)" rule: seg_match.cases) auto
  have "match_path rs (s # ss) = None \<longleftrightarrow> match_path (below (Lit s) rs) ss = None \<and>
      (s \<noteq> ''/'' \<longrightarrow> match_path (below Wild rs) ss = None) \<and> (\<forall>(ps, r) \<in> set rs. ps \<noteq> [Multi])"
    by (auto simp: find_None_iff split: option.splits dest!: find_in)
  then show ?case
    unfolding Cons.IH seg by (auto simp: below_iff) blast+
qed

lemma seg_match_Cons:
  assumes "seg_match qs (s # ss) \<noteq> None"
  obtains (lit) qs' where "qs = Lit s # qs'" "seg_match qs' ss \<noteq> None"
    | (wild) qs' where "qs = Wild # qs'" "s \<noteq> ''/''" "seg_match qs' ss \<noteq> None"
    | (rest) "qs = [Multi]"
  using assms by (cases "(qs, s # ss)" rule: seg_match.cases) (auto split: if_splits)

lemma match_path_sound:
  "match_path rs ss = Some (r, ms) \<Longrightarrow>
     \<exists>ps. (ps, r) \<in> set rs \<and> seg_match ps ss = Some ms \<and>
       (\<forall>qs r'. (qs, r') \<in> set rs \<longrightarrow> seg_match qs ss \<noteq> None \<longrightarrow> prefers ps qs)"
proof (induction ss arbitrary: rs ms)
  case Nil
  have "seg_match ps [] \<noteq> None \<longrightarrow> prefers [] ps" for ps by (cases ps rule: list.exhaust; cases "hd ps") auto
  with Nil show ?case by (fastforce split: option.splits dest!: find_in)
next
  case (Cons s ss)
  show ?case
  proof (cases "match_path (below (Lit s) rs) ss")
    case (Some x)
    with Cons.prems have "match_path (below (Lit s) rs) ss = Some (r, ms)" by simp
    from Cons.IH [OF this] obtain ps where ps: "(Lit s # ps, r) \<in> set rs" "seg_match ps ss = Some ms"
      "\<And>qs r'. (Lit s # qs, r') \<in> set rs \<Longrightarrow> seg_match qs ss \<noteq> None \<Longrightarrow> prefers ps qs"
      by (auto simp: below_iff)
    have "prefers (Lit s # ps) qs" if "(qs, r') \<in> set rs" "seg_match qs (s # ss) \<noteq> None" for qs r'
      using that(2,1) by (cases rule: seg_match_Cons) (auto intro: ps(3))
    with ps(1,2) show ?thesis by (intro exI [of _ "Lit s # ps"]) simp
  next
    case lit: None
    then have no_lit: "seg_match qs ss = None" if "(Lit s # qs, r') \<in> set rs" for qs r'
      using that by (auto simp: match_path_None below_iff)
    show ?thesis
    proof (cases "if s = ''/'' then None else match_path (below Wild rs) ss")
      case (Some x)
      with lit Cons.prems obtain ms' where w: "s \<noteq> ''/''" "match_path (below Wild rs) ss = Some (r, ms')" "ms = s # ms'"
        by (cases x) (auto split: if_splits)
      from Cons.IH [OF w(2)] obtain ps where ps: "(Wild # ps, r) \<in> set rs" "seg_match ps ss = Some ms'"
        "\<And>qs r'. (Wild # qs, r') \<in> set rs \<Longrightarrow> seg_match qs ss \<noteq> None \<Longrightarrow> prefers ps qs"
        by (auto simp: below_iff)
      have "prefers (Wild # ps) qs" if "(qs, r') \<in> set rs" "seg_match qs (s # ss) \<noteq> None" for qs r'
        using that(2,1) by (cases rule: seg_match_Cons) (auto intro: ps(3) dest: no_lit)
      with ps(1,2) w show ?thesis by (intro exI [of _ "Wild # ps"]) simp
    next
      case None
      with lit Cons.prems have m: "([Multi], r) \<in> set rs" "ms = []"
        by (auto split: option.splits if_splits dest!: find_in)
      have no_wild: "seg_match qs ss = None" if "(Wild # qs, r') \<in> set rs" "s \<noteq> ''/''" for qs r'
        using None that by (auto simp: match_path_None below_iff split: if_splits)
      have "prefers [Multi] qs" if "(qs, r') \<in> set rs" "seg_match qs (s # ss) \<noteq> None" for qs r'
        using that(2,1) by (cases rule: seg_match_Cons) (auto dest: no_lit no_wild)
      with m show ?thesis by (intro exI [of _ "[Multi]"]) simp
    qed
  qed
qed

section \<open>Registration and search agree\<close>

lemma combine_Disjoint: "combine r r' = Disjoint \<longleftrightarrow> r = Disjoint \<or> r' = Disjoint"
  by (cases r; cases r') simp_all

lemma ends_multi_Cons: "ends_multi (a # as) \<longleftrightarrow> (if as = [] then a = Multi else ends_multi as)"
  by (simp add: ends_multi_def)

text \<open>Two patterns that match one path are not disjoint.\<close>

lemma comparePaths_joint:
  "seg_match as ss \<noteq> None \<Longrightarrow> seg_match bs ss \<noteq> None \<Longrightarrow> (ends_multi as \<longrightarrow> m1) \<Longrightarrow> (ends_multi bs \<longrightarrow> m2) \<Longrightarrow>
     rel \<noteq> Disjoint \<Longrightarrow> comparePaths rel m1 m2 as bs \<noteq> Disjoint"
proof (induction ss arbitrary: as bs rel)
  case Nil
  have "seg_match ps [] \<noteq> None \<Longrightarrow> ps = []" for ps by (cases ps rule: list.exhaust; cases "hd ps") auto
  with Nil have "as = []" "bs = []" by blast+
  with Nil show ?case by simp
next
  case (Cons s ss)
  have tail: "m1 \<Longrightarrow> comparePaths rel' m1 m2 [] ps \<noteq> Disjoint" "m2 \<Longrightarrow> comparePaths rel' m1 m2 ps [] \<noteq> Disjoint"
    if "rel' \<noteq> Disjoint" for rel' ps
    using that by (cases ps; simp add: combine_Disjoint)+
  have on: "comparePaths (combine rel r) m1 m2 as' bs' \<noteq> Disjoint"
    if "seg_match as' ss \<noteq> None" "seg_match bs' ss \<noteq> None" "as = a # as'" "bs = b # bs'" "r \<noteq> Disjoint" for as' bs' r a b
    using that Cons.prems(3-5)
    by (intro Cons.IH) (auto simp: combine_Disjoint ends_multi_Cons ends_multi_def [of "[]"] split: if_splits)
  have ends: "as = [Multi] \<Longrightarrow> m1" "bs = [Multi] \<Longrightarrow> m2" using Cons.prems(3,4) by (auto simp: ends_multi_def)
  have rel: "combine rel r \<noteq> Disjoint" if "r \<noteq> Disjoint" for r using that Cons.prems(5) by (simp add: combine_Disjoint)
  have over: "as = [Multi] \<Longrightarrow> comparePaths (combine rel r) m1 m2 [] ps \<noteq> Disjoint"
    "bs = [Multi] \<Longrightarrow> comparePaths (combine rel r) m1 m2 ps [] \<noteq> Disjoint" if "r \<noteq> Disjoint" for r ps
    using tail [OF rel [OF that]] ends by blast+
  note stepping = Let_def rel on over
  from Cons.prems(1) show ?case
  proof (cases rule: seg_match_Cons)
    case (lit as')
    from Cons.prems(2) show ?thesis
      by (cases rule: seg_match_Cons) (use lit in \<open>simp_all add: stepping\<close>)
  next
    case (wild as')
    from Cons.prems(2) show ?thesis
      by (cases rule: seg_match_Cons) (use wild in \<open>simp_all add: stepping\<close>)
  next
    case rest
    from Cons.prems(2) show ?thesis
      by (cases rule: seg_match_Cons) (use rest in \<open>simp_all add: stepping\<close>)
  qed
qed

lemma comparePaths_specific:
  "rel \<in> {MoreSpecific, Overlaps} \<Longrightarrow> comparePaths rel m1 m2 as bs \<noteq> MoreGeneral"
proof (induction rel m1 m2 as bs rule: comparePaths.induct)
  case (4 rel m1 m2 a as b bs)
  then show ?case by (cases "compareSegments a b") (auto simp: Let_def)
qed auto

lemma prefers_compare: "prefers as bs \<Longrightarrow> comparePaths Equivalent m1 m2 as bs \<noteq> MoreGeneral"
proof (induction as bs rule: prefers.induct)
  case (1 l ps q qs)
  then show ?case by (cases q) (auto simp: Let_def comparePaths_specific)
next
  case (2 ps q qs)
  then show ?case by (cases q) (auto simp: Let_def comparePaths_specific)
next
  case (3 ps q qs)
  then show ?case by (simp add: Let_def)
qed auto

lemma seg_match_length: "seg_match ps ss = Some ms \<Longrightarrow> ends_multi ps \<or> length ps = length ss"
  by (induction ps ss arbitrary: ms rule: seg_match.induct) (auto simp: ends_multi_def split: if_splits)

text \<open>
  In a mux that was registered without a panic, the pattern found is more specific than every
  other pattern of its method that matches.
\<close>

lemma find_most_specific:
  assumes m: "match_path (of_method m rs) ss = Some ((p, h), ms)" and q: "(q, h') \<in> set rs" "pat_method q = m"
    and s: "seg_match (pat_segs q) ss \<noteq> None"
    and reg: "\<And>p h q h'. (p, h) \<in> set rs \<Longrightarrow> (q, h') \<in> set rs \<Longrightarrow> p \<noteq> q \<Longrightarrow> \<not> conflictsWith p q"
  shows "p = q \<or> compare_segs (pat_segs p) (pat_segs q) = MoreSpecific"
proof (cases "p = q")
  case False
  from match_path_sound [OF m] have p: "(p, h) \<in> set rs" "pat_method p = m" "seg_match (pat_segs p) ss = Some ms"
    and pref: "prefers (pat_segs p) (pat_segs q)"
    using q s by (auto simp: of_method_def) force+
  have "compare_segs (pat_segs p) (pat_segs q) \<notin> {Equivalent, Overlaps}"
    using reg [OF p(1) q(1) False] p(2) q(2) by (auto simp: conflictsWith_def compareMethods_def)
  moreover have "comparePaths Equivalent (ends_multi (pat_segs p)) (ends_multi (pat_segs q)) (pat_segs p) (pat_segs q) \<notin>
      {MoreGeneral, Disjoint}"
    using prefers_compare [OF pref] comparePaths_joint [OF _ s] p(3) by auto
  moreover have "length (pat_segs p) = length (pat_segs q) \<or> ends_multi (pat_segs p) \<or> ends_multi (pat_segs q)"
    using seg_match_length [OF p(3)] seg_match_length [of "pat_segs q" ss] s by auto
  ultimately show ?thesis
    by (cases "compare_segs (pat_segs p) (pat_segs q)") (auto simp: compare_segs_def split: if_splits)
qed simp

end
