(* ===== verification/Front.thy ===== *)
theory Front
  imports Serve_Mux Metrics System
begin

text \<open>
  What listens: the root mux of \<open>run\<close>, with the enrolment API as its rest, the metrics and the
  management API, and how the process ends. A request is its method, its escaped path, its
  \<open>Authorization\<close> header and its body. The paths of the enrolment API are constants of the
  client's repository (\<open>Paths\<close>), JSON decoding is \<open>Codec\<close>, and the files of the admin UI are
  served by \<open>ui\<close>.
\<close>

record request =
  rq_method :: string
  rq_path :: string
  rq_auth :: string
  rq_body :: string

record Paths =
  PathHealthz :: string
  PathEnroll :: string
  PathHeartbeat :: string
  PathDeregister :: string
  PathTenants :: string

record Codec =
  j_enroll :: "string \<Rightarrow> EnrollRequest result"
  j_heartbeat :: "string \<Rightarrow> string result"
  j_deregister :: "string \<Rightarrow> string result"
  j_tenant :: "string \<Rightarrow> Tenant result"

text \<open>What a handler is given beside its request: the instant, and the orders of the maps.\<close>

record Orders =
  o_now :: time
  o_tenants :: "string list"
  o_peers :: "string list"
  o_subs :: "string \<Rightarrow> int list"

datatype reply =
    ApiReply response
  | AdminReply admin_response
  | MetricsPage "string \<Rightarrow> nat" "sample list"
  | UiFile string string
  | MovedPermanently string
  | MethodNotAllowed "string list"
  | PageNotFound

type_synonym 'd handler = "Orders \<Rightarrow> request \<Rightarrow> string list \<Rightarrow> 'd Server \<Rightarrow> (reply \<times> 'd Server) outcome"

record Setup =
  su_parse_key :: parse_key
  su_verify :: verifier
  su_paths :: Paths
  su_codec :: Codec
  su_token :: string

definition ServeHTTP :: "'d handler mux \<Rightarrow> 'd handler" where
  "ServeHTTP m ord r ms s =
     (case findHandler m (rq_method r) (rq_path r) of
        Found h ms' \<Rightarrow> h ord r ms' s
      | Moved p \<Rightarrow> Ok (MovedPermanently p, s)
      | NotAllowed allowed \<Rightarrow> Ok (MethodNotAllowed allowed, s)
      | NoPattern \<Rightarrow> Ok (PageNotFound, s))"

section \<open>The enrolment API\<close>

definition api_handle :: "Setup \<Rightarrow> (request \<Rightarrow> call) \<Rightarrow> 'd handler" where
  "api_handle E c ord r ms s =
     obind (Handler (su_parse_key E) (su_verify E) (o_now ord) (o_tenants ord) (rq_auth r) (c r) s)
       (\<lambda>(resp, s'). Ok (ApiReply resp, s'))"

definition api_routes :: "Setup \<Rightarrow> (string \<times> 'd handler) list" where
  "api_routes E =
     [(''GET '' @ PathHealthz (su_paths E), api_handle E (\<lambda>_. Healthz)),
      (''POST '' @ PathEnroll (su_paths E), api_handle E (\<lambda>r. Enroll (j_enroll (su_codec E) (rq_body r)))),
      (''POST '' @ PathHeartbeat (su_paths E), api_handle E (\<lambda>r. Heartbeat (j_heartbeat (su_codec E) (rq_body r)))),
      (''POST '' @ PathDeregister (su_paths E), api_handle E (\<lambda>r. Deregister (j_deregister (su_codec E) (rq_body r)))),
      (''GET '' @ PathTenants (su_paths E), api_handle E (\<lambda>_. Tenants))]"

text \<open>\<open>srv.Handler\<close>.\<close>

definition api_Handler :: "Setup \<Rightarrow> 'd handler outcome" where
  "api_Handler E = obind (HandleAll (api_routes E) []) (\<lambda>m. Ok (ServeHTTP m))"

section \<open>The metrics and the management API\<close>

definition metrics_handle :: "'d handler" where
  "metrics_handle ord r ms s =
     Ok (MetricsPage (enrolls s) (Collect (o_tenants ord) (o_peers ord) (store s) (tstore s)), s)"

text \<open>\<open>r.PathValue\<close> of the only wildcard.\<close>

definition PathValue :: "string list \<Rightarrow> string" where
  "PathValue ms = (case ms of [] \<Rightarrow> [] | v # _ \<Rightarrow> v)"

definition admin_handle :: "Setup \<Rightarrow> (request \<Rightarrow> string \<Rightarrow> admin_call) \<Rightarrow> 'd handler" where
  "admin_handle E c ord r ms s =
     obind (guard (su_token E) (rq_auth r)
         (admin_route (o_tenants ord) (o_subs ord (PathValue ms)) (o_peers ord) (store s) (c r (PathValue ms))) (tstore s))
       (\<lambda>(resp, ts'). Ok (AdminReply resp, s\<lparr>tstore := ts'\<rparr>))"

definition admin_off :: "'d handler" where
  "admin_off ord r ms s = Ok (AdminReply \<lparr>a_status = 503, a_body = AdminDisabled\<rparr>, s)"

definition admin_ui :: "'d handler" where
  "admin_ui ord r ms s = Ok (UiFile (rq_method r) (rq_path r), s)"

definition admin_routes :: "Setup \<Rightarrow> (string \<times> 'd handler) list" where
  "admin_routes E =
     (if \<not> Enabled (su_token E) then [(''/admin/'', admin_off)]
      else
        [(''GET /admin/api/overview'', admin_handle E (\<lambda>_ _. GetOverview)),
         (''GET /admin/api/tenants'', admin_handle E (\<lambda>_ _. ListTenants)),
         (''POST /admin/api/tenants'', admin_handle E (\<lambda>r _. CreateTenant (j_tenant (su_codec E) (rq_body r)))),
         (''GET /admin/api/tenants/{id}'', admin_handle E (\<lambda>_ tid. GetTenant tid)),
         (''PUT /admin/api/tenants/{id}'', admin_handle E (\<lambda>r tid. UpdateTenant tid (j_tenant (su_codec E) (rq_body r)))),
         (''DELETE /admin/api/tenants/{id}'', admin_handle E (\<lambda>_ tid. DeleteTenant tid)),
         (''/admin/'', admin_ui)])"

text \<open>The root mux, and what serves a request. A conflict of patterns panics at startup.\<close>

definition root_mux :: "Setup \<Rightarrow> 'd handler mux outcome" where
  "root_mux E =
     obind (api_Handler E) (\<lambda>api.
       HandleAll ([(''/'', api), (''GET /metrics'', metrics_handle)] @ admin_routes E) [])"

definition serve_root :: "Setup \<Rightarrow> Orders \<Rightarrow> request \<Rightarrow> 'd Server \<Rightarrow> (reply \<times> 'd Server) outcome" where
  "serve_root E ord r s = obind (root_mux E) (\<lambda>m. ServeHTTP m ord r [] s)"

section \<open>Every handler of the mux\<close>

lemma obind_assoc: "obind (obind x f) g = obind x (\<lambda>y. obind (f y) g)"
  by (cases x) simp_all

lemma HandleAll_handlers:
  "HandleAll rs m = Ok m' \<Longrightarrow> snd ` set m' = snd ` set m \<union> snd ` set rs"
proof (induction rs arbitrary: m)
  case (Cons r rs)
  obtain p h where r: "r = (p, h)" by (cases r)
  from Cons.prems have "HandleAll rs (m @ [(parsePattern p, h)]) = Ok m'"
    by (auto simp: r Handle_def split: if_splits)
  from Cons.IH [OF this] show ?case by (auto simp: r)
qed simp

lemma match_method_in: "match_method rs m path = Some ((p, h), ms) \<Longrightarrow> (p, h) \<in> set rs"
  by (auto simp: match_method_def orelse_def of_method_def split: option.splits if_splits dest!: match_path_sound)

lemma findHandler_in:
  assumes "findHandler rs m escaped = Found h ms"
  shows "h \<in> snd ` set rs"
proof -
  define path where "path = (if m = ''CONNECT'' then escaped else cleanPath escaped)"
  note found = assms [unfolded findHandler_def, folded path_def, unfolded Let_def]
  have "\<exists>p. match_method rs m path = Some ((p, h), ms)"
  proof (cases "match_method rs m path")
    case None
    with found show ?thesis by (simp split: if_splits)
  next
    case (Some x)
    obtain p h' ms' where "x = ((p, h'), ms')" by (metis surj_pair)
    with Some found show ?thesis by (simp split: if_splits)
  qed
  then obtain p where "(p, h) \<in> set rs" by (auto dest: match_method_in)
  then show ?thesis by force
qed

text \<open>
  A contract every registered handler keeps, and that a mux keeps whose handlers do, is kept by
  whatever the root mux serves.
\<close>

locale handler_contract =
  fixes good :: "'d handler \<Rightarrow> bool" and E :: Setup
  assumes api: "h \<in> snd ` set (api_routes E) \<Longrightarrow> good h"
    and metrics: "good metrics_handle"
    and admin: "h \<in> snd ` set (admin_routes E) \<Longrightarrow> good h"
    and mux: "(\<And>h. h \<in> snd ` set m \<Longrightarrow> good h) \<Longrightarrow> good (ServeHTTP m)"
begin

lemma api_served:
  assumes "api_Handler E = Ok h"
  shows "good h"
proof -
  obtain m where m: "HandleAll (api_routes E) [] = Ok m" and h: "h = ServeHTTP m"
    using assms by (auto simp: api_Handler_def obind_Ok_iff)
  show ?thesis unfolding h using HandleAll_handlers [OF m] api by (intro mux) simp
qed

lemma root_served:
  assumes "root_mux E = Ok m"
  shows "good (ServeHTTP m)"
proof (rule mux)
  fix h assume h: "h \<in> snd ` set m"
  obtain a where a: "api_Handler E = Ok a"
    and m: "HandleAll ([(''/'', a), (''GET /metrics'', metrics_handle)] @ admin_routes E) [] = Ok m"
    using assms by (auto simp: root_mux_def obind_Ok_iff)
  from h HandleAll_handlers [OF m] have "h = a \<or> h = metrics_handle \<or> h \<in> snd ` set (admin_routes E)" by auto
  then show "good h" using api_served [OF a] metrics admin by blast
qed

end

section \<open>Guarded and answered\<close>

definition bearer_ok :: "Setup \<Rightarrow> request \<Rightarrow> bool" where
  "bearer_ok E r \<longleftrightarrow> bearerToken (rq_auth r) \<noteq> [] \<and> (\<exists>claims. su_verify E (bearerToken (rq_auth r)) = Inr claims)"

definition admin_ok :: "Setup \<Rightarrow> request \<Rightarrow> bool" where
  "admin_ok E r \<longleftrightarrow> su_token E \<noteq> [] \<and> admin_bearer (rq_auth r) = su_token E"

definition orders_ok :: "Orders \<Rightarrow> 'd Server \<Rightarrow> bool" where
  "orders_ok ord s \<longleftrightarrow> ranges_over (o_tenants ord) (tenants (tstore s)) \<and>
     (\<forall>tid st. fmlookup (tenants (tstore s)) tid = Some st \<longrightarrow> ranges_over (o_subs ord tid) (st_subs st))"

definition failed :: "reply \<Rightarrow> bool" where
  "failed rep \<longleftrightarrow> (\<exists>resp. rep = ApiReply resp \<and> status resp = 500)"

text \<open>
  A handler answers; keeps the invariant unless its answer is 500; leaves devices, addresses and
  counters alone without an accepted token, and the tenants without the admin token.
\<close>

definition well_guarded :: "nat \<Rightarrow> Setup \<Rightarrow> 'd handler \<Rightarrow> bool" where
  "well_guarded p E h \<longleftrightarrow>
     (\<forall>ord r ms s. srv_inv p s \<longrightarrow> orders_ok ord s \<longrightarrow>
        (\<exists>rep s'. h ord r ms s = Ok (rep, s') \<and> (failed rep \<or> srv_inv p s') \<and>
           (bearer_ok E r \<or> s' = s\<lparr>tstore := tstore s'\<rparr>) \<and>
           (admin_ok E r \<or> tstore s' = tstore s) \<and> cfg s' = cfg s \<and> registry s' = registry s))"

lemma well_guarded_inert: "(\<And>ord r ms s. \<exists>rep. h ord r ms s = Ok (rep, s)) \<Longrightarrow> well_guarded p E h"
  unfolding well_guarded_def by (metis (no_types, lifting) Server.surjective Server.update_convs(6))

lemma well_guarded_api: "well_guarded p E (api_handle E c)"
  unfolding well_guarded_def
proof (intro allI impI)
  fix ord r ms and s :: "'d Server"
  assume inv: "srv_inv p s" and o: "orders_ok ord s"
  let ?H = "Handler (su_parse_key E) (su_verify E) (o_now ord) (o_tenants ord) (rq_auth r) (c r) s"
  have ks: "ranges_over (o_tenants ord) (tenants (tstore s))" using o by (simp add: orders_ok_def)
  obtain resp s' where h: "?H = Ok (resp, s')" using Handler_total [OF inv ks] by blast
  have "status resp = 500 \<or> srv_inv p s'" using Handler_inv [OF inv ks h calm_reenroll] by blast
  moreover have "bearer_ok E r \<or> s' = s"
    by (cases rule: Handler_cases [of "c r" "su_parse_key E" "su_verify E" "o_now ord" "o_tenants ord" "rq_auth r" s])
      (use h in \<open>auto simp: bearer_ok_def\<close>)
  ultimately show "\<exists>rep s'. api_handle E c ord r ms s = Ok (rep, s') \<and> (failed rep \<or> srv_inv p s') \<and>
      (bearer_ok E r \<or> s' = s\<lparr>tstore := tstore s'\<rparr>) \<and>
      (admin_ok E r \<or> tstore s' = tstore s) \<and> cfg s' = cfg s \<and> registry s' = registry s"
    using h Handler_frame [OF inv ks h] by (auto simp: api_handle_def failed_def)
qed

text \<open>A route of the management API is \<open>Register\<close>'s, for the tenant of the path.\<close>

definition path_call :: "(request \<Rightarrow> string \<Rightarrow> admin_call) \<Rightarrow> bool" where
  "path_call c \<longleftrightarrow> (\<forall>r tid k. (\<exists>b. c r tid = UpdateTenant k b) \<or> c r tid = DeleteTenant k \<longrightarrow> k = tid)"

lemma path_call_subs:
  "path_call c \<Longrightarrow> orders_ok ord s \<Longrightarrow> call_subs (c r tid) (o_subs ord tid) (tstore s)"
  unfolding path_call_def call_subs_def orders_ok_def by blast

lemma admin_handle_Register:
  assumes "Enabled (su_token E)"
  shows "admin_handle E c ord r ms s =
    obind (Register (su_token E) (rq_auth r) (o_tenants ord) (o_subs ord (PathValue ms)) (o_peers ord) (store s)
        (c r (PathValue ms)) (tstore s))
      (\<lambda>(resp, ts'). Ok (AdminReply resp, s\<lparr>tstore := ts'\<rparr>))"
  using assms by (simp add: admin_handle_def Register_def)

lemma well_guarded_admin:
  assumes "Enabled (su_token E)" and c: "path_call c"
  shows "well_guarded p E (admin_handle E c)"
  unfolding well_guarded_def
proof (intro allI impI)
  fix ord r ms and s :: "'d Server"
  assume inv: "srv_inv p s" and o: "orders_ok ord s"
  from admin_route_step [OF srv_invD(2) [OF inv] path_call_subs [OF c o, of r "PathValue ms"]] obtain resp ts' where
    a: "admin_route (o_tenants ord) (o_subs ord (PathValue ms)) (o_peers ord) (store s) (c r (PathValue ms)) (tstore s) = Ok (resp, ts')"
    and st: "ts' = tstore s \<or> ts_step (tstore s) ts'" by blast
  have "srv_inv p (s\<lparr>tstore := ts'\<rparr>)"
    using st srv_inv_tstore [OF inv] ts_inv_step srv_invD(2) [OF inv] by blast
  with a inv show "\<exists>rep s'. admin_handle E c ord r ms s = Ok (rep, s') \<and> (failed rep \<or> srv_inv p s') \<and>
      (bearer_ok E r \<or> s' = s\<lparr>tstore := tstore s'\<rparr>) \<and>
      (admin_ok E r \<or> tstore s' = tstore s) \<and> cfg s' = cfg s \<and> registry s' = registry s"
    using assms(1) by (auto simp: admin_handle_def guard_def admin_ok_def Enabled_def)
qed

lemma well_guarded_mux:
  assumes "\<And>h. h \<in> snd ` set m \<Longrightarrow> well_guarded p E h"
  shows "well_guarded p E (ServeHTTP m :: 'd handler)"
  unfolding well_guarded_def
proof (intro allI impI)
  fix ord r ms and s :: "'d Server"
  assume s: "srv_inv p s" "orders_ok ord s"
  show "\<exists>rep s'. ServeHTTP m ord r ms s = Ok (rep, s') \<and> (failed rep \<or> srv_inv p s') \<and>
      (bearer_ok E r \<or> s' = s\<lparr>tstore := tstore s'\<rparr>) \<and>
      (admin_ok E r \<or> tstore s' = tstore s) \<and> cfg s' = cfg s \<and> registry s' = registry s"
  proof (cases "findHandler m (rq_method r) (rq_path r)")
    case (Found h ms')
    from assms [OF findHandler_in [OF Found]] s Found show ?thesis unfolding well_guarded_def by (simp add: ServeHTTP_def)
  qed (use s in \<open>simp_all add: ServeHTTP_def\<close>)
qed

interpretation front: handler_contract "well_guarded p E" E for p E
proof
  show "well_guarded p E h" if "h \<in> snd ` set (api_routes E)" for h :: "'d handler"
    using that by (auto simp: api_routes_def well_guarded_api)
  show "well_guarded p E (metrics_handle :: 'd handler)" by (rule well_guarded_inert) (simp add: metrics_handle_def)
  show "well_guarded p E h" if "h \<in> snd ` set (admin_routes E)" for h :: "'d handler"
  proof (cases "Enabled (su_token E)")
    case True
    have ui: "well_guarded p E (admin_ui :: 'd handler)" by (rule well_guarded_inert) (simp add: admin_ui_def)
    from True that ui show ?thesis by (auto simp: admin_routes_def path_call_def intro!: well_guarded_admin)
  next
    case False
    have "well_guarded p E (admin_off :: 'd handler)" by (rule well_guarded_inert) (simp add: admin_off_def)
    with False that show ?thesis by (simp add: admin_routes_def)
  qed
  show "well_guarded p E (ServeHTTP m)" if "\<And>h. h \<in> snd ` set m \<Longrightarrow> well_guarded p E h" for m :: "'d handler mux"
    using that by (rule well_guarded_mux)
qed

end
