(* ===== verification/Front_Routes.thy ===== *)
theory Front_Routes
  imports Front
begin

text \<open>
  Which handler a request reaches. The patterns are closed text, so the muxes are evaluated on
  them with the positions of the handlers in place of the handlers.
\<close>

section \<open>Searching by position\<close>

fun conflict_free :: "pat list \<Rightarrow> bool" where
  "conflict_free [] = True"
| "conflict_free (p # ps) = (list_all (\<lambda>q. \<not> conflictsWith q p) ps \<and> conflict_free ps)"

lemma conflict_free_append:
  "conflict_free (ps @ qs) \<longleftrightarrow> conflict_free ps \<and> conflict_free qs \<and> (\<forall>p \<in> set ps. \<forall>q \<in> set qs. \<not> conflictsWith q p)"
  by (induction ps) (auto simp: list_all_iff)

lemma HandleAll_Ok:
  "conflict_free (map fst m @ map (parsePattern \<circ> fst) rs) \<Longrightarrow>
     HandleAll rs m = Ok (m @ map (\<lambda>(p, h). (parsePattern p, h)) rs)"
proof (induction rs arbitrary: m)
  case (Cons r rs)
  obtain p h where r: "r = (p, h)" by (cases r)
  have "\<not> list_ex (\<lambda>(q, _). conflictsWith (parsePattern p) q) m"
    using Cons.prems by (fastforce simp: conflict_free_append list_ex_iff r)
  with Cons.prems show ?case using Cons.IH [of "m @ [(parsePattern p, h)]"] by (simp add: r Handle_def)
qed simp

lemma find_map_apsnd: "List.find (\<lambda>(ps, _). P ps) (map (apsnd f) rs) = map_option (apsnd f) (List.find (\<lambda>(ps, _). P ps) rs)"
  by (induction rs) auto

lemma below_map: "below x (map (apsnd f) rs) = map (apsnd f) (below x rs)"
  unfolding below_def by (induction rs) auto

lemma match_path_map: "match_path (map (apsnd f) rs) ss = map_option (apfst f) (match_path rs ss)"
proof (induction ss arbitrary: rs)
  case Nil
  show ?case by (auto simp: find_map_apsnd split: option.splits)
next
  case (Cons s ss)
  show ?case by (auto simp: find_map_apsnd below_map Cons.IH split: option.splits)
qed

lemma of_method_map: "of_method m (map (apsnd f) rs) = map (apsnd (apsnd f)) (of_method m rs)"
  by (induction rs) (auto simp: of_method_def)

lemma match_method_map: "match_method (map (apsnd f) rs) m path = map_option (apfst (apsnd f)) (match_method rs m path)"
  by (simp add: match_method_def orelse_def of_method_map match_path_map split: option.split)

lemma matchingMethods_map: "matchingMethods (map (apsnd f) rs) path = matchingMethods rs path"
  by (simp add: matchingMethods_def methods_at_def of_method_map match_path_map o_def)

lemma exactMatch_map: "exactMatch (map_option (apfst (apsnd f)) n) path = exactMatch n path"
  by (auto simp: exactMatch_def split: option.splits)

primrec map_found :: "('a \<Rightarrow> 'b) \<Rightarrow> 'a found \<Rightarrow> 'b found" where
  "map_found f (Found h ms) = Found (f h) ms"
| "map_found f (Moved p) = Moved p"
| "map_found f (NotAllowed ms) = NotAllowed ms"
| "map_found f NoPattern = NoPattern"

lemma findHandler_map: "findHandler (map (apsnd f) rs) m path = map_found f (findHandler rs m path)"
  by (simp add: findHandler_def Let_def match_method_map exactMatch_map matchingMethods_map split: option.split)

text \<open>A mux by the positions of its routes.\<close>

definition numbered :: "string list \<Rightarrow> nat mux" where
  "numbered ps = zip (map parsePattern ps) [0..<length ps]"

lemma findHandler_numbered:
  "findHandler (map (\<lambda>(p, h). (parsePattern p, h)) rs) m path =
     map_found (\<lambda>i. snd (rs ! i)) (findHandler (numbered (map fst rs)) m path)"
proof -
  have "map (\<lambda>(p, h). (parsePattern p, h)) rs = map (apsnd (\<lambda>i. snd (rs ! i))) (numbered (map fst rs))"
    by (rule nth_equalityI) (auto simp: numbered_def split_def)
  then show ?thesis by (simp only: findHandler_map)
qed

section \<open>The server's own routes\<close>

text \<open>The paths of the client's protocol, as the README lists them.\<close>

definition documented_paths :: Paths where
  "documented_paths =
     \<lparr>PathHealthz = ''/healthz'', PathEnroll = ''/api/v1/enroll'', PathHeartbeat = ''/api/v1/heartbeat'',
      PathDeregister = ''/api/v1/deregister'', PathTenants = ''/api/v1/tenants''\<rparr>"

definition api_patterns :: "string list" where
  "api_patterns = [''GET /healthz'', ''POST /api/v1/enroll'', ''POST /api/v1/heartbeat'', ''POST /api/v1/deregister'',
     ''GET /api/v1/tenants'']"

definition open_patterns :: "string list" where
  "open_patterns = [''/'', ''GET /metrics'', ''/admin/'']"

definition admin_patterns :: "string list" where
  "admin_patterns = [''/'', ''GET /metrics'', ''GET /admin/api/overview'', ''GET /admin/api/tenants'', ''POST /admin/api/tenants'',
     ''GET /admin/api/tenants/{id}'', ''PUT /admin/api/tenants/{id}'', ''DELETE /admin/api/tenants/{id}'', ''/admin/'']"

lemma no_conflicts:
  "conflict_free (map parsePattern api_patterns)" "conflict_free (map parsePattern open_patterns)"
  "conflict_free (map parsePattern admin_patterns)"
  by code_simp+

lemma api_Handler_documented:
  assumes "su_paths E = documented_paths"
  shows "(api_Handler E :: 'd handler outcome) = Ok (ServeHTTP (map (\<lambda>(p, h). (parsePattern p, h)) (api_routes E)))"
proof -
  let ?rs = "api_routes E :: (string \<times> 'd handler) list"
  have "map fst ?rs = api_patterns"
    using assms by (simp add: api_routes_def documented_paths_def api_patterns_def)
  then have "conflict_free (map (parsePattern \<circ> fst) ?rs)"
    using no_conflicts(1) by (metis map_map)
  then show ?thesis using HandleAll_Ok [of "[]" ?rs] by (simp add: api_Handler_def)
qed

definition root_routes :: "Setup \<Rightarrow> (string \<times> 'd handler) list" where
  "root_routes E = [(''/'', ServeHTTP (map (\<lambda>(p, h). (parsePattern p, h)) (api_routes E))), (''GET /metrics'', metrics_handle)] @
     admin_routes E"

lemma root_routes_patterns: "map fst (root_routes E) = (if Enabled (su_token E) then admin_patterns else open_patterns)"
  by (simp add: root_routes_def admin_routes_def admin_patterns_def open_patterns_def)

lemma root_mux_documented:
  assumes "su_paths E = documented_paths"
  shows "(root_mux E :: 'd handler mux outcome) = Ok (map (\<lambda>(p, h). (parsePattern p, h)) (root_routes E))"
proof -
  let ?rs = "root_routes E :: (string \<times> 'd handler) list"
  have "map fst ?rs = (if Enabled (su_token E) then admin_patterns else open_patterns)" by (rule root_routes_patterns)
  then have "conflict_free (map (parsePattern \<circ> fst) ?rs)"
    using no_conflicts(2,3) by (metis map_map)
  then show ?thesis
    using HandleAll_Ok [of "[]" ?rs] by (simp add: root_mux_def api_Handler_documented [OF assms] root_routes_def)
qed

text \<open>Where a request goes, by position.\<close>

definition root_find :: "Setup \<Rightarrow> string \<Rightarrow> string \<Rightarrow> nat found" where
  "root_find E m path = findHandler (numbered (if Enabled (su_token E) then admin_patterns else open_patterns)) m path"

definition api_find :: "string \<Rightarrow> string \<Rightarrow> nat found" where
  "api_find m path = findHandler (numbered api_patterns) m path"

lemma api_mux_find:
  assumes "su_paths E = documented_paths"
  shows "findHandler (map (\<lambda>(p, h). (parsePattern p, h)) (api_routes E :: (string \<times> 'd handler) list)) m path =
    map_found (\<lambda>i. snd (api_routes E ! i)) (api_find m path)"
proof -
  have "map fst (api_routes E :: (string \<times> 'd handler) list) = api_patterns"
    using assms by (simp add: api_routes_def documented_paths_def api_patterns_def)
  then show ?thesis by (simp add: findHandler_numbered api_find_def)
qed

lemma serve_find:
  assumes "su_paths E = documented_paths"
  shows "serve_root E ord r s =
    (case root_find E (rq_method r) (rq_path r) of
       Found i ms \<Rightarrow> snd (root_routes E ! i) ord r ms s
     | Moved p \<Rightarrow> Ok (MovedPermanently p, s)
     | NotAllowed allowed \<Rightarrow> Ok (MethodNotAllowed allowed, s)
     | NoPattern \<Rightarrow> Ok (PageNotFound, s))"
  by (simp add: serve_root_def root_mux_documented [OF assms] ServeHTTP_def findHandler_numbered root_routes_patterns
      root_find_def split: found.split)

lemma serve_api:
  assumes "su_paths E = documented_paths" "root_find E (rq_method r) (rq_path r) = Found 0 ms"
  shows "serve_root E ord r s =
    (case api_find (rq_method r) (rq_path r) of
       Found i ms \<Rightarrow> snd (api_routes E ! i) ord r ms s
     | Moved p \<Rightarrow> Ok (MovedPermanently p, s)
     | NotAllowed allowed \<Rightarrow> Ok (MethodNotAllowed allowed, s)
     | NoPattern \<Rightarrow> Ok (PageNotFound, s))"
  using assms(2)
  by (simp add: serve_find [OF assms(1)] root_routes_def ServeHTTP_def api_mux_find [OF assms(1)] split: found.split)

lemma api_requests:
  "root_find E ''GET'' ''/healthz'' = Found 0 []" "root_find E ''POST'' ''/api/v1/enroll'' = Found 0 []"
  "root_find E ''POST'' ''/api/v1/heartbeat'' = Found 0 []" "root_find E ''POST'' ''/api/v1/deregister'' = Found 0 []"
  "root_find E ''GET'' ''/api/v1/tenants'' = Found 0 []" "root_find E ''GET'' ''/api/v1/enroll'' = Found 0 []"
  "root_find E ''POST'' ''/metrics'' = Found 0 []" "root_find E ''GET'' ''/metrics'' = Found 1 []"
  "root_find E ''GET'' ''/admin'' = Moved ''/admin/''"
  unfolding root_find_def by (cases "Enabled (su_token E)"; simp only: if_True if_False; code_simp)+

lemma api_positions:
  "api_find ''GET'' ''/healthz'' = Found 0 []" "api_find ''POST'' ''/api/v1/enroll'' = Found 1 []"
  "api_find ''POST'' ''/api/v1/heartbeat'' = Found 2 []" "api_find ''POST'' ''/api/v1/deregister'' = Found 3 []"
  "api_find ''GET'' ''/api/v1/tenants'' = Found 4 []" "api_find ''GET'' ''/api/v1/enroll'' = NotAllowed [''POST'']"
  "api_find ''POST'' ''/metrics'' = NoPattern"
  by code_simp+

lemma pathUnescape_plain: "CHR ''%'' \<notin> set s \<Longrightarrow> pathUnescape s = s"
proof -
  have "CHR ''%'' \<notin> set s \<Longrightarrow> unescape s = Some s" by (induction s) auto
  then show "CHR ''%'' \<notin> set s \<Longrightarrow> pathUnescape s = s" by (simp add: pathUnescape_def)
qed

lemma numbered_admin:
  "numbered admin_patterns =
     [(\<lparr>pat_method = [], pat_segs = [Multi]\<rparr>, 0),
      (\<lparr>pat_method = ''GET'', pat_segs = [Lit ''metrics'']\<rparr>, 1),
      (\<lparr>pat_method = ''GET'', pat_segs = [Lit ''admin'', Lit ''api'', Lit ''overview'']\<rparr>, 2),
      (\<lparr>pat_method = ''GET'', pat_segs = [Lit ''admin'', Lit ''api'', Lit ''tenants'']\<rparr>, 3),
      (\<lparr>pat_method = ''POST'', pat_segs = [Lit ''admin'', Lit ''api'', Lit ''tenants'']\<rparr>, 4),
      (\<lparr>pat_method = ''GET'', pat_segs = [Lit ''admin'', Lit ''api'', Lit ''tenants'', Wild]\<rparr>, 5),
      (\<lparr>pat_method = ''PUT'', pat_segs = [Lit ''admin'', Lit ''api'', Lit ''tenants'', Wild]\<rparr>, 6),
      (\<lparr>pat_method = ''DELETE'', pat_segs = [Lit ''admin'', Lit ''api'', Lit ''tenants'', Wild]\<rparr>, 7),
      (\<lparr>pat_method = [], pat_segs = [Lit ''admin'', Multi]\<rparr>, 8)]"
  by code_simp

lemma numbered_open:
  "numbered open_patterns =
     [(\<lparr>pat_method = [], pat_segs = [Multi]\<rparr>, 0), (\<lparr>pat_method = ''GET'', pat_segs = [Lit ''metrics'']\<rparr>, 1),
      (\<lparr>pat_method = [], pat_segs = [Lit ''admin'', Multi]\<rparr>, 2)]"
  by code_simp

section \<open>Whatever the root mux serves\<close>

lemma serve_root_guarded:
  fixes s :: "'d Server"
  assumes "su_paths E = documented_paths" "srv_inv p s" "orders_ok ord s"
  shows "\<exists>rep s'. serve_root E ord r s = Ok (rep, s') \<and> (failed rep \<or> srv_inv p s') \<and>
    (bearer_ok E r \<or> s' = s\<lparr>tstore := tstore s'\<rparr>) \<and>
    (admin_ok E r \<or> tstore s' = tstore s) \<and> cfg s' = cfg s \<and> registry s' = registry s"
proof -
  have "well_guarded p E (ServeHTTP (map (\<lambda>(p, h). (parsePattern p, h)) (root_routes E)) :: 'd handler)"
    by (rule front.root_served) (rule root_mux_documented [OF assms(1)])
  from this [unfolded well_guarded_def, rule_format, OF assms(2,3), of r "[]"] show ?thesis
    unfolding serve_root_def root_mux_documented [OF assms(1)] obind.simps .
qed

end
