(* ===== verification/Port.thy ===== *)
theory Port
  imports Front_Routes Lease_Book
begin

text \<open>
  The server as the outside sees it: raw requests at its port, and beside them the clock, the
  reaper, the lists of keys and the watchers. Every event at the port is one of \<open>System\<close>'s, so the
  port implements the book of leases: two simulations, one above the other.
\<close>

text \<open>What \<open>run\<close> gives the root mux.\<close>

definition setup_of :: "'d Machine \<Rightarrow> Paths \<Rightarrow> Codec \<Rightarrow> 'd Running \<Rightarrow> Setup" where
  "setup_of m paths codec r =
     \<lparr>su_parse_key = m_parse_key m, su_verify = run_verify r, su_paths = paths, su_codec = codec,
      su_token = AdminToken (cfg (run_srv r))\<rparr>"

datatype port_event =
    Clock
  | Served request reply
  | Reap
  | KeyList "WgList result"
  | Watching

inductive port_step :: "Setup \<Rightarrow> 'd System \<Rightarrow> port_event \<Rightarrow> 'd System \<Rightarrow> bool"
  for E :: Setup where
  clock: "sy_now S \<le> t \<Longrightarrow> port_step E S Clock (S\<lparr>sy_now := t\<rparr>)"
| served: "orders_ok ord (sy_srv S) \<Longrightarrow> o_now ord = sy_now S \<Longrightarrow> serve_root E ord r (sy_srv S) = Ok (rep, s') \<Longrightarrow>
    port_step E S (Served r rep) (S\<lparr>sy_srv := s'\<rparr>)"
| reap: "ranges_over ks (peers (store (sy_srv S))) \<Longrightarrow>
    port_step E S Reap (S\<lparr>sy_srv := ReapExpired (su_parse_key E) (sy_now S) ks (sy_srv S)\<rparr>)"
| key_list: "ranges_over ks (peers (store (sy_srv S))) \<Longrightarrow>
    port_step E S (KeyList fetched) (S\<lparr>sy_srv := refresh_turn (su_parse_key E) (sy_now S) ks fetched (sy_srv S)\<rparr>)"
| watching: "ts_step (tstore (sy_srv S)) ts' \<Longrightarrow>
    port_step E S Watching (S\<lparr>sy_srv := (sy_srv S)\<lparr>tstore := ts'\<rparr>\<rparr>)"

definition quiet :: "port_event \<Rightarrow> bool" where
  "quiet e \<longleftrightarrow> (\<forall>r rep. e = Served r rep \<longrightarrow> \<not> failed rep)"

section \<open>The call of a request\<close>

definition calls :: "Setup \<Rightarrow> request \<Rightarrow> call list" where
  "calls E r =
     [Healthz, Enroll (j_enroll (su_codec E) (rq_body r)), Heartbeat (j_heartbeat (su_codec E) (rq_body r)),
      Deregister (j_deregister (su_codec E) (rq_body r)), Tenants]"

definition called :: "Setup \<Rightarrow> request \<Rightarrow> call option" where
  "called E r =
     (case root_find E (rq_method r) (rq_path r) of
        Found i ms \<Rightarrow>
          (if i \<noteq> 0 then None
           else case api_find (rq_method r) (rq_path r) of Found j ms' \<Rightarrow> Some (calls E r ! j) | _ \<Rightarrow> None)
      | _ \<Rightarrow> None)"

lemma numbered_Found: "findHandler (numbered ps) m path = Found i ms \<Longrightarrow> i < length ps"
  by (drule findHandler_in) (auto simp: numbered_def set_zip)

lemma api_routes_nth:
  assumes "j < length api_patterns"
  shows "snd (api_routes E ! j) = (api_handle E (\<lambda>r. calls E r ! j) :: 'd handler)"
proof -
  from assms have "j \<in> {0, 1, 2, 3, 4}" by (auto simp: api_patterns_def)
  then show ?thesis by (auto simp: api_routes_def calls_def)
qed

lemma serve_called:
  assumes "su_paths E = documented_paths" "called E r = Some c"
  shows "serve_root E ord r s =
    obind (Handler (su_parse_key E) (su_verify E) (o_now ord) (o_tenants ord) (rq_auth r) c s)
      (\<lambda>(resp, s'). Ok (ApiReply resp, s'))"
proof -
  from assms(2) obtain ms j ms' where f: "root_find E (rq_method r) (rq_path r) = Found 0 ms"
      "api_find (rq_method r) (rq_path r) = Found j ms'" "c = calls E r ! j"
    by (auto simp: called_def split: found.splits if_splits)
  have "j < length api_patterns" using numbered_Found f(2) unfolding api_find_def by blast
  then show ?thesis using f by (simp add: serve_api [OF assms(1) f(1)] api_routes_nth api_handle_def)
qed

text \<open>A request that is no call of the enrolment API reads, or is a call of the management API.\<close>

lemma root_routes_nth:
  assumes "0 < i" "i < length (root_routes E :: (string \<times> 'd handler) list)"
  obtains "\<forall>ord r ms s. \<exists>rep. snd (root_routes E ! i) ord r ms (s :: 'd Server) = Ok (rep, s) \<and> \<not> failed rep"
  | c where "snd (root_routes E ! i) = (admin_handle E c :: 'd handler)" "path_call c" "Enabled (su_token E)"
proof (cases "i = 1")
  case True
  then show ?thesis by (intro that(1)) (simp add: root_routes_def metrics_handle_def failed_def)
next
  case False
  with assms have "root_routes E ! i = (admin_routes E ! (i - 2) :: string \<times> 'd handler)" "i - 2 < length (admin_routes E :: (string \<times> 'd handler) list)"
    by (auto simp: root_routes_def nth_Cons split: nat.split)
  then have "snd (root_routes E ! i) \<in> snd ` set (admin_routes E :: (string \<times> 'd handler) list)"
    by (metis image_eqI nth_mem)
  then consider "snd (root_routes E ! i) \<in> {admin_off, admin_ui :: 'd handler}"
    | c where "snd (root_routes E ! i) = (admin_handle E c :: 'd handler)" "path_call c" "Enabled (su_token E)"
    by (auto simp: admin_routes_def path_call_def split: if_splits)
  then show ?thesis
    by cases (auto intro: that simp: admin_off_def admin_ui_def failed_def)
qed

section \<open>An event at the port is an event of the server\<close>

text \<open>A page is as good as a health check: neither changes anything.\<close>

fun stands_for :: "Setup \<Rightarrow> port_event \<Rightarrow> event \<Rightarrow> bool" where
  "stands_for E Clock e = (e = Tick)"
| "stands_for E (Served r rep) e =
     (case called E r of
        Some c \<Rightarrow> (\<exists>resp. rep = ApiReply resp \<and> e = Request (rq_auth r) c resp)
      | None \<Rightarrow> (\<exists>resp. status resp = 200 \<and> e = Request (rq_auth r) Healthz resp) \<or> (\<exists>c resp. rep = AdminReply resp \<and> e = AdminCall c resp))"
| "stands_for E Reap e = (e = Reaped)"
| "stands_for E (KeyList f) e = (e = Refreshed f)"
| "stands_for E Watching e = (e = WatchStep)"

lemma stands_for_calm: "quiet e \<Longrightarrow> stands_for E e f \<Longrightarrow> calm f"
  by (cases e) (auto simp: quiet_def calm_def failed_def split: option.splits)

lemma idle_event:
  "orders_ok ord (sy_srv S) \<Longrightarrow>
     sys_step pk verify S (Request hdr Healthz (writeJSON 200 (StatusBody ''ok''))) (S :: 'd System)"
  using sys_step.request [of "o_tenants ord" S pk verify hdr Healthz]
  by (simp add: orders_ok_def Handler_def dispatch_def handleHealthz_def)

lemma served_call:
  assumes paths: "su_paths E = documented_paths" and o: "orders_ok ord (sy_srv S)" "o_now ord = sy_now S"
    and sv: "serve_root E ord r (sy_srv S) = Ok (rep, s')" and c: "called E r = Some c"
  shows "\<exists>e. sys_step (su_parse_key E) (su_verify E) S e (S\<lparr>sy_srv := s'\<rparr>) \<and> stands_for E (Served r rep) e"
proof -
  have ks: "ranges_over (o_tenants ord) (tenants (tstore (sy_srv S)))" using o by (simp add: orders_ok_def)
  obtain resp where h: "Handler (su_parse_key E) (su_verify E) (sy_now S) (o_tenants ord) (rq_auth r) c (sy_srv S) = Ok (resp, s')"
    and "rep = ApiReply resp"
    using sv o(2) by (auto simp: serve_called [OF paths c] obind_Ok_iff)
  with c show ?thesis
    using sys_step.request [OF ks h] by (intro exI [of _ "Request (rq_auth r) c resp"]) simp
qed

lemma served_admin:
  assumes o: "orders_ok ord (sy_srv S)" and c: "path_call c" "Enabled (su_token E)" "called E r = None"
    and h: "admin_handle E c ord r ms (sy_srv S) = Ok (rep, s')"
  shows "\<exists>e. sys_step (su_parse_key E) (su_verify E) S e (S\<lparr>sy_srv := s'\<rparr>) \<and> stands_for E (Served r rep) e"
proof -
  obtain resp ts' where a: "Register (su_token E) (rq_auth r) (o_tenants ord) (o_subs ord (PathValue ms)) (o_peers ord)
      (store (sy_srv S)) (c r (PathValue ms)) (tstore (sy_srv S)) = Ok (resp, ts')"
      "rep = AdminReply resp" "s' = (sy_srv S)\<lparr>tstore := ts'\<rparr>"
    using h c(2) by (auto simp: admin_handle_Register obind_Ok_iff)
  from sys_step.admin [OF path_call_subs [OF c(1) o] a(1)] a(2,3) c(3) show ?thesis
    by (intro exI [of _ "AdminCall (c r (PathValue ms)) resp"]) simp
qed

lemma served_event:
  fixes S :: "'d System"
  assumes paths: "su_paths E = documented_paths" and o: "orders_ok ord (sy_srv S)" "o_now ord = sy_now S"
    and sv: "serve_root E ord r (sy_srv S) = Ok (rep, s')"
  shows "\<exists>e. sys_step (su_parse_key E) (su_verify E) S e (S\<lparr>sy_srv := s'\<rparr>) \<and> stands_for E (Served r rep) e"
proof (cases "called E r")
  case (Some c)
  with assms show ?thesis by (intro served_call)
next
  case None
  have inert: ?thesis if "s' = sy_srv S"
    using idle_event [OF o(1), of "su_parse_key E" "su_verify E" "rq_auth r"] that None
    by (intro exI [of _ "Request (rq_auth r) Healthz (writeJSON 200 (StatusBody ''ok''))"]) (simp add: writeJSON_def)
  show ?thesis
  proof (cases "root_find E (rq_method r) (rq_path r)")
    case (Found i ms)
    show ?thesis
    proof (cases "i = 0")
      case True
      with Found None have "\<forall>j ms'. api_find (rq_method r) (rq_path r) \<noteq> Found j ms'" by (simp add: called_def split: found.splits)
      with sv Found True show ?thesis by (intro inert) (auto simp: serve_api [OF paths] split: found.splits)
    next
      case False
      then have i: "0 < i" "i < length (root_routes E :: (string \<times> 'd handler) list)"
        using numbered_Found [of _ "rq_method r" "rq_path r" i ms] Found root_routes_patterns [of E]
        unfolding root_find_def by (simp, metis length_map)
      have h: "snd (root_routes E ! i) ord r ms (sy_srv S) = Ok (rep, s')" using sv Found by (simp add: serve_find [OF paths])
      from i show ?thesis
      proof (cases rule: root_routes_nth)
        case 1
        with h show ?thesis by (intro inert) (metis outcome.inject prod.inject)
      next
        case (2 c)
        with h None o(1) show ?thesis by (intro served_admin) simp_all
      qed
    qed
  qed (rule inert, use sv in \<open>simp add: serve_find [OF paths]\<close>)+
qed

lemma port_event:
  assumes "su_paths E = documented_paths" "port_step E S e S'"
  shows "\<exists>f. sys_step (su_parse_key E) (su_verify E) S f S' \<and> stands_for E e f"
  using assms(2)
proof (cases rule: port_step.cases)
  case (served ord r rep s')
  then show ?thesis using served_event [OF assms(1)] by simp
qed (auto intro: sys_step.intros)

text \<open>The port over the server over the book.\<close>

definition listening :: "Setup \<Rightarrow> nat \<Rightarrow> duration \<Rightarrow> IPNet \<Rightarrow> 'd System \<Rightarrow> bool" where
  "listening E p ttl n S \<longleftrightarrow> su_paths E = documented_paths \<and> serving p ttl n S"

interpretation port: simulates_through "port_step E" "sys_step (su_parse_key E) (su_verify E)" "listening E p ttl n" quiet
    "\<lambda>S. S" "stands_for E" "book_step ttl (leased n p)" "serving p ttl n" calm book_of "explains (su_verify E)"
  for E p ttl n
proof
  show "\<exists>f. sys_step (su_parse_key E) (su_verify E) S f S' \<and> stands_for E e f"
    if "listening E p ttl n S" "quiet e" "port_step E S e S'" for S S' :: "'d System" and e
    using port_event that by (auto simp: listening_def)
  then show "listening E p ttl n S'"
    if "listening E p ttl n S" "quiet e" "port_step E S e S'" for S S' :: "'d System" and e
    using that serving_step stands_for_calm unfolding listening_def by metis
qed (auto simp: listening_def intro: stands_for_calm)

text \<open>Which action of the book an event at the port may be.\<close>

fun port_explains :: "Setup \<Rightarrow> port_event \<Rightarrow> action \<Rightarrow> bool" where
  "port_explains E Clock a = (a = Elapse)"
| "port_explains E (Served r rep) a =
     (a = Idle \<or> (\<exists>c claims. called E r = Some c \<and> su_verify E (bearerToken (rq_auth r)) = Inr claims \<and> a \<in> acts c (c_Subject claims)))"
| "port_explains E Reap a = (a = Expire)"
| "port_explains E (KeyList f) a = (a = Idle \<or> (\<exists>A l. f = Inr l \<and> a = Revoke A))"
| "port_explains E Watching a = (a = Idle)"

lemma stands_for_keys:
  assumes "stands_for E e f" "\<And>rq rep req. e = Served rq rep \<Longrightarrow> called E rq = Some (Enroll (Inr req)) \<Longrightarrow> er_PublicKey req \<in> C"
  shows "keys_in C f"
  using assms by (cases e) (auto simp: keys_in_def split: option.splits)

lemma port_explains_through: "stands_for E e f \<Longrightarrow> explains (su_verify E) f a \<Longrightarrow> port_explains E e a"
  by (cases e) (auto split: option.splits)

section \<open>From the start\<close>

lemma run_serving:
  assumes pc: "parses_ipv4 (m_parse_cidr m)" and r: "run m d = (Inr r, d')"
    and c: "m_load m = Inr c" and n: "parse_ipv4_cidr (VPNCIDR c) = Some (ip, n)"
  shows "\<exists>p. ipv4_net n p \<and> serving p (LeaseTTL c) n \<lparr>sy_srv = run_srv r, sy_now = now\<rparr>"
    and "book_of \<lparr>sy_srv = run_srv r, sy_now = now\<rparr> = \<lparr>bk_now = now, bk_leases = Map.empty\<rparr>"
    and "cfg (run_srv r) = c"
proof -
  obtain v a g pub where al: "New_Allocator (m_parse_cidr m) (VPNCIDR c) = Inr a"
    and s: "run_servers m c v pub a g d' = Inr r"
    by (rule run_Inr [OF r]) (use c in auto)
  let ?s = "New_Server c a New_Store g d' (New_TStore (PushRoutes c) (DNS c)) pub"
  have eq: "run_srv r = ?s\<lparr>registry := registry (run_srv r)\<rparr>" by (rule run_servers_Inr(1) [OF s])
  have fields: "store (run_srv r) = New_Store" "tstore (run_srv r) = New_TStore (PushRoutes c) (DNS c)" "alloc (run_srv r) = a"
    by (subst eq, simp)+
  show cfg: "cfg (run_srv r) = c" by (subst eq) simp
  show "book_of \<lparr>sy_srv = run_srv r, sy_now = now\<rparr> = \<lparr>bk_now = now, bk_leases = Map.empty\<rparr>"
    by (simp add: book_of_def fields)
  have "parse_ipv4_cidr (VPNCIDR c) \<noteq> None" using n by simp
  then obtain p ip' where p: "pool_inv p a" "taken a = {serverIP a}" "m_parse_cidr m (VPNCIDR c) = Inr (ip', network a)"
    by (rule New_Allocator_inv [OF pc _ al])
  have net: "network a = n" using p(3) pc n by (simp add: parses_ipv4_def)
  have "srv_inv p (run_srv r)" by (subst eq) (simp add: srv_inv_registry New_Server_inv [OF p(1,2)])
  moreover have "ipv4_net n p" using p(1) net by (simp add: pool_inv_def)
  ultimately have "ipv4_net n p \<and> serving p (LeaseTTL c) n \<lparr>sy_srv = run_srv r, sy_now = now\<rparr>"
    by (simp add: serving_def sys_inv_def ts_fresh_New leases_bounded_def fields cfg net)
  then show "\<exists>p. ipv4_net n p \<and> serving p (LeaseTTL c) n \<lparr>sy_srv = run_srv r, sy_now = now\<rparr>" by blast
qed

text \<open>Every request can be served in every state the port reaches.\<close>

lemma port_receptive:
  assumes "listening E p ttl n S" "orders_ok ord (sy_srv S)" "o_now ord = sy_now S"
  shows "\<exists>rep S'. port_step E S (Served rq rep) S'"
proof -
  have paths: "su_paths E = documented_paths" and inv: "srv_inv p (sy_srv S)"
    using assms(1) by (simp_all add: listening_def serving_def sys_inv_def)
  obtain rep s' where "serve_root E ord rq (sy_srv S) = Ok (rep, s')"
    using serve_root_guarded [OF paths inv assms(2)] by blast
  from port_step.served [OF assms(2,3) this] show ?thesis by blast
qed

end
