(* ===== verification/Logging.thy ===== *)
theory Logging
  imports Front_Routes
begin

text \<open>
  The middleware around the mux of the enrolment API: \<open>withLogging\<close> hands the handlers a
  \<open>statusWriter\<close>, which notes the status on its way to the connection, and logs it.
\<close>

section \<open>Writers\<close>

text \<open>What a handler calls on its \<open>http.ResponseWriter\<close>.\<close>

datatype writer_call = WriteHeader nat | WriteBody

text \<open>
  The status the connection sends: that of the first \<open>WriteHeader\<close>, or 200 when a body or the end
  comes first. A later \<open>WriteHeader\<close> does nothing.
\<close>

fun wire_status :: "writer_call list \<Rightarrow> nat" where
  "wire_status (WriteHeader code # ws) = code"
| "wire_status _ = 200"

record statusWriter =
  sw_ResponseWriter :: "writer_call list"
  sw_status :: nat

definition sw_WriteHeader :: "nat \<Rightarrow> statusWriter \<Rightarrow> statusWriter" where
  "sw_WriteHeader code w = w\<lparr>sw_status := code, sw_ResponseWriter := sw_ResponseWriter w @ [WriteHeader code]\<rparr>"

text \<open>\<open>Write\<close> is the embedded writer's.\<close>

definition sw_Write :: "statusWriter \<Rightarrow> statusWriter" where
  "sw_Write w = w\<lparr>sw_ResponseWriter := sw_ResponseWriter w @ [WriteBody]\<rparr>"

primrec sw_call :: "writer_call \<Rightarrow> statusWriter \<Rightarrow> statusWriter" where
  "sw_call (WriteHeader code) w = sw_WriteHeader code w"
| "sw_call WriteBody w = sw_Write w"

text \<open>
  The calls behind an answer of the API: \<open>writeJSON\<close>, a bare status, and what the mux answers itself.
  \<open>other\<close> stands for the answers of other handlers, none of which is under this mux.
\<close>

primrec reply_calls :: "(reply \<Rightarrow> writer_call list) \<Rightarrow> reply \<Rightarrow> writer_call list" where
  "reply_calls other (ApiReply resp) = WriteHeader (status resp) # (if body resp = NoBody then [] else [WriteBody])"
| "reply_calls other (AdminReply resp) = other (AdminReply resp)"
| "reply_calls other (MovedPermanently p) = [WriteHeader 301, WriteBody]"
| "reply_calls other (MethodNotAllowed ms) = [WriteHeader 405, WriteBody]"
| "reply_calls other PageNotFound = [WriteHeader 404, WriteBody]"
| "reply_calls other (MetricsPage m l) = other (MetricsPage m l)"
| "reply_calls other (UiFile m p) = other (UiFile m p)"

record log_line =
  lg_method :: string
  lg_path :: string
  lg_status :: nat

text \<open>The answer, what reaches the connection, and the line of the log.\<close>

definition withLogging ::
    "(reply \<Rightarrow> writer_call list) \<Rightarrow> 'd handler \<Rightarrow> Orders \<Rightarrow> request \<Rightarrow> string list \<Rightarrow> 'd Server \<Rightarrow>
       ((reply \<times> writer_call list \<times> log_line) \<times> 'd Server) outcome" where
  "withLogging other next_h ord r ms s =
     obind (next_h ord r ms s) (\<lambda>(rep, s').
       let sw = fold sw_call (reply_calls other rep) \<lparr>sw_ResponseWriter = [], sw_status = 200\<rparr>
       in Ok ((rep, sw_ResponseWriter sw,
            \<lparr>lg_method = rq_method r, lg_path = pathUnescape (rq_path r), lg_status = sw_status sw\<rparr>), s'))"

section \<open>Nothing is changed on the way\<close>

lemma sw_passes: "sw_ResponseWriter (fold sw_call ws w) = sw_ResponseWriter w @ ws"
proof (induction ws arbitrary: w)
  case (Cons c ws)
  then show ?case by (cases c) (simp_all add: sw_WriteHeader_def sw_Write_def)
qed simp

text \<open>The status noted is the last one written; with one at the front, the one that is sent.\<close>

lemma sw_status_once: "\<forall>code. WriteHeader code \<notin> set ws \<Longrightarrow> sw_status (fold sw_call ws w) = sw_status w"
proof (induction ws arbitrary: w)
  case (Cons c ws)
  then show ?case by (cases c) (auto simp: sw_Write_def)
qed simp

definition writes_once :: "writer_call list \<Rightarrow> bool" where
  "writes_once ws \<longleftrightarrow> (\<exists>code rest. ws = WriteHeader code # rest \<and> (\<forall>c. WriteHeader c \<notin> set rest))"

lemma writes_once_noted: "writes_once ws \<Longrightarrow> sw_status (fold sw_call ws w) = wire_status ws"
  by (auto simp: writes_once_def sw_status_once sw_WriteHeader_def)

text \<open>What the API's mux answers.\<close>

definition api_reply :: "reply \<Rightarrow> bool" where
  "api_reply rep \<longleftrightarrow> (\<exists>resp. rep = ApiReply resp) \<or> (\<exists>p. rep = MovedPermanently p) \<or>
     (\<exists>ms. rep = MethodNotAllowed ms) \<or> rep = PageNotFound"

lemma api_reply_once: "api_reply rep \<Longrightarrow> writes_once (reply_calls other rep)"
  by (auto simp: api_reply_def writes_once_def)

lemma api_mux_reply:
  assumes "api_Handler E = Ok h" "h ord r ms s = Ok (rep, s')"
  shows "api_reply rep"
proof -
  obtain m where m: "HandleAll (api_routes E) [] = Ok m" and h: "h = ServeHTTP m"
    using assms(1) by (auto simp: api_Handler_def obind_Ok_iff)
  show ?thesis
  proof (cases "findHandler m (rq_method r) (rq_path r)")
    case (Found h' ms')
    have "h' \<in> snd ` set (api_routes E)" using findHandler_in [OF Found] HandleAll_handlers [OF m] by simp
    then obtain c where "h' = api_handle E c" by (auto simp: api_routes_def)
    then show ?thesis using assms(2) Found by (auto simp: h ServeHTTP_def api_handle_def obind_Ok_iff api_reply_def)
  qed (use assms(2) in \<open>auto simp: h ServeHTTP_def api_reply_def\<close>)
qed

end
