(* ===== verification/Process.thy ===== *)
theory Process
  imports Startup
begin

text \<open>
  How \<open>run\<close> and \<open>main\<close> end: what the HTTP server is started with, the exit status, the log level,
  and the shutdown, in which the goroutine that waits for the requests in flight races with the
  return of \<open>main\<close>.
\<close>

section \<open>The end of main\<close>

datatype serve_error = ErrServerClosed | ServeError error

text \<open>What the two ways of serving return, on the listen address.\<close>

record Listener =
  ListenAndServe :: "string \<Rightarrow> serve_error"
  ListenAndServeTLS :: "string \<Rightarrow> string \<Rightarrow> string \<Rightarrow> serve_error"

definition run_end :: "Config \<Rightarrow> Listener \<Rightarrow> error option" where
  "run_end c l =
     (let err = (if TLSCert c \<noteq> [] \<and> TLSKey c \<noteq> [] then ListenAndServeTLS l (ListenAddr c) (TLSCert c) (TLSKey c)
                 else ListenAndServe l (ListenAddr c))
      in case err of ErrServerClosed \<Rightarrow> None | ServeError e \<Rightarrow> Some e)"

definition main :: "'d Machine \<Rightarrow> Listener \<Rightarrow> 'd \<Rightarrow> nat" where
  "main m l d =
     (case fst (run m d) of
        Inl err \<Rightarrow> 1
      | Inr r \<Rightarrow> (case run_end (cfg (run_srv r)) l of None \<Rightarrow> 0 | Some err \<Rightarrow> 1))"

datatype level = LevelDebug | LevelInfo

definition logLevel :: "(string \<Rightarrow> string) \<Rightarrow> level" where
  "logLevel getenv = (if getenv ''DEBUG'' \<noteq> [] then LevelDebug else LevelInfo)"

lemma main_zero:
  "main m l d = 0 \<longleftrightarrow> (\<exists>r d'. run m d = (Inr r, d') \<and> run_end (cfg (run_srv r)) l = None)"
  by (cases "run m d"; cases "fst (run m d)") (auto simp: main_def split: option.splits)

section \<open>The shutdown\<close>

text \<open>
  The process while it serves. On a signal \<open>Shutdown\<close> closes the listener, \<open>ListenAndServe\<close>
  returns at once with \<open>ErrServerClosed\<close>, and \<open>Shutdown\<close> itself waits for the requests in
  flight, in a goroutine of its own; \<open>run\<close> returns when \<open>ListenAndServe\<close> does.
\<close>

record process =
  in_flight :: nat
  stopping :: bool
  exited :: bool

inductive proc_step :: "process \<Rightarrow> process \<Rightarrow> bool" where
  accept: "\<not> stopping P \<Longrightarrow> \<not> exited P \<Longrightarrow> proc_step P (P\<lparr>in_flight := Suc (in_flight P)\<rparr>)"
| answer: "in_flight P = Suc n \<Longrightarrow> \<not> exited P \<Longrightarrow> proc_step P (P\<lparr>in_flight := n\<rparr>)"
| signal: "\<not> exited P \<Longrightarrow> proc_step P (P\<lparr>stopping := True\<rparr>)"
| leave: "stopping P \<Longrightarrow> \<not> exited P \<Longrightarrow> proc_step P (P\<lparr>exited := True\<rparr>)"

text \<open>The process may exit with every request of the moment unanswered.\<close>

lemma shutdown_cuts_requests:
  "proc_step\<^sup>*\<^sup>* \<lparr>in_flight = n, stopping = False, exited = False\<rparr> \<lparr>in_flight = n, stopping = True, exited = True\<rparr>"
proof -
  have "proc_step \<lparr>in_flight = n, stopping = False, exited = False\<rparr> \<lparr>in_flight = n, stopping = True, exited = False\<rparr>"
    using proc_step.signal [of "\<lparr>in_flight = n, stopping = False, exited = False\<rparr>"] by simp
  moreover have "proc_step \<lparr>in_flight = n, stopping = True, exited = False\<rparr> \<lparr>in_flight = n, stopping = True, exited = True\<rparr>"
    using proc_step.leave [of "\<lparr>in_flight = n, stopping = True, exited = False\<rparr>"] by simp
  ultimately show ?thesis by (meson rtranclp.rtrancl_into_rtrancl rtranclp.rtrancl_refl)
qed

text \<open>An exit is always asked for, and nothing is accepted or answered after it.\<close>

lemma exit_asked: "proc_step\<^sup>*\<^sup>* P P' \<Longrightarrow> (exited P \<longrightarrow> stopping P) \<Longrightarrow> exited P' \<longrightarrow> stopping P'"
proof (induction rule: rtranclp_induct)
  case (step P1 P2)
  from step.hyps(2) step.IH [OF step.prems] show ?case by cases auto
qed

lemma exit_final: "proc_step P P' \<Longrightarrow> \<not> exited P"
  by (cases rule: proc_step.cases) auto

end
