(* ===== verification/Route_Table.thy ===== *)
theory Route_Table
  imports Front_Routes
begin

text \<open>
  The routes of the server's port as a table over the method and the segments of a path, and that
  the two muxes decide by it. Patterns of which no two match the same path are searched in any
  order; what is left of the search is the two rests, \<open>/\<close> and \<open>/admin/\<close>.
\<close>

section \<open>The table\<close>

text \<open>A request, and what the two interfaces do with a call they have decoded.\<close>

definition http_req :: "string \<Rightarrow> string \<Rightarrow> string \<Rightarrow> string \<Rightarrow> request" where
  "http_req m p a b = \<lparr>rq_method = m, rq_path = p, rq_auth = a, rq_body = b\<rparr>"

definition api_call :: "Setup \<Rightarrow> Orders \<Rightarrow> string \<Rightarrow> call \<Rightarrow> 'd Server \<Rightarrow> (reply \<times> 'd Server) outcome" where
  "api_call E ord a c s =
     obind (Handler (su_parse_key E) (su_verify E) (o_now ord) (o_tenants ord) a c s) (\<lambda>(resp, s'). Ok (ApiReply resp, s'))"

definition manage :: "Setup \<Rightarrow> Orders \<Rightarrow> string \<Rightarrow> string \<Rightarrow> admin_call \<Rightarrow> 'd Server \<Rightarrow> (reply \<times> 'd Server) outcome" where
  "manage E ord a tid c s =
     obind (Register (su_token E) a (o_tenants ord) (o_subs ord tid) (o_peers ord) (store s) c (tstore s))
       (\<lambda>(resp, ts'). Ok (AdminReply resp, s\<lparr>tstore := ts'\<rparr>))"

lemma http_req_simps [simp]:
  "rq_method (http_req m p a b) = m" "rq_path (http_req m p a b) = p" "rq_auth (http_req m p a b) = a" "rq_body (http_req m p a b) = b"
  by (simp_all add: http_req_def)

definition reading :: "string \<Rightarrow> bool" where
  "reading m \<longleftrightarrow> m = ''GET'' \<or> m = ''HEAD''"

text \<open>The enrolment API: a call, 405 with the methods its path has, or 404.\<close>

definition api_table :: "Setup \<Rightarrow> Orders \<Rightarrow> request \<Rightarrow> string list \<Rightarrow> 'd Server \<Rightarrow> (reply \<times> 'd Server) outcome" where
  "api_table E ord r segs s =
     (let m = rq_method r;
          read = (\<lambda>c. if reading m then api_call E ord (rq_auth r) c s else Ok (MethodNotAllowed [''GET'', ''HEAD''], s));
          post = (\<lambda>c. if m = ''POST'' then api_call E ord (rq_auth r) c s else Ok (MethodNotAllowed [''POST''], s))
      in if segs = [''healthz''] then read Healthz
         else if segs = [''api'', ''v1'', ''tenants''] then read Tenants
         else if segs = [''api'', ''v1'', ''enroll''] then post (Enroll (j_enroll (su_codec E) (rq_body r)))
         else if segs = [''api'', ''v1'', ''heartbeat''] then post (Heartbeat (j_heartbeat (su_codec E) (rq_body r)))
         else if segs = [''api'', ''v1'', ''deregister''] then post (Deregister (j_deregister (su_codec E) (rq_body r)))
         else Ok (PageNotFound, s))"

text \<open>
  The management API, below \<open>/admin/\<close>: its calls go through the guard, all else, another method
  on the path of a call included, is the UI's.
\<close>

definition admin_table :: "Setup \<Rightarrow> Orders \<Rightarrow> request \<Rightarrow> string list \<Rightarrow> 'd Server \<Rightarrow> (reply \<times> 'd Server) outcome" where
  "admin_table E ord r rest s =
     (let m = rq_method r; call = (\<lambda>tid c. manage E ord (rq_auth r) tid c s);
          ui = Ok (UiFile m (rq_path r), s); doc = j_tenant (su_codec E) (rq_body r)
      in if rest = [''api'', ''overview''] then (if reading m then call [] GetOverview else ui)
         else if rest = [''api'', ''tenants'']
           then (if reading m then call [] ListTenants else if m = ''POST'' then call [] (CreateTenant doc) else ui)
         else if length rest = 3 \<and> butlast rest = [''api'', ''tenants''] \<and> last rest \<noteq> ''/''
           then (let tid = last rest
                 in if reading m then call tid (GetTenant tid)
                    else if m = ''PUT'' then call tid (UpdateTenant tid doc)
                    else if m = ''DELETE'' then call tid (DeleteTenant tid) else ui)
         else ui)"

definition route_table :: "Setup \<Rightarrow> Orders \<Rightarrow> request \<Rightarrow> string list \<Rightarrow> 'd Server \<Rightarrow> (reply \<times> 'd Server) outcome" where
  "route_table E ord r segs s =
     (if segs = [''metrics''] \<and> reading (rq_method r)
      then Ok (MetricsPage (enrolls s) (Collect (o_tenants ord) (o_peers ord) (store s) (tstore s)), s)
      else if segs = [''admin''] then Ok (MovedPermanently ''/admin/'', s)
      else if segs \<noteq> [] \<and> hd segs = ''admin''
        then (if su_token E = [] then Ok (AdminReply \<lparr>a_status = 503, a_body = AdminDisabled\<rparr>, s)
              else admin_table E ord r (tl segs) s)
      else api_table E ord r segs s)"

section \<open>Patterns that exclude each other\<close>

fun first_match :: "(segment list \<times> 'r) list \<Rightarrow> string list \<Rightarrow> ('r \<times> string list) option" where
  "first_match [] ss = None"
| "first_match ((ps, r) # rs) ss = (case seg_match ps ss of Some ms \<Rightarrow> Some (r, ms) | None \<Rightarrow> first_match rs ss)"

lemma first_match_Some:
  "first_match rs ss = Some (r, ms) \<Longrightarrow> \<exists>ps. (ps, r) \<in> set rs \<and> seg_match ps ss = Some ms"
  by (induction rs ss rule: first_match.induct) (auto split: option.splits)

lemma first_match_None: "first_match rs ss = None \<longleftrightarrow> (\<forall>(ps, r) \<in> set rs. seg_match ps ss = None)"
  by (induction rs ss rule: first_match.induct) (auto split: option.splits)

fun exclusive :: "segment list list \<Rightarrow> string list \<Rightarrow> bool" where
  "exclusive [] ss = True"
| "exclusive (ps # pss) ss = ((seg_match ps ss \<noteq> None \<longrightarrow> (\<forall>qs \<in> set pss. seg_match qs ss = None)) \<and> exclusive pss ss)"

lemma exclusiveD:
  "exclusive (map fst rs) ss \<Longrightarrow> x \<in> set rs \<Longrightarrow> y \<in> set rs \<Longrightarrow> seg_match (fst x) ss \<noteq> None \<Longrightarrow>
   seg_match (fst y) ss \<noteq> None \<Longrightarrow> x = y"
  by (induction rs) auto

lemma match_path_first:
  assumes "exclusive (map fst rs) ss"
  shows "match_path rs ss = first_match rs ss"
proof (cases "match_path rs ss")
  case None
  then show ?thesis using first_match_None [of rs ss] by (simp add: match_path_None)
next
  case (Some x)
  obtain r ms where x: "x = (r, ms)" by (cases x)
  obtain ps where ps: "(ps, r) \<in> set rs" "seg_match ps ss = Some ms"
    using match_path_sound [OF Some [unfolded x]] by blast
  then have "first_match rs ss \<noteq> None" using first_match_None [of rs ss] by fastforce
  then obtain r' ms' where f: "first_match rs ss = Some (r', ms')" by auto
  from first_match_Some [OF this] obtain ps' where ps': "(ps', r') \<in> set rs" "seg_match ps' ss = Some ms'" by blast
  have "(ps, r) = (ps', r')" using exclusiveD [OF assms ps(1) ps'(1)] ps(2) ps'(2) by simp
  with f ps ps' Some x show ?thesis by simp
qed

lemma seg_match_lits: "seg_match (map Lit ls) ss = (if ss = ls then Some [] else None)"
proof (induction ls arbitrary: ss)
  case Nil
  show ?case by (cases ss) auto
next
  case (Cons l ls)
  then show ?case by (cases ss) auto
qed

lemma seg_match_lits_wild:
  "seg_match (map Lit ls @ [Wild]) ss =
     (if length ss = Suc (length ls) \<and> butlast ss = ls \<and> last ss \<noteq> ''/'' then Some [last ss] else None)"
proof (induction ls arbitrary: ss)
  case Nil
  show ?case by (cases ss; cases "tl ss") auto
next
  case (Cons l ls)
  then show ?case by (cases ss) auto
qed

lemmas seg_matches =
  seg_match_lits [of "[a]" for a, simplified] seg_match_lits [of "[a, b, c]" for a b c, simplified]
  seg_match_lits_wild [of "[a, b, c]" for a b c, simplified]

lemma match_path_no_routes [simp]: "match_path [] ss = None"
  by (simp add: match_path_None)

section \<open>Paths\<close>

lemma split_on_not_Nil [simp]: "split_on c xs \<noteq> []"
  by (induction xs) (auto split: list.splits)

lemma split_on_snoc: "split_on c (xs @ [c]) = split_on c xs @ [[]]"
  by (induction xs) (auto split: list.splits simp: append_eq_Cons_conv)

lemma split_on_length: "length (split_on c xs) = Suc (length (filter (\<lambda>x. x = c) xs))"
proof (induction xs)
  case (Cons x xs)
  obtain p ps where "split_on c xs = p # ps" by (cases "split_on c xs") auto
  with Cons show ?case by simp
qed simp

lemma split_on_last_empty: "last (split_on c xs) = [] \<longleftrightarrow> xs = [] \<or> last xs = c"
proof (induction xs)
  case (Cons x xs)
  obtain p ps where s: "split_on c xs = p # ps" by (cases "split_on c xs") auto
  have "p = xs" if "ps = []"
  proof -
    have "c \<notin> set xs" using s that split_on_length [of c xs] by (auto simp: filter_empty_conv)
    with s that show ?thesis by simp
  qed
  with Cons s show ?case by (cases "ps = []"; cases "xs = []") auto
qed simp

lemma unescape_Nil: "unescape s = Some [] \<longleftrightarrow> s = []"
  by (cases s rule: unescape.cases) (auto split: list.splits option.splits)

lemma pathUnescape_Nil [simp]: "pathUnescape s = [] \<longleftrightarrow> s = []"
  by (auto simp: pathUnescape_def unescape_Nil split: option.splits)

lemma clean_rooted:
  assumes "cleanPath p = p"
  obtains r where "p = CHR ''/'' # r"
proof -
  have "\<exists>r. rooted ss = CHR ''/'' # r" for ss by (cases ss) (auto simp: rooted_def)
  then have "\<exists>r. cleanPath p = CHR ''/'' # r"
    unfolding cleanPath_def Let_def by (auto split: if_splits) (metis append_Cons)+
  with assms that show ?thesis by metis
qed

lemma path_segs_rooted:
  "path_segs (CHR ''/'' # r) =
     (if r = [] \<or> last r = CHR ''/'' then butlast (map pathUnescape (split_on (CHR ''/'') r)) @ [''/'']
      else map pathUnescape (split_on (CHR ''/'') r))"
  by (simp add: path_segs_def Let_def last_map split_on_last_empty)

lemma path_segs_slash:
  assumes "p = CHR ''/'' # r" "last p \<noteq> CHR ''/''"
  shows "path_segs (p @ ''/'') = path_segs p @ [''/'']"
    and "length (filter (\<lambda>c. c = CHR ''/'') (p @ ''/'')) = Suc (length (path_segs p))"
proof -
  have r: "r \<noteq> []" "last r \<noteq> CHR ''/''" using assms by (auto split: if_splits)
  show "path_segs (p @ ''/'') = path_segs p @ [''/'']"
    using r path_segs_rooted [of "r @ ''/''"] path_segs_rooted [of r] by (simp add: assms(1) split_on_snoc)
  show "length (filter (\<lambda>c. c = CHR ''/'') (p @ ''/'')) = Suc (length (path_segs p))"
    using r path_segs_rooted [of r] by (simp add: assms(1) split_on_length)
qed

lemma path_segs_not_Nil: "p = CHR ''/'' # r \<Longrightarrow> path_segs p \<noteq> []"
  by (simp add: path_segs_rooted)

lemma path_segs_last: "p = CHR ''/'' # r \<Longrightarrow> last p = CHR ''/'' \<Longrightarrow> last (path_segs p) = ''/''"
  by (auto simp: path_segs_rooted split: if_splits)

lemma admin_unescaped:
  assumes "p = CHR ''/'' # r" "path_segs p = [''admin'']"
  shows "pathUnescape p = ''/admin''"
proof -
  have "map pathUnescape (split_on (CHR ''/'') r) = [''admin'']"
    using assms by (auto simp: path_segs_rooted split: if_splits)
  then obtain x where x: "split_on (CHR ''/'') r = [x]" "pathUnescape x = ''admin''" by auto
  then have "CHR ''/'' \<notin> set r"
    using split_on_length [of "CHR ''/''" r] by (auto simp: filter_empty_conv)
  with x have "pathUnescape r = ''admin''" by simp
  then have "unescape r = Some ''admin''"
    using pathUnescape_plain [of "''admin''"] by (auto simp: pathUnescape_def split: option.splits)
  then show ?thesis by (simp add: pathUnescape_def assms(1))
qed

section \<open>The muxes decide by the table\<close>

text \<open>
  A mux with the two rests: \<open>row\<close> is the position its search finds. Only \<open>/admin\<close> is redirected
  for want of a trailing slash.
\<close>

lemma find_by_row:
  fixes P :: "nat mux"
  assumes clean: "cleanPath p = p"
    and rows: "\<And>q. path_segs q \<noteq> [] \<Longrightarrow> match_method P m q = Some (P ! fst (row (path_segs q)), snd (row (path_segs q)))"
    and slash: "\<And>ss. ss \<noteq> [] \<Longrightarrow> row (ss @ [''/'']) = (if hd ss = ''admin'' then (a, []) else (0, []))"
    and bare: "row [''admin''] = (0, [])"
    and rests: "pat_segs (fst (P ! 0)) = [Multi]" "pat_segs (fst (P ! a)) = [Lit ''admin'', Multi]"
    and pos: "snd (P ! fst (row (path_segs p))) = fst (row (path_segs p))"
  shows "findHandler P m p =
    (if path_segs p = [''admin''] then Moved ''/admin/'' else Found (fst (row (path_segs p))) (snd (row (path_segs p))))"
proof -
  obtain r where r: "p = CHR ''/'' # r" by (rule clean_rooted [OF clean])
  let ?ss = "path_segs p"
  have ss: "?ss \<noteq> []" by (rule path_segs_not_Nil [OF r])
  note n = rows [OF ss]
  have found: "findHandler P m p =
      (if \<not> exactMatch (match_method P m p) p \<and> last p \<noteq> CHR ''/'' \<and> exactMatch (match_method P m (p @ ''/'')) (p @ ''/'')
       then Moved (cleanPath (pathUnescape p) @ ''/'') else Found (fst (row ?ss)) (snd (row ?ss)))"
  proof -
    have "p \<noteq> []" using r by simp
    moreover obtain pt where "P ! fst (row ?ss) = (pt, fst (row ?ss))" using pos by (metis prod.collapse)
    moreover have "(if m = ''CONNECT'' then p else cleanPath p) = p" by (simp add: clean)
    ultimately show ?thesis unfolding findHandler_def Let_def by (simp only: n) simp
  qed
  show ?thesis
  proof (cases "last p = CHR ''/''")
    case True
    with path_segs_last [OF r] have "?ss \<noteq> [''admin'']" by auto
    with True found show ?thesis by simp
  next
    case False
    note q = path_segs_slash [OF r False]
    have "exactMatch (match_method P m (p @ ''/'')) (p @ ''/'') \<longleftrightarrow> hd ?ss = ''admin'' \<and> length ?ss = 1"
      using ss q(2) rows [of "p @ ''/''"] slash [OF ss] rests
      by (auto simp: q(1) exactMatch_def ends_multi_def split: prod.splits)
    moreover have "hd ?ss = ''admin'' \<and> length ?ss = 1 \<longleftrightarrow> ?ss = [''admin'']" using ss by (cases ?ss) auto
    moreover have "\<not> exactMatch (match_method P m p) p" if "?ss = [''admin'']"
      using that n bare rests(1) False r by (auto simp: exactMatch_def ends_multi_def split: prod.splits)
    moreover have "cleanPath (pathUnescape p) = ''/admin''" if "?ss = [''admin'']"
      unfolding admin_unescaped [OF r that] by code_simp
    ultimately show ?thesis using found False by auto
  qed
qed

text \<open>The root mux with an admin token.\<close>

definition admin_row :: "string \<Rightarrow> string list \<Rightarrow> nat \<times> string list" where
  "admin_row m ss =
     (if ss = [''metrics''] \<and> reading m then (1, [])
      else if ss = [''admin'', ''api'', ''overview''] \<and> reading m then (2, [])
      else if ss = [''admin'', ''api'', ''tenants''] \<and> reading m then (3, [])
      else if ss = [''admin'', ''api'', ''tenants''] \<and> m = ''POST'' then (4, [])
      else if length ss = 4 \<and> butlast ss = [''admin'', ''api'', ''tenants''] \<and> last ss \<noteq> ''/'' \<and> reading m then (5, [last ss])
      else if length ss = 4 \<and> butlast ss = [''admin'', ''api'', ''tenants''] \<and> last ss \<noteq> ''/'' \<and> m = ''PUT'' then (6, [last ss])
      else if length ss = 4 \<and> butlast ss = [''admin'', ''api'', ''tenants''] \<and> last ss \<noteq> ''/'' \<and> m = ''DELETE'' then (7, [last ss])
      else if hd ss = ''admin'' \<and> tl ss \<noteq> [] then (8, [])
      else (0, []))"

lemma admin_rest:
  "match_path (of_method [] (numbered admin_patterns)) ss =
     (if ss = [] then None
      else if hd ss = ''admin'' \<and> tl ss \<noteq> [] then Some (numbered admin_patterns ! 8, [])
      else Some (numbered admin_patterns ! 0, []))"
  by (cases ss; cases "tl ss") (auto simp: of_method_def numbered_admin below_def)

lemma admin_methods:
  "match_path (of_method ''GET'' (numbered admin_patterns)) ss =
     (if ss = [''metrics''] then Some (numbered admin_patterns ! 1, [])
      else if ss = [''admin'', ''api'', ''overview''] then Some (numbered admin_patterns ! 2, [])
      else if ss = [''admin'', ''api'', ''tenants''] then Some (numbered admin_patterns ! 3, [])
      else if length ss = 4 \<and> butlast ss = [''admin'', ''api'', ''tenants''] \<and> last ss \<noteq> ''/''
        then Some (numbered admin_patterns ! 5, [last ss])
      else None)"
  "match_path (of_method ''POST'' (numbered admin_patterns)) ss =
     (if ss = [''admin'', ''api'', ''tenants''] then Some (numbered admin_patterns ! 4, []) else None)"
  "match_path (of_method ''PUT'' (numbered admin_patterns)) ss =
     (if length ss = 4 \<and> butlast ss = [''admin'', ''api'', ''tenants''] \<and> last ss \<noteq> ''/''
      then Some (numbered admin_patterns ! 6, [last ss]) else None)"
  "match_path (of_method ''DELETE'' (numbered admin_patterns)) ss =
     (if length ss = 4 \<and> butlast ss = [''admin'', ''api'', ''tenants''] \<and> last ss \<noteq> ''/''
      then Some (numbered admin_patterns ! 7, [last ss]) else None)"
  by (subst match_path_first; auto simp: of_method_def numbered_admin seg_matches simp del: seg_match.simps)+

lemma admin_no_method:
  "m \<notin> {[], ''GET'', ''POST'', ''PUT'', ''DELETE''} \<Longrightarrow> of_method m (numbered admin_patterns) = []"
  by (auto simp: of_method_def numbered_admin)

lemma admin_match:
  assumes "path_segs q \<noteq> []"
  shows "match_method (numbered admin_patterns) m q =
    Some (numbered admin_patterns ! fst (admin_row m (path_segs q)), snd (admin_row m (path_segs q)))"
proof -
  consider "m = []" | "m = ''GET''" | "m = ''POST''" | "m = ''PUT''" | "m = ''DELETE''" | "m = ''HEAD''"
    | "m \<notin> {[], ''GET'', ''POST'', ''PUT'', ''DELETE'', ''HEAD''}" by auto
  then show ?thesis
    using assms
    by cases (simp_all add: match_method_def orelse_def admin_methods admin_rest admin_no_method admin_row_def reading_def)
qed

lemma admin_find:
  assumes "cleanPath p = p"
  shows "findHandler (numbered admin_patterns) m p =
    (if path_segs p = [''admin''] then Moved ''/admin/''
     else Found (fst (admin_row m (path_segs p))) (snd (admin_row m (path_segs p))))"
proof (rule find_by_row [OF assms admin_match, where a = 8])
  show "admin_row m (ss @ [''/'']) = (if hd ss = ''admin'' then (8, []) else (0, []))" if "ss \<noteq> []" for ss
    using that by (auto simp: admin_row_def append_eq_Cons_conv)
qed (simp_all add: numbered_admin admin_row_def)

text \<open>The root mux without one.\<close>

definition open_row :: "string \<Rightarrow> string list \<Rightarrow> nat \<times> string list" where
  "open_row m ss =
     (if ss = [''metrics''] \<and> reading m then (1, [])
      else if hd ss = ''admin'' \<and> tl ss \<noteq> [] then (2, [])
      else (0, []))"

lemma open_methods:
  "match_path (of_method [] (numbered open_patterns)) ss =
     (if ss = [] then None
      else if hd ss = ''admin'' \<and> tl ss \<noteq> [] then Some (numbered open_patterns ! 2, [])
      else Some (numbered open_patterns ! 0, []))"
  "match_path (of_method ''GET'' (numbered open_patterns)) ss =
     (if ss = [''metrics''] then Some (numbered open_patterns ! 1, []) else None)"
  by (cases ss; cases "tl ss"; auto simp: of_method_def numbered_open below_def)
    (subst match_path_first; auto simp: of_method_def numbered_open seg_matches simp del: seg_match.simps)

lemma open_no_method: "m \<notin> {[], ''GET''} \<Longrightarrow> of_method m (numbered open_patterns) = []"
  by (auto simp: of_method_def numbered_open)

lemma open_match_row:
  assumes "path_segs q \<noteq> []"
  shows "match_method (numbered open_patterns) m q =
    Some (numbered open_patterns ! fst (open_row m (path_segs q)), snd (open_row m (path_segs q)))"
proof -
  consider "m = []" | "m = ''GET''" | "m = ''HEAD''" | "m \<notin> {[], ''GET'', ''HEAD''}" by auto
  then show ?thesis
    using assms by cases (simp_all add: match_method_def orelse_def open_methods open_no_method open_row_def reading_def)
qed

lemma open_find:
  assumes "cleanPath p = p"
  shows "findHandler (numbered open_patterns) m p =
    (if path_segs p = [''admin''] then Moved ''/admin/''
     else Found (fst (open_row m (path_segs p))) (snd (open_row m (path_segs p))))"
proof (rule find_by_row [OF assms open_match_row, where a = 2])
  show "open_row m (ss @ [''/'']) = (if hd ss = ''admin'' then (2, []) else (0, []))" if "ss \<noteq> []" for ss
    using that by (auto simp: open_row_def append_eq_Cons_conv)
qed (simp_all add: numbered_open open_row_def)

text \<open>The mux of the enrolment API, whose patterns are all literal.\<close>

lemma numbered_api:
  "numbered api_patterns =
     [(\<lparr>pat_method = ''GET'', pat_segs = [Lit ''healthz'']\<rparr>, 0),
      (\<lparr>pat_method = ''POST'', pat_segs = [Lit ''api'', Lit ''v1'', Lit ''enroll'']\<rparr>, 1),
      (\<lparr>pat_method = ''POST'', pat_segs = [Lit ''api'', Lit ''v1'', Lit ''heartbeat'']\<rparr>, 2),
      (\<lparr>pat_method = ''POST'', pat_segs = [Lit ''api'', Lit ''v1'', Lit ''deregister'']\<rparr>, 3),
      (\<lparr>pat_method = ''GET'', pat_segs = [Lit ''api'', Lit ''v1'', Lit ''tenants'']\<rparr>, 4)]"
  by code_simp

lemma api_methods:
  "match_path (of_method ''GET'' (numbered api_patterns)) ss =
     (if ss = [''healthz''] then Some (numbered api_patterns ! 0, [])
      else if ss = [''api'', ''v1'', ''tenants''] then Some (numbered api_patterns ! 4, []) else None)"
  "match_path (of_method ''POST'' (numbered api_patterns)) ss =
     (if ss = [''api'', ''v1'', ''enroll''] then Some (numbered api_patterns ! 1, [])
      else if ss = [''api'', ''v1'', ''heartbeat''] then Some (numbered api_patterns ! 2, [])
      else if ss = [''api'', ''v1'', ''deregister''] then Some (numbered api_patterns ! 3, []) else None)"
  by (subst match_path_first; auto simp: of_method_def numbered_api seg_matches simp del: seg_match.simps)+

lemma api_no_method: "m \<notin> {''GET'', ''POST''} \<Longrightarrow> of_method m (numbered api_patterns) = []"
  by (auto simp: of_method_def numbered_api)

definition api_place :: "string \<Rightarrow> string list \<Rightarrow> nat found" where
  "api_place m ss =
     (let read = (\<lambda>i. if reading m then Found i [] else NotAllowed [''GET'', ''HEAD'']);
          post = (\<lambda>i. if m = ''POST'' then Found i [] else NotAllowed [''POST''])
      in if ss = [''healthz''] then read 0
         else if ss = [''api'', ''v1'', ''tenants''] then read 4
         else if ss = [''api'', ''v1'', ''enroll''] then post 1
         else if ss = [''api'', ''v1'', ''heartbeat''] then post 2
         else if ss = [''api'', ''v1'', ''deregister''] then post 3
         else NoPattern)"

definition api_row :: "string \<Rightarrow> string list \<Rightarrow> ((pat \<times> nat) \<times> string list) option" where
  "api_row m ss = (case api_place m ss of Found i ms \<Rightarrow> Some (numbered api_patterns ! i, ms) | _ \<Rightarrow> None)"

lemma api_match: "match_method (numbered api_patterns) m q = api_row m (path_segs q)"
proof -
  consider "m = ''GET''" | "m = ''POST''" | "m = ''HEAD''" | "m = []" | "m \<notin> {''GET'', ''POST'', ''HEAD'', []}" by auto
  then show ?thesis
    by cases (simp_all add: match_method_def orelse_def api_methods api_no_method api_row_def api_place_def reading_def Let_def)
qed

lemma api_slash: "api_row m (ss @ [''/'']) = None"
  by (simp add: api_row_def api_place_def Let_def append_eq_Cons_conv)

lemma api_allowed:
  assumes "p = CHR ''/'' # r"
  shows "matchingMethods (numbered api_patterns) p =
    (if path_segs p \<in> {[''healthz''], [''api'', ''v1'', ''tenants'']} then [''GET'', ''HEAD'']
     else if path_segs p \<in> {[''api'', ''v1'', ''enroll''], [''api'', ''v1'', ''heartbeat''], [''api'', ''v1'', ''deregister'']}
     then [''POST''] else [])"
proof -
  let ?posts = "{[''api'', ''v1'', ''enroll''], [''api'', ''v1'', ''heartbeat''], [''api'', ''v1'', ''deregister'']}"
  let ?gets = "{[''healthz''], [''api'', ''v1'', ''tenants'']}"
  have ms: "remdups (map (pat_method \<circ> fst) (numbered api_patterns)) = [''POST'', ''GET'']" by code_simp
  have post: "match_path (of_method ''POST'' (numbered api_patterns)) ss \<noteq> None \<longleftrightarrow> ss \<in> ?posts" for ss
    by (simp add: api_methods)
  have get: "match_path (of_method ''GET'' (numbered api_patterns)) ss \<noteq> None \<longleftrightarrow> ss \<in> ?gets" for ss
    by (simp add: api_methods)
  have at: "methods_at (numbered api_patterns) q =
      (if path_segs q \<in> ?posts then [''POST''] else []) @ (if path_segs q \<in> ?gets then [''GET''] else [])" for q
    unfolding methods_at_def ms filter.simps post get by simp
  have "methods_at (numbered api_patterns) (p @ ''/'') = []" if "last p \<noteq> CHR ''/''"
    using path_segs_slash(1) [OF assms that] by (simp add: at append_eq_Cons_conv)
  then have "matchingMethods (numbered api_patterns) p =
      (let ms = methods_at (numbered api_patterns) p in sort (remdups (if ''GET'' \<in> set ms then ''HEAD'' # ms else ms)))"
    using assms by (simp add: matchingMethods_def Let_def)
  moreover have "sort [''HEAD'', ''GET''] = [''GET'', ''HEAD'']" by code_simp
  moreover have "ss \<notin> ?posts" if "ss \<in> ?gets" for ss using that by auto
  ultimately show ?thesis
    by (cases "path_segs p \<in> ?gets"; cases "path_segs p \<in> ?posts") (simp_all add: at Let_def)
qed

lemma api_find_place:
  assumes "cleanPath p = p"
  shows "api_find m p = api_place m (path_segs p)"
proof -
  obtain r where r: "p = CHR ''/'' # r" by (rule clean_rooted [OF assms])
  have that: "\<not> exactMatch (match_method (numbered api_patterns) m (p @ ''/'')) (p @ ''/'')" if "last p \<noteq> CHR ''/''"
    using path_segs_slash(1) [OF r that] by (simp add: api_match api_slash exactMatch_def)
  have found: "api_find m p = (case api_row m (path_segs p) of Some ((_, h), ms) \<Rightarrow> Found h ms
      | None \<Rightarrow> (let allowed = matchingMethods (numbered api_patterns) p in if allowed = [] then NoPattern else NotAllowed allowed))"
  proof -
    have "(if m = ''CONNECT'' then p else cleanPath p) = p" "p \<noteq> []" using r assms by auto
    then show ?thesis using that unfolding api_find_def findHandler_def Let_def by (simp only: api_match) auto
  qed
  consider "path_segs p = [''healthz'']" | "path_segs p = [''api'', ''v1'', ''tenants'']" | "path_segs p = [''api'', ''v1'', ''enroll'']"
    | "path_segs p = [''api'', ''v1'', ''heartbeat'']" | "path_segs p = [''api'', ''v1'', ''deregister'']"
    | "path_segs p \<notin> {[''healthz''], [''api'', ''v1'', ''tenants''], [''api'', ''v1'', ''enroll''],
        [''api'', ''v1'', ''heartbeat''], [''api'', ''v1'', ''deregister'']}" by blast
  then show ?thesis
    unfolding found api_allowed [OF r]
    by cases (simp_all add: api_row_def api_place_def Let_def numbered_api)
qed

section \<open>What the port answers\<close>

lemma api_served_by_table:
  assumes "su_paths E = documented_paths" "cleanPath (rq_path r) = rq_path r"
    and "root_find E (rq_method r) (rq_path r) = Found 0 ms"
  shows "serve_root E ord r s = api_table E ord r (path_segs (rq_path r)) s"
proof -
  have h: "snd (api_routes E ! 0) ord r ms s = api_call E ord (rq_auth r) Healthz s"
    "snd (api_routes E ! Suc 0) ord r ms s = api_call E ord (rq_auth r) (Enroll (j_enroll (su_codec E) (rq_body r))) s"
    "snd (api_routes E ! 2) ord r ms s = api_call E ord (rq_auth r) (Heartbeat (j_heartbeat (su_codec E) (rq_body r))) s"
    "snd (api_routes E ! 3) ord r ms s = api_call E ord (rq_auth r) (Deregister (j_deregister (su_codec E) (rq_body r))) s"
    "snd (api_routes E ! 4) ord r ms s = api_call E ord (rq_auth r) Tenants s" for ms
    by (simp_all add: api_routes_def api_handle_def api_call_def)
  let ?ss = "path_segs (rq_path r)"
  consider "?ss = [''healthz'']" | "?ss = [''api'', ''v1'', ''tenants'']" | "?ss = [''api'', ''v1'', ''enroll'']"
    | "?ss = [''api'', ''v1'', ''heartbeat'']" | "?ss = [''api'', ''v1'', ''deregister'']"
    | "?ss \<notin> {[''healthz''], [''api'', ''v1'', ''tenants''], [''api'', ''v1'', ''enroll''],
        [''api'', ''v1'', ''heartbeat''], [''api'', ''v1'', ''deregister'']}" by blast
  then show ?thesis
    unfolding serve_api [OF assms(1,3)] api_find_place [OF assms(2)]
    by cases (simp_all add: api_place_def api_table_def Let_def h)
qed

lemma admin_row_below:
  "rest \<noteq> [] \<Longrightarrow> admin_row m (''admin'' # rest) =
     (if rest = [''api'', ''overview''] \<and> reading m then (2, [])
      else if rest = [''api'', ''tenants''] \<and> reading m then (3, [])
      else if rest = [''api'', ''tenants''] \<and> m = ''POST'' then (4, [])
      else if length rest = 3 \<and> butlast rest = [''api'', ''tenants''] \<and> last rest \<noteq> ''/'' \<and> reading m then (5, [last rest])
      else if length rest = 3 \<and> butlast rest = [''api'', ''tenants''] \<and> last rest \<noteq> ''/'' \<and> m = ''PUT'' then (6, [last rest])
      else if length rest = 3 \<and> butlast rest = [''api'', ''tenants''] \<and> last rest \<noteq> ''/'' \<and> m = ''DELETE'' then (7, [last rest])
      else (8, []))"
  by (simp add: admin_row_def)

lemma admin_manages:
  "Enabled (su_token E) \<Longrightarrow>
     admin_handle E c ord r ms s = manage E ord (rq_auth r) (PathValue ms) (c r (PathValue ms)) s"
  by (simp add: admin_handle_Register manage_def)

lemma root_positions:
  assumes "Enabled (su_token E)"
  shows "snd (root_routes E ! 2) = admin_handle E (\<lambda>_ _. GetOverview)"
    and "snd (root_routes E ! 3) = admin_handle E (\<lambda>_ _. ListTenants)"
    and "snd (root_routes E ! 4) = admin_handle E (\<lambda>r _. CreateTenant (j_tenant (su_codec E) (rq_body r)))"
    and "snd (root_routes E ! 5) = admin_handle E (\<lambda>_ tid. GetTenant tid)"
    and "snd (root_routes E ! 6) = admin_handle E (\<lambda>r tid. UpdateTenant tid (j_tenant (su_codec E) (rq_body r)))"
    and "snd (root_routes E ! 7) = admin_handle E (\<lambda>_ tid. DeleteTenant tid)"
    and "snd (root_routes E ! 8) = admin_ui"
  using assms by (simp_all add: root_routes_def admin_routes_def)

lemma managed_by_table:
  assumes "su_paths E = documented_paths" "su_token E \<noteq> []" "rest \<noteq> []"
    and "root_find E (rq_method r) (rq_path r) =
      Found (fst (admin_row (rq_method r) (''admin'' # rest))) (snd (admin_row (rq_method r) (''admin'' # rest)))"
  shows "serve_root E ord r s = admin_table E ord r rest s"
proof -
  have e: "Enabled (su_token E)" using assms(2) by (simp add: Enabled_def)
  note row = admin_row_below [OF assms(3), of "rq_method r"]
  note served = serve_find [OF assms(1), of ord r s] assms(4)
  note rules = root_positions [OF e] admin_manages [OF e] PathValue_def admin_ui_def admin_table_def Let_def
  consider (overview) "rest = [''api'', ''overview'']" | (tenants) "rest = [''api'', ''tenants'']"
    | (tenant) tid where "rest = [''api'', ''tenants'', tid]" "tid \<noteq> ''/''"
    | (ui) "rest \<noteq> [''api'', ''overview'']" "rest \<noteq> [''api'', ''tenants'']"
        "\<not> (length rest = 3 \<and> butlast rest = [''api'', ''tenants''] \<and> last rest \<noteq> ''/'')"
  proof (cases "length rest = 3 \<and> butlast rest = [''api'', ''tenants''] \<and> last rest \<noteq> ''/''")
    case True
    then have "rest = [''api'', ''tenants'', last rest]"
      by (metis append_Cons append_Nil append_butlast_last_id assms(3))
    with True tenant show ?thesis by blast
  qed (use overview tenants ui in blast)
  then show ?thesis
  proof cases
    case ui
    then have "admin_row (rq_method r) (''admin'' # rest) = (8, [])" unfolding row by auto
    moreover have "admin_table E ord r rest s = Ok (UiFile (rq_method r) (rq_path r), s)"
      unfolding admin_table_def Let_def if_not_P [OF ui(1)] if_not_P [OF ui(2)] if_not_P [OF ui(3)] ..
    ultimately show ?thesis by (simp add: served root_positions [OF e] admin_ui_def)
  qed (simp_all add: served admin_row_below rules reading_def split: if_split)
qed

lemma served_by_table:
  assumes "su_paths E = documented_paths" "cleanPath (rq_path r) = rq_path r"
  shows "serve_root E ord r s = route_table E ord r (path_segs (rq_path r)) s"
proof -
  let ?ss = "path_segs (rq_path r)"
  let ?row = "if Enabled (su_token E) then admin_row (rq_method r) ?ss else open_row (rq_method r) ?ss"
  have f: "root_find E (rq_method r) (rq_path r) = (if ?ss = [''admin''] then Moved ''/admin/'' else Found (fst ?row) (snd ?row))"
    by (simp add: root_find_def admin_find [OF assms(2)] open_find [OF assms(2)])
  have "?ss \<noteq> []" using clean_rooted [OF assms(2)] path_segs_not_Nil by metis
  then consider (metrics) "?ss = [''metrics'']" "reading (rq_method r)" | (bare) "?ss = [''admin'']"
    | (admin) rest where "?ss = ''admin'' # rest" "rest \<noteq> []"
    | (api) "hd ?ss \<noteq> ''admin''" "?ss \<noteq> [''metrics''] \<or> \<not> reading (rq_method r)"
    by (cases ?ss) auto
  then show ?thesis
  proof cases
    case metrics
    then have "fst ?row = 1" by (simp add: admin_row_def open_row_def)
    with metrics f show ?thesis
      by (simp add: serve_find [OF assms(1)] root_routes_def metrics_handle_def route_table_def)
  next
    case bare
    with f show ?thesis by (simp add: serve_find [OF assms(1)] route_table_def)
  next
    case admin
    show ?thesis
    proof (cases "su_token E = []")
      case True
      with admin f show ?thesis
        by (simp add: serve_find [OF assms(1)] root_routes_def admin_routes_def admin_off_def route_table_def Enabled_def
            open_row_def)
    next
      case False
      with admin f managed_by_table [OF assms(1) False admin(2)] show ?thesis
        by (simp add: route_table_def Enabled_def)
    qed
  next
    case api
    then have "?row = (0, [])" by (cases ?ss) (auto simp: admin_row_def open_row_def butlast_append)
    moreover have "?ss \<noteq> [''admin'']" using api(1) by auto
    ultimately have "root_find E (rq_method r) (rq_path r) = Found 0 []" using f by simp
    from api_served_by_table [OF assms this] api show ?thesis
      by (auto simp: route_table_def)
  qed
qed

text \<open>A path that is not clean is redirected before any handler sees it.\<close>

lemma unclean_redirected:
  assumes "su_paths E = documented_paths" "cleanPath (rq_path r) \<noteq> rq_path r" "rq_method r \<noteq> ''CONNECT''"
  shows "\<exists>p. serve_root E ord r s = Ok (MovedPermanently p, s)"
  using assms(2,3) by (simp add: serve_find [OF assms(1)] root_find_def findHandler_def Let_def)

end
