(* ===== verification/Front_Claims.thy ===== *)
theory Front_Claims
  imports Logging Process Route_Table Sample
begin

text \<open>
  What the port of the server promises: whatever request arrives there, it is answered, and
  changes only what its token allows; and which request reaches which handler.
\<close>

section \<open>A setup\<close>

definition sample_codec :: Codec where
  "sample_codec =
     \<lparr>j_enroll = (\<lambda>b. if b = [] then Inl ''EOF'' else Inr (sample_req b)), j_heartbeat = (\<lambda>b. Inr b), j_deregister = (\<lambda>b. Inr b),
      j_tenant = (\<lambda>b. Inl ''EOF'')\<rparr>"

definition sample_setup :: Setup where
  "sample_setup = \<lparr>su_parse_key = plain_key, su_verify = sample_verify, su_paths = documented_paths, su_codec = sample_codec,
     su_token = ''secret''\<rparr>"

definition sample_orders :: Orders where
  "sample_orders = \<lparr>o_now = hour, o_tenants = [DefaultID], o_peers = [''laptop''], o_subs = (\<lambda>_. [])\<rparr>"

lemma sample_orders_ok: "orders_ok sample_orders sample_peer_srv"
  using sample_srv_tenants
  by (auto simp: orders_ok_def sample_orders_def sample_srv_def New_TStore_def ranges_over_def split: if_splits)

text \<open>
  C11: Every request to the server's port is answered, whatever its method, path, header and body:
  neither a handler nor the routing panics or blocks. Without a bearer token the provider accepts
  it changes no device, no address, no peer of the gateway and no counter; without the admin
  token, or when none is configured, no tenant; none changes the configuration or the list of
  registered keys; and unless the answer is a 500, the server's invariant holds afterwards.
\<close>

theorem front_guarded:
  fixes s :: "'d Server"
  assumes "su_paths E = documented_paths" "srv_inv p s" "orders_ok ord s"
  shows "\<exists>rep s'. serve_root E ord r s = Ok (rep, s') \<and> (failed rep \<or> srv_inv p s') \<and>
    (bearer_ok E r \<or> store s' = store s \<and> alloc s' = alloc s \<and> dev s' = dev s \<and> enrolls s' = enrolls s) \<and>
    (admin_ok E r \<or> tstore s' = tstore s) \<and> cfg s' = cfg s \<and> registry s' = registry s"
proof -
  obtain rep s' where h: "serve_root E ord r s = Ok (rep, s')" "failed rep \<or> srv_inv p s'"
    "bearer_ok E r \<or> s' = s\<lparr>tstore := tstore s'\<rparr>" "admin_ok E r \<or> tstore s' = tstore s" "cfg s' = cfg s" "registry s' = registry s"
    using serve_root_guarded [OF assms] by blast
  have "s' = s\<lparr>tstore := tstore s'\<rparr> \<Longrightarrow> store s' = store s \<and> alloc s' = alloc s \<and> dev s' = dev s \<and> enrolls s' = enrolls s"
    by (metis Server.select_convs Server.surjective Server.update_convs(6))
  with h show ?thesis by blast
qed

theorem front_guarded_witness:
  "\<exists>rep s'. serve_root sample_setup sample_orders
      \<lparr>rq_method = ''POST'', rq_path = ''/api/v1/deregister'', rq_auth = ''Bearer C'', rq_body = ''laptop''\<rparr> sample_peer_srv = Ok (rep, s') \<and>
    store s' = store sample_peer_srv \<and> alloc s' = alloc sample_peer_srv"
proof -
  let ?r = "\<lparr>rq_method = ''POST'', rq_path = ''/api/v1/deregister'', rq_auth = ''Bearer C'', rq_body = ''laptop''\<rparr>"
  have "bearerToken ''Bearer C'' = ''C''" by code_simp
  then have "\<not> bearer_ok sample_setup ?r" by (simp add: bearer_ok_def sample_setup_def sample_verify_def)
  moreover have "su_paths sample_setup = documented_paths" by (simp add: sample_setup_def)
  ultimately show ?thesis using front_guarded [OF _ sample_peer_srv_inv sample_orders_ok, of sample_setup ?r] by blast
qed

text \<open>
  C26: The routes. With the paths of the protocol the registration of the routes does not panic,
  and every request with a clean path is answered by the table: a GET or HEAD of \<open>/metrics\<close> is a
  scrape; \<open>/admin\<close> is redirected to \<open>/admin/\<close>; below that, with no admin token everything is
  answered 503, and with one the overview, the list and the creation of tenants and the reading,
  update and deletion of the tenant a path names go through the guard, and all else is the UI's;
  every other path is the enrolment API's, whose five calls reach their handlers with the decoded
  body, another method on such a path being answered 405 with the methods there are, and any other
  path 404. A path that is not clean is redirected, unless the method is CONNECT.
\<close>

theorem front_routes:
  assumes "su_paths E = documented_paths"
  shows "(cleanPath (rq_path r) = rq_path r \<longrightarrow>
      serve_root E ord r s = route_table E ord r (path_segs (rq_path r)) s) \<and>
    (cleanPath (rq_path r) \<noteq> rq_path r \<and> rq_method r \<noteq> ''CONNECT'' \<longrightarrow>
      (\<exists>p. serve_root E ord r s = Ok (MovedPermanently p, s)))"
  using served_by_table [OF assms] unclean_redirected [OF assms] by blast

theorem front_routes_witness:
  "serve_root sample_setup sample_orders (http_req ''POST'' ''/api/v1/enroll'' ''Bearer C'' ''phone'') sample_peer_srv =
     api_call sample_setup sample_orders ''Bearer C'' (Enroll (Inr (sample_req ''phone''))) sample_peer_srv \<and>
   serve_root sample_setup sample_orders (http_req ''DELETE'' ''/admin/api/tenants/acme'' [] []) sample_peer_srv =
     manage sample_setup sample_orders [] ''acme'' (DeleteTenant ''acme'') sample_peer_srv"
proof -
  have p: "cleanPath ''/api/v1/enroll'' = ''/api/v1/enroll''" "path_segs ''/api/v1/enroll'' = [''api'', ''v1'', ''enroll'']"
    "cleanPath ''/admin/api/tenants/acme'' = ''/admin/api/tenants/acme''"
    "path_segs ''/admin/api/tenants/acme'' = [''admin'', ''api'', ''tenants'', ''acme'']"
    by code_simp+
  show ?thesis
    using front_routes [of sample_setup "http_req ''POST'' ''/api/v1/enroll'' ''Bearer C'' ''phone''" sample_orders sample_peer_srv]
      front_routes [of sample_setup "http_req ''DELETE'' ''/admin/api/tenants/acme'' [] []" sample_orders sample_peer_srv]
    by (simp add: p sample_setup_def sample_codec_def route_table_def api_table_def admin_table_def Let_def reading_def)
qed

section \<open>The log\<close>

text \<open>
  C27: The log of the enrolment API tells the truth and changes nothing. Whatever request its mux
  answers, the middleware passes the answer and the state on as they are, hands every call of the
  handler to the connection, and logs the request's method, its decoded path, and the status that is sent.
\<close>

theorem log_truthful:
  fixes h :: "'d handler"
  assumes "api_Handler E = Ok h" "h ord r ms s = Ok (rep, s')"
  shows "\<exists>line. withLogging other h ord r ms s = Ok ((rep, reply_calls other rep, line), s') \<and>
    lg_method line = rq_method r \<and> lg_path line = pathUnescape (rq_path r) \<and> lg_status line = wire_status (reply_calls other rep)"
  using assms(2) sw_passes [of "reply_calls other rep" "\<lparr>sw_ResponseWriter = [], sw_status = 200\<rparr>"]
    writes_once_noted [OF api_reply_once [OF api_mux_reply [OF assms]], of other "\<lparr>sw_ResponseWriter = [], sw_status = 200\<rparr>"]
  by (simp add: withLogging_def Let_def)

theorem log_truthful_witness:
  "\<exists>h line. api_Handler sample_setup = Ok h \<and>
     withLogging (\<lambda>_. []) h sample_orders (http_req ''GET'' ''/api/v1/enroll'' [] []) [] sample_srv =
       Ok ((MethodNotAllowed [''POST''], [WriteHeader 405, WriteBody], line), sample_srv) \<and> lg_status line = 405"
proof -
  let ?h = "ServeHTTP (map (\<lambda>(p, h). (parsePattern p, h)) (api_routes sample_setup)) :: mem_dev handler"
  let ?r = "http_req ''GET'' ''/api/v1/enroll'' [] []"
  have p: "su_paths sample_setup = documented_paths" by (simp add: sample_setup_def)
  note h = api_Handler_documented [OF p]
  have "?h sample_orders ?r [] sample_srv = Ok (MethodNotAllowed [''POST''], sample_srv)"
    by (simp add: ServeHTTP_def api_mux_find [OF p] api_positions)
  from log_truthful [OF h this, of "\<lambda>_. []"] h show ?thesis by auto
qed

end
