(* ===== verification/Port_Claims.thy ===== *)
theory Port_Claims
  imports Port Front_Claims
begin

text \<open>
  The whole server, from \<open>run\<close> to raw requests at its port: it implements the book of leases, and
  its device has what the book says.
\<close>

section \<open>A run at the port\<close>

text \<open>Alice enrols her laptop on a server that has just started.\<close>

definition sample_port :: Setup where
  "sample_port = setup_of sample_machine documented_paths sample_codec sample_running"

definition enroll_laptop :: request where
  "enroll_laptop = \<lparr>rq_method = ''POST'', rq_path = ''/api/v1/enroll'', rq_auth = ''Bearer A'', rq_body = ''laptop''\<rparr>"

definition laptop_reply :: reply where
  "laptop_reply = ApiReply (enroll_reply sample_srv (25 * hour) DefaultID [10, 80, 0, 2])"

lemma enroll_laptop_called: "called sample_port enroll_laptop = Some (Enroll (Inr (sample_req ''laptop'')))"
  by (simp add: called_def enroll_laptop_def api_requests api_positions calls_def sample_port_def setup_of_def sample_codec_def)

lemma enroll_laptop_auth: "rq_auth enroll_laptop = ''Bearer A''"
  by (simp add: enroll_laptop_def)

lemma sample_srv_orders: "orders_ok sample_orders sample_srv"
  using sample_srv_tenants
  by (auto simp: orders_ok_def sample_orders_def sample_srv_def New_TStore_def ranges_over_def split: if_splits)

lemma sample_port_simps [simp]:
  "su_paths sample_port = documented_paths" "su_parse_key sample_port = plain_key" "su_verify sample_port = sample_github"
  by (simp_all add: sample_port_def setup_of_def sample_running_def)

lemma sample_port_enroll:
  "trace (port_step sample_port) \<lparr>sy_srv = run_srv sample_running, sy_now = hour\<rparr> [Served enroll_laptop laptop_reply] sample_system"
proof -
  let ?S = "\<lparr>sy_srv = sample_srv, sy_now = hour\<rparr>"
  have "serve_root sample_port sample_orders enroll_laptop sample_srv = Ok (laptop_reply, sample_peer_srv)"
    unfolding serve_called [OF sample_port_simps(1) enroll_laptop_called]
    by (simp add: sample_orders_def enroll_laptop_def Handler_def authenticated_def sample_bearer sample_github_accepts
        sample_enroll laptop_reply_def)
  then have "port_step sample_port ?S (Served enroll_laptop laptop_reply) (?S\<lparr>sy_srv := sample_peer_srv\<rparr>)"
    by (intro port_step.served [of sample_orders]) (simp_all add: sample_srv_orders, simp add: sample_orders_def)
  then show ?thesis by (simp add: trace_one sample_system_def sample_running_def)
qed

section \<open>The book and the device\<close>

text \<open>
  C1: From its start on, with a \<open>VPN_CIDR\<close> that is the text of an IPv4 prefix and the paths of the
  protocol, and as long as no request is answered 500, the server at its port implements the book
  of leases. Whatever raw requests arrive, and however they mix with the clock, the reaper, lists
  of keys and watchers: the store seen as a book starts empty and takes one step of the
  book for each event. A request is nothing to the book unless it is routed to the enrolment API and its
  bearer token is accepted; then it can be a grant or an extension if it is an enrolment, an
  extension if it is a heartbeat, a return if it is a deregistration, of the key in its body and in the name of the
  identity the token proves. The book's laws hold of it, for the hosts of the
  configured prefix but the first and the configured time; and in the state that is reached every request is answered.
\<close>

theorem port_refines_book:
  assumes "parses_ipv4 (m_parse_cidr m)" "run m d = (Inr r, d')" "m_load m = Inr c"
    and "parse_ipv4_cidr (VPNCIDR c) = Some (ip, n)"
    and E: "E = setup_of m documented_paths codec r"
    and es: "trace (port_step E) \<lparr>sy_srv = run_srv r, sy_now = now\<rparr> es S'" "\<forall>e \<in> set es. quiet e"
  shows "\<exists>p as. ipv4_net n p \<and>
    book_run (LeaseTTL c) (leased n p) \<lparr>bk_now = now, bk_leases = Map.empty\<rparr> as (book_of S') \<and>
    list_all2 (port_explains E) es as \<and> book_ok (LeaseTTL c) (leased n p) (book_of S') \<and>
    (\<forall>ord rq. orders_ok ord (sy_srv S') \<and> o_now ord = sy_now S' \<longrightarrow> (\<exists>rep S''. port_step E S' (Served rq rep) S''))"
proof -
  obtain p where p: "ipv4_net n p" "listening E p (LeaseTTL c) n \<lparr>sy_srv = run_srv r, sy_now = now\<rparr>"
    using run_serving(1) [OF assms(1-4)] by (auto simp: listening_def E setup_of_def)
  have end': "listening E p (LeaseTTL c) n S'" by (rule port.run_keeps [OF es(1) p(2) es(2)])
  obtain as where as: "book_run (LeaseTTL c) (leased n p) (book_of \<lparr>sy_srv = run_srv r, sy_now = now\<rparr>) as (book_of S')"
    "list_all2 (\<lambda>e a. \<exists>f. stands_for E e f \<and> explains (su_verify E) f a) es as"
    using port.run_simulated [OF es(1) p(2) es(2)] by blast
  have "list_all2 (port_explains E) es as"
    using as(2) by (rule list_all2_mono) (auto intro: port_explains_through)
  moreover have "book_ok (LeaseTTL c) (leased n p) (book_of S')"
    using end' by (intro serving_book) (simp add: listening_def)
  ultimately show ?thesis
    using p(1) as(1) port_receptive [OF end'] unfolding run_serving(2) [OF assms(1-4)] by blast
qed

theorem port_refines_book_witness:
  "\<exists>p as. ipv4_net sample_net p \<and>
     book_run (24 * hour) (leased sample_net p) \<lparr>bk_now = hour, bk_leases = Map.empty\<rparr> as (book_of sample_system) \<and>
     as = [Grant ''github:1'' ''laptop'']"
proof -
  let ?B = "\<lparr>bk_now = hour, bk_leases = Map.empty\<rparr>" and ?pool = "\<lambda>p. leased sample_net p"
  have n: "parse_ipv4_cidr (VPNCIDR sample_cfg) = Some (v4InV6Prefix @ [10, 80, 0, 0], sample_net)" by (simp, code_simp)
  have q: "quiet (Served enroll_laptop laptop_reply)"
    by (auto simp: quiet_def failed_def laptop_reply_def enroll_reply_def writeJSON_def)
  from port_refines_book [OF _ sample_run_empty _ n sample_port_def sample_port_enroll] q obtain p as where
    p: "ipv4_net sample_net p" and r: "book_run (24 * hour) (?pool p) ?B as (book_of sample_system)"
    and as: "list_all2 (port_explains sample_port) [Served enroll_laptop laptop_reply] as"
    by (auto simp: sample_parses sample_machine_def)
  from as obtain a where a: "as = [a]" "port_explains sample_port (Served enroll_laptop laptop_reply) a"
    by (auto simp: list_all2_Cons1)
  define B' where "B' = book_of sample_system"
  from r a(1) have st: "book_step (24 * hour) (?pool p) ?B a B'" by (simp add: trace_one B'_def)
  have "bk_leases B' ''laptop'' \<noteq> None" by (simp add: B'_def sample_system_def store_simps)
  with st have "a \<noteq> Idle" "\<And>me k. a \<noteq> Extend me k" by (auto elim: book_step.cases)
  with a(2) have "a = Grant ''github:1'' ''laptop''"
    by (auto simp: enroll_laptop_called enroll_laptop_auth sample_bearer sample_github_accepts alice_def sample_req_def)
  with p r a(1) show ?thesis by blast
qed

text \<open>
  C4: From its start on the WireGuard device has what the book says, of a server that is not a dry
  run, whose \<open>VPN_CIDR\<close> is the text of an IPv4 prefix, on a device that behaves as wgctrl
  documents and removes every peer it is asked to; if, when it started, no peer configured by hand,
  that is, none the sweep does not recognise as this server's, had a single address of the pool
  among its allowed IPs; if every enrolment so far was of a key text from a set in which a key has
  one text only; and if no request so far was answered 500. Then each enrolled device is on the device under its key with exactly its own \<open>/32\<close>, and a peer of the device has a pool address among its
  allowed IPs only if it is enrolled with that address.
\<close>

theorem port_device:
  assumes "parses_ipv4 (m_parse_cidr m)" "run m d = (Inr r, d')" "m_load m = Inr c" "\<not> DryRun c"
    and n: "parse_ipv4_cidr (VPNCIDR c) = Some (ip, n)"
    and "wgctrl_ok view (m_configure m) (m_device m) (WGInterface c)"
    and "removes (wgctrlGateway (m_wg_close m) (m_configure m) (m_device m) (WGInterface c))"
    and hand: "hand_made_elsewhere view n d" and C: "canonical (m_parse_key m) C"
    and E: "E = setup_of m documented_paths codec r"
    and es: "trace (port_step E) \<lparr>sy_srv = run_srv r, sy_now = now\<rparr> es S'" "\<forall>e \<in> set es. quiet e"
    and keys: "\<forall>rq rep req. Served rq rep \<in> set es \<and> called E rq = Some (Enroll (Inr req)) \<longrightarrow> er_PublicKey req \<in> C"
  shows "\<exists>p. (\<forall>k q. Get (store (sy_srv S')) k = Some q \<longrightarrow>
      (\<exists>pub. m_parse_key m k = Inr pub \<and> fmlookup (view (dev (sy_srv S'))) pub = Some [host_net (p_IP q)])) \<and>
    ipv4_net n p \<and> network (alloc (sy_srv S')) = n \<and>
    (\<forall>pub nets i. fmlookup (view (dev (sy_srv S'))) pub = Some nets \<longrightarrow> i \<in> hosts n p \<longrightarrow> host_net i \<in> set nets \<longrightarrow>
      (\<exists>k q. Get (store (sy_srv S')) k = Some q \<and> m_parse_key m k = Inr pub \<and> p_IP q = i))"
proof -
  let ?S = "\<lparr>sy_srv = run_srv r, sy_now = now\<rparr>"
  have pc: "m_parse_cidr m (VPNCIDR c) = Inr (ip, n)" using assms(1) n by (simp add: parses_ipv4_def)
  obtain p where p: "srv_inv p (run_srv r)" "dev_inv (m_parse_key m) C view p (run_srv r)"
    using run_dev_inv [OF assms(1-4) _ assms(6,7), where pk = "m_parse_key m" and C = C] n pc hand by auto
  have inv: "sys_inv p ?S" using run_serving(1) [OF assms(1-3) n, of now] p(1) by (auto simp: serving_def sys_inv_def)
  have l: "listening E p (LeaseTTL c) n ?S"
    using inv run_serving(1) [OF assms(1-3) n, of now] run_serving(3) [OF assms(1-3) n] by (auto simp: listening_def serving_def E setup_of_def)
  obtain fs where fs: "trace (sys_step (m_parse_key m) (run_verify r)) ?S fs S'" "list_all2 (stands_for E) es fs"
    using port.lower.run_simulated [OF es(1) l es(2)] by (auto simp: E setup_of_def)
  have calm: "calm f \<and> keys_in C f" if "f \<in> set fs" for f
  proof -
    from list_all2_mem [OF fs(2) that] obtain e where e: "e \<in> set es" "stands_for E e f" by blast
    with es(2) keys show ?thesis using stands_for_calm [of e E f] stands_for_keys [of E e f C] by blast
  qed
  have "sys_run (m_parse_key m) (run_verify r) ?S fs S'" unfolding sys_run_trace by (rule fs(1))
  then have "dev_inv (m_parse_key m) C view p (sy_srv S')"
    by (rule dev_inv_run) (use inv p(2) C calm in simp_all)
  moreover have n': "network (alloc (sy_srv S')) = n" "ipv4_net n p"
    using port.run_keeps [OF es(1) l es(2)] srv_invD(3) [of p "sy_srv S'"]
    by (auto simp: listening_def serving_def sys_inv_def ipool.leases_def pool_inv_def)
  ultimately have prog: "programmed (m_parse_key m) C (hosts n p) (address_of (sy_srv S')) (view (dev (sy_srv S')))"
    by (simp add: dev_inv_def)
  from programmedD(2,3) [OF prog] n' show ?thesis
    by (intro exI [of _ p] conjI) (fastforce simp: address_of_def)+
qed

theorem port_device_witness:
  "\<exists>pub. plain_key ''laptop'' = Inr pub \<and> fmlookup (mem_view (dev (sy_srv sample_system))) pub = Some [host_net [10, 80, 0, 2]]"
proof -
  have n: "parse_ipv4_cidr (VPNCIDR sample_cfg) = Some (v4InV6Prefix @ [10, 80, 0, 0], sample_net)" by (simp, code_simp)
  have q: "quiet (Served enroll_laptop laptop_reply)"
    by (auto simp: quiet_def failed_def laptop_reply_def enroll_reply_def writeJSON_def)
  have h: "hand_made_elsewhere mem_view sample_net []" by (simp add: hand_made_elsewhere_def mem_view_def)
  have g: "Get (store (sy_srv sample_system)) ''laptop'' = Some sample_peer" by (simp add: sample_system_def store_simps)
  from port_device [OF _ sample_run_empty _ _ n _ _ h _ sample_port_def sample_port_enroll, where C = UNIV] q
  have "\<forall>k q. Get (store (sy_srv sample_system)) k = Some q \<longrightarrow>
      (\<exists>pub. plain_key k = Inr pub \<and> fmlookup (mem_view (dev (sy_srv sample_system))) pub = Some [host_net (p_IP q)])"
    by (auto simp: sample_parses mem_wgctrl_ok mem_removes [unfolded mem_gw_def] plain_key_canonical)
  from this [rule_format, OF g] show ?thesis by simp
qed

end
