(* ===== verification/Defects.thy ===== *)
theory Defects
  imports Sample
begin

text \<open>
  Where the server does not keep what its documentation says, each as a lemma about the code as
  it is. With the races of \<open>Races\<close> these are the reasons for the hypotheses of the theorems: that
  no request is answered 500, and that a key has one text.
\<close>

section \<open>A failed re-enrolment frees an address that is still leased\<close>

text \<open>
  When \<open>AddPeer\<close> fails, \<open>handleEnroll\<close> releases the address, also if it did not allocate it:
  the device that was enrolled keeps its record while its address can be given to another.
\<close>

lemma failed_reenroll:
  assumes inv: "srv_inv p s" and h: "handleEnroll pk now ks (Inr req) claims s = Ok (r, s')"
    and q: "Get (store s) (er_PublicKey req) = Some q" and r: "status r = 500"
  shows "Get (store s') (er_PublicKey req) = Some q" and "p_IP q \<notin> taken (alloc s')"
proof -
  have "Get (store s') (er_PublicKey req) = Some q \<and> p_IP q \<notin> taken (alloc s')"
    using inv h
  proof (cases rule: handleEnroll_cases)
    case (gateway_error req' pub expiry tid ip a d err)
    with q have "ip = p_IP q" by (auto simp: address_for_def)
    with gateway_error q srv_inv_peer(5) [OF inv q] show ?thesis by (simp add: taken_Release)
  qed (use r in auto)
  then show "Get (store s') (er_PublicKey req) = Some q" and "p_IP q \<notin> taken (alloc s')" by simp_all
qed

text \<open>It happens whenever the owner enrols again while the gateway fails.\<close>

lemma reenroll_fails:
  assumes inv: "srv_inv p s" and adm: "admitted pk now ks req claims s pub expiry tid"
    and q: "Get (store s) (er_PublicKey req) = Some q" "p_Subject q = c_Subject claims"
    and down: "AddPeer (gw s) pub (p_IP q) (dev s) = (d, Some err)"
  shows "\<exists>r s'. handleEnroll pk now ks (Inr req) claims s = Ok (r, s') \<and> status r = 500"
  using q down
  by (simp add: handleEnroll_admitted [OF adm] enroll_address_def enroll_commit_def writeErr_def writeJSON_def)

section \<open>One key under two texts\<close>

text \<open>
  The store is keyed by the text of the request, the device by the key it decodes to. A second
  text of an enrolled key is a new key to the store: whoever enrols it is given an address, and
  the device's entry of the first owner is replaced by it.
\<close>

lemma second_text_takes_over:
  assumes inv: "srv_inv p s" and g: "gateway_ok view (gw s)"
    and k: "pk k = Inr pub" "pk (er_PublicKey req) = Inr pub" "er_PublicKey req \<noteq> k"
    and q: "Get (store s) k = Some q" and new: "Get (store s) (er_PublicKey req) = None"
    and h: "handleEnroll pk now ks (Inr req) claims s = Ok (r, s')" and r: "status r = 200"
  shows "Get (store s') k = Some q"
    and "\<exists>ip. ip \<noteq> p_IP q \<and> fmlookup (view (dev s')) pub = Some [host_net ip]"
proof -
  have "Get (store s') k = Some q \<and> (\<exists>ip. ip \<noteq> p_IP q \<and> fmlookup (view (dev s')) pub = Some [host_net ip])"
    using inv h
  proof (cases rule: handleEnroll_cases)
    case (enrolled req' pub' expiry tid ip a d)
    have "pub' = pub" using enrolled(1,2) k(2) by (simp add: admitted_def)
    with gateway_AddPeer [OF g enrolled(4)] have "fmlookup (view d) pub = Some [host_net ip]" by simp
    moreover have "ip \<noteq> p_IP q"
      using enrolled(1,3) new Allocate_Inr(2) [OF srv_inv_pool [OF inv]] srv_inv_peer(4) [OF inv q]
      by (auto simp: address_for_def)
    ultimately show ?thesis using enrolled(1,6) q k(3) by (auto simp: store_simps)
  qed (use r in auto)
  then show "Get (store s') k = Some q"
    and "\<exists>ip. ip \<noteq> p_IP q \<and> fmlookup (view (dev s')) pub = Some [host_net ip]" by simp_all
qed

lemma two_texts: "loose_key (''laptop'' @ [CHR 0x0A]) = loose_key ''laptop''"
  by (simp add: loose_key_def)

end
