(* ===== verification/Spec2Isabelle.thy ===== *)
theory Spec2Isabelle
  imports Pool_Claims Tenant_Claims Provider_Claims Concurrency_Claims Port_Claims Defects
begin

text \<open>
  \<^bold>\<open>The Claimward VPN server.\<close> The server authenticates devices against an identity provider,
  leases each an address of the VPN's pool, and programs the WireGuard device of its host with
  one peer per leased address. Beside the enrolment API it pushes routes to devices over gRPC,
  has a management API for tenants, exports metrics, drops leases that end, and with a go-authn
  provider drops devices whose key has been withdrawn. This development is a model of that server in HOL,
  definition by definition from the Go sources, with the theorems that make it correct.

  \<^bold>\<open>Parts and theories.\<close>
  \<^item> \<open>Prelude\<close>, \<open>Go_Strings\<close>, \<open>Go_Net\<close>, \<open>Go_Float\<close>: base types and the outcome type, and the
    parts of Go's \<open>strings\<close>, \<open>strconv\<close> and \<open>net\<close>, and of its conversions, the sources use (\<open>TrimSpace\<close>, \<open>EqualFold\<close>,
    \<open>LastIndex\<close>, \<open>Contains\<close>, \<open>To4\<close>, IPv4 text and prefixes).
  \<^item> \<open>Ipam\<close> (\<open>internal/ipam\<close>): the allocator. \<open>Address_Pool\<close> is its contract as a locale,
    with the table of leases over any pool; \<open>ipool\<close> interprets it on \<open>Allocate\<close> and \<open>Release\<close>.
  \<^item> \<open>Peer_Store\<close> (\<open>internal/store\<close>): the enrolled devices; locale \<open>peer_registry\<close>,
    interpreted as \<open>preg\<close>.
  \<^item> \<open>Gateway\<close> (\<open>internal/wg\<close>): the WireGuard gateway and the sweep at startup. \<open>gateway_ok\<close>
    is what callers rely on; it follows for \<open>wgctrlGateway\<close> from what wgctrl documents (\<open>wgctrl_ok\<close>).
  \<^item> \<open>Tenant\<close>, \<open>Route_Push\<close> (\<open>internal/tenant\<close>): tenants, membership, and the channels
    of route updates, with the store as a transition system \<open>ts_step\<close>.
  \<^item> \<open>Auth\<close> (\<open>internal/auth\<close>): the GitHub, OIDC and go-authn verifiers and their factory.
  \<^item> \<open>Registry\<close> (\<open>internal/peers\<close>): the keys registered with a go-authn provider; locale
    \<open>admission\<close>, interpreted as \<open>reg\<close>.
  \<^item> \<open>Config\<close> (\<open>internal/config\<close>): the environment and its checks.
  \<^item> \<open>Api\<close> (\<open>internal/api\<close>): the handlers, reaper and reconciliation, over the record \<open>Server\<close>.
    \<open>Api_Correct\<close>, \<open>Api_Requests\<close> and \<open>Api_Device\<close> hold its invariant \<open>srv_inv\<close>, how each
    request ends, and the agreement \<open>dev_inv\<close> of device and leases.
  \<^item> \<open>Grpcsrv\<close> (\<open>internal/grpcsrv\<close>), \<open>Admin\<close> (\<open>internal/admin\<close>), \<open>Metrics\<close>
    (\<open>internal/metrics\<close>), \<open>Ssf_Poll\<close> (\<open>internal/ssfpoll\<close>): watches, the management API and the
    scrape, the collector and its descriptors, and the Shared Signals poller, with the redirects its
    HTTP client follows.
  \<^item> \<open>Fake_Authn\<close>, \<open>Fake_Poll\<close> (\<open>internal/fakeauthn\<close>): the provider of the tests, and the
    poller run against it.
  \<^item> \<open>Startup\<close> (\<open>cmd/claimward-server\<close>): how \<open>run\<close> puts the parts together and the loops it
    leaves running. \<open>System\<close> is the running server: a step is a request, a reap, a list of keys,
    a management call, a step of a watcher, or time passing (\<open>sys_step\<close>, \<open>sys_run\<close>).
  \<^item> \<open>Serve_Mux\<close>, \<open>Front\<close>, \<open>Front_Routes\<close>, \<open>Route_Table\<close>: Go's \<open>http.ServeMux\<close>, the root mux of \<open>run\<close> with the
    mux of the enrolment API and the routes of \<open>internal/admin\<close> over raw requests, and which request
    reaches which handler, as a table. The locale \<open>handler_contract\<close> carries a contract of every handler to the
    mux; \<open>front\<close> interprets it on \<open>well_guarded\<close>. \<open>Logging\<close>: the middleware \<open>withLogging\<close> and its
    status writer. \<open>Process\<close>: how \<open>main\<close> ends, and the shutdown.
  \<^item> \<open>Goroutines\<close>: the handlers of \<open>internal/api\<close> and its two loops as goroutines, one locked
    operation at a time (\<open>task\<close>, \<open>task_step\<close>); left alone, one is its handler of \<open>Api\<close>
    (\<open>goroutine_is_handler\<close>). \<open>Interleavings\<close>: any number of them over one
    server (\<open>conc_step\<close>), and what holds in every order. \<open>Separate_Keys\<close>: the ledger of stored
    and held addresses while they work on different keys; \<open>Separate_Device\<close>: the device meanwhile.
    \<open>Overlaps\<close>: what can happen on one key.
  \<^item> \<open>Traces\<close>: runs of labelled systems, forward simulation between two as the locale
    \<open>simulates\<close>, and its composition \<open>simulates_through\<close>. \<open>Lease_Book\<close>: the abstract specification,
    a book of leases. Three systems implement it: the serial server of \<open>System\<close> (interpretation
    \<open>server\<close>); the port of \<open>Port\<close>, where a started server meets raw requests, through the serial
    server (\<open>port\<close>); and, in \<open>Separate_Book\<close>, the goroutines of \<open>Interleavings\<close> while they work on
    different keys (\<open>apart\<close>).
  \<^item> \<open>Races\<close>, \<open>Defects\<close>: what goes wrong when requests overlap, when the gateway fails on
    a re-enrolment, and when a key has two texts.
  \<^item> \<open>Sample\<close>: a concrete device, configuration and server, on which the hypotheses of the
    theorems hold together.

  \<^bold>\<open>What is shown.\<close> \<open>Port_Claims\<close>: from \<open>run\<close> on, whatever raw requests arrive, the server
  implements the book of leases and the device has what the book says, while no request is answered
  500 and under the conditions each states. This theory has the other
  properties that span components: addresses are exclusive, requests act only for the identity
  their token proves, startup establishes the invariants, and what each request and background task
  does on every branch. \<open>Pool_Claims\<close>: the allocator finds the least free host,
  pools made from text, the address arithmetic, the sweep. \<open>Tenant_Claims\<close>: membership, updates
  and watchers, the management API and the metrics. \<open>Provider_Claims\<close>: whom the registry admits,
  what a loaded configuration has, what an accepted credential shows, and what the poller sends,
  acknowledges and delivers, and where a redirect can lead it. \<open>Concurrency_Claims\<close>: every
  interleaving is safe; while goroutines work on different keys addresses are exclusive, the device
  is in step and every operation is a step of the book, and not without that. \<open>Front_Claims\<close>: every
  request to the port is answered and changes only what its token allows, the routes, and the log.

  \<^bold>\<open>Conventions.\<close> A Go string is its bytes (\<open>string\<close>); case folding is that of ASCII, exact for
  ASCII domains, and in \<open>slug\<close> for any text. A gauge is the natural number its \<open>float64\<close> is
  (\<open>Go_Float\<close>). Instants and
  durations are nanoseconds as \<open>int\<close>; a request runs at one instant, except in \<open>Interleavings\<close>. Serial numbers are 64-bit
  words and wrap; so does the token lifetime of the poller. Errors are values: \<open>result\<close> is a Go pair
  with an error, \<open>outcome\<close> adds panicking and blocking for ever. A Go map is an \<open>fmap\<close>, and a loop
  that ranges over one takes the order of its keys as an argument, \<open>ranges_over\<close> being the only
  assumption on it. Channels are cells of a heap with their buffer and whether they are closed; the
  counter of subscriptions is not bounded. A pointer to a peer is the peer: \<open>Renew\<close> changes only
  its lease in place, and no handler reads a lease from a pointer it keeps. \<open>%q\<close> is \<open>quoted\<close>, which does not escape. Every loop of the server but its
  tickers and watches ends: \<open>alloc_loop\<close> is a function with a measure, the rest is structural. The
  tickers and watches are runs over a finite list of their events, of any length; no fuel is used.

  \<^bold>\<open>Parameters.\<close> Code outside the repository is an argument of the definitions that use it: the
  parser of WireGuard keys (\<open>parse_key\<close>; where it matters that a key has one text, the set of
  such texts is \<open>canonical\<close>), wgctrl (\<open>configure\<close>, \<open>device\<close>), the token libraries and the
  GitHub API (\<open>Providers\<close>), the fetch of the signed list, \<open>net.ParseCIDR\<close> on text that is not
  IPv4 (\<open>parses_ipv4\<close>), \<open>time.ParseDuration\<close>, \<open>url.Parse\<close>, JSON decoding, the network and its
  listeners (\<open>Machine\<close>, \<open>Listener\<close>), the paths of the client's protocol (\<open>Paths\<close>), Prometheus
  (\<open>register\<close>), and for the provider of the tests its key and \<open>json.Marshal\<close>.

  \<^bold>\<open>Not modelled.\<close> Log lines other than the one per request of the enrolment API; TLS and the HTTP and gRPC
  transports below a request and its answer; the content of the embedded web pages
  (\<open>internal/adminui\<close>, \<open>admin-ui\<close>) and of the text format of metrics; the graceful stop of the
  gRPC server; the error of closing the gateway, which \<open>run\<close> drops; the server's private key beyond
  its parsing.
  Requests are serialised in \<open>System\<close>, and interleave operation by operation in
  \<open>Interleavings\<close>; the memory model below a lock is not part of either. A server that overlaps
  requests on one key does not implement the book (\<open>Races\<close>, \<open>Overlaps\<close>).
\<close>

section \<open>The running server\<close>

text \<open>
  C2: Whatever sequence of requests, reaps, list refreshes, management calls, watches and ticks
  the server has gone through, with no request answered 500, two enrolled devices have the same
  address only if they are the same device, every enrolled address is a host of the pool that is
  marked as used, and none is the gateway's own.
\<close>

theorem addresses_exclusive:
  assumes "sys_run pk verify S es S'" "sys_inv p S" "\<forall>e \<in> set es. calm e"
    and "Get (store (sy_srv S')) k = Some q" "Get (store (sy_srv S')) k' = Some q'"
  shows "(p_IP q = p_IP q' \<longleftrightarrow> k = k') \<and> p_IP q \<in> hosts (network (alloc (sy_srv S'))) p \<and>
    p_IP q \<in> taken (alloc (sy_srv S')) \<and> p_IP q \<noteq> ServerIP (alloc (sy_srv S'))"
proof -
  have inv: "srv_inv p (sy_srv S')" using sys_inv_run [OF assms(1-3)] by (simp add: sys_inv_def)
  have "address_of (sy_srv S') k = Some (p_IP q)" "address_of (sy_srv S') k' = Some (p_IP q')"
    using assms(4,5) by (simp_all add: address_of_def)
  then have "p_IP q = p_IP q' \<longleftrightarrow> k = k'"
    using ipool.leases_distinct [OF srv_invD(3) [OF inv], of k "p_IP q" k'] by auto
  with srv_inv_peer [OF inv assms(4)] show ?thesis by (simp add: ServerIP_def)
qed

theorem addresses_exclusive_witness:
  "([10, 80, 0, 2 :: u8] = [10, 80, 0, 2] \<longleftrightarrow> ''laptop'' = ''laptop'') \<and>
   p_IP sample_peer \<in> hosts (network (alloc sample_peer_srv)) 24 \<and>
   p_IP sample_peer \<in> taken (alloc sample_peer_srv) \<and> p_IP sample_peer \<noteq> ServerIP (alloc sample_peer_srv)"
proof -
  have r: "sys_run plain_key sample_verify sample_system [] sample_system" by (rule sys_run.start)
  have g: "Get (store (sy_srv sample_system)) ''laptop'' = Some sample_peer"
    by (simp add: sample_system_def store_simps)
  from addresses_exclusive [OF r sample_sys_inv _ g g] show ?thesis by (simp add: sample_system_def)
qed

text \<open>
  The server of \<open>System\<close> implements the book of leases. Along every run with no request answered 500,
  the store seen as a book takes one step of the book for each event: the clock, an expiry for a
  reap, nothing or a withdrawal for a list of keys, nothing for management calls and watches, and
  for a request nothing or a grant, an extension or a return of the lease it names, in the name
  of the identity its token proves. The book's own laws hold of it: every address is a host of
  the pool other than the gateway's, no two leases share one, and none runs longer than the
  configured time.
\<close>

theorem server_refines_book:
  assumes "sys_run pk verify S es S'" "sys_inv p S" "\<forall>e \<in> set es. calm e"
  shows "\<exists>as. book_run (LeaseTTL (cfg (sy_srv S))) (pool_of p S) (book_of S) as (book_of S') \<and>
    list_all2 (explains verify) es as \<and> book_ok (LeaseTTL (cfg (sy_srv S))) (pool_of p S) (book_of S')"
proof -
  have S: "serving p (LeaseTTL (cfg (sy_srv S))) (network (alloc (sy_srv S))) S" using assms(2) by (simp add: serving_def)
  from server.run_simulated [OF assms(1) [unfolded sys_run_trace] S assms(3)] show ?thesis
    using book_ok_run [OF _ serving_book [OF S]] unfolding serving_pool [OF S] by blast
qed

theorem server_refines_book_witness:
  "\<exists>S' as. sys_run plain_key sample_verify sample_system [Tick, Reaped] S' \<and>
     book_run (24 * hour) (pool_of 24 sample_system) (book_of sample_system) as (book_of S') \<and> as = [Elapse, Expire]"
proof -
  let ?S = "sample_system\<lparr>sy_now := 26 * hour\<rparr>"
  let ?S' = "?S\<lparr>sy_srv := ReapExpired plain_key (sy_now ?S) [''laptop''] (sy_srv ?S)\<rparr>"
  have "sys_run plain_key sample_verify sample_system ([] @ [Tick]) ?S"
    by (intro sys_run.step [OF sys_run.start] sys_step.tick) (simp add: sample_system_def hour_def second_def)
  then have "sys_run plain_key sample_verify sample_system (([] @ [Tick]) @ [Reaped]) ?S'"
    by (rule sys_run.step) (rule sys_step.reap, use sample_peers in \<open>simp add: sample_system_def\<close>)
  then have r: "sys_run plain_key sample_verify sample_system [Tick, Reaped] ?S'" by simp
  from server_refines_book [OF r sample_sys_inv] obtain as where
    "book_run (LeaseTTL (cfg (sy_srv sample_system))) (pool_of 24 sample_system) (book_of sample_system) as (book_of ?S')"
    "list_all2 (explains sample_verify) [Tick, Reaped] as"
    by (auto simp: calm_def)
  with r show ?thesis
    by (intro exI [of _ ?S'] exI [of _ as]) (auto simp: list_all2_Cons1 sample_system_def)
qed

text \<open>
  C3: A request changes the record of a key only if its bearer token was verified, and then only
  on behalf of that identity: a record that was there belonged to it, and a record that is there
  afterwards belongs to it, is for a tenant the person is a member of, runs as long as the
  configuration and the registration allow, and keeps the address the key had.
\<close>

theorem request_changes_only_own:
  assumes "srv_inv p s" "ranges_over ks (tenants (tstore s))"
    and "Handler pk verify now ks hdr c s = Ok (r, s')" "Get (store s') k \<noteq> Get (store s) k"
  shows "\<exists>claims. bearerToken hdr \<noteq> [] \<and> verify (bearerToken hdr) = Inr claims \<and>
    (\<forall>q. Get (store s) k = Some q \<longrightarrow> p_Subject q = c_Subject claims) \<and>
    (\<forall>q'. Get (store s') k = Some q' \<longrightarrow> p_Subject q' = c_Subject claims \<and>
       p_Tenant q' \<in> tenants_of (tstore s) (Tenancy claims) \<and>
       registered now s k claims (now + LeaseTTL (cfg s)) = Some (p_LeaseExpiry q') \<and>
       (\<forall>q. Get (store s) k = Some q \<longrightarrow> p_IP q' = p_IP q))"
proof (rule Handler_change [OF assms])
  fix claims
  assume "bearerToken hdr \<noteq> []" "verify (bearerToken hdr) = Inr claims" "own_change now s claims k (Get (store s') k)"
  then show ?thesis by (intro exI [of _ claims]) (simp add: own_change_def granted_def)
qed

theorem request_changes_only_own_witness:
  "\<exists>claims. sample_verify ''A'' = Inr claims \<and> p_Subject sample_peer = c_Subject claims"
proof -
  have "Get (store sample_peer_srv) ''laptop'' \<noteq> Get (store sample_srv) ''laptop''"
    by (simp add: store_simps) (simp add: sample_srv_def)
  from request_changes_only_own [OF sample_srv_inv sample_srv_tenants sample_Handler_enroll this]
  show ?thesis by (simp add: sample_bearer store_simps) blast
qed

text \<open>
  C6: Every request is answered, whatever it contains and in whatever order the map of tenants
  is visited: no handler panics or blocks, and without a gateway failure the invariant of the
  server holds afterwards.
\<close>

theorem request_answered:
  assumes "srv_inv p s" "ranges_over ks (tenants (tstore s))"
  shows "\<exists>r s'. Handler pk verify now ks hdr c s = Ok (r, s') \<and> (status r \<noteq> 500 \<longrightarrow> srv_inv p s')"
proof -
  obtain r s' where h: "Handler pk verify now ks hdr c s = Ok (r, s')" using Handler_total [OF assms] by blast
  then show ?thesis using Handler_inv [OF assms h calm_reenroll] by blast
qed

theorem request_answered_witness:
  "\<exists>r s'. Handler plain_key sample_verify hour [DefaultID] ''Bearer B'' (Deregister (Inr ''laptop'')) sample_peer_srv =
     Ok (r, s') \<and> (status r \<noteq> 500 \<longrightarrow> srv_inv 24 s')"
  by (rule request_answered [OF sample_peer_srv_inv sample_tenants])

text \<open>
  As long as the gateway reports no error and every enrolled key text is from a set of
  canonical ones, the device and the leases agree along every run: each enrolled device is on
  the device under its key with exactly its own \<open>/32\<close>, and a peer of the device has a pool
  address among its allowed IPs only if it is enrolled with that address.
\<close>

theorem device_matches_leases:
  assumes "sys_run pk verify S es S'" "sys_inv p S" "dev_inv pk C view p (sy_srv S)" "canonical pk C"
    and "\<forall>e \<in> set es. calm e \<and> keys_in C e"
  shows "(\<forall>k q. Get (store (sy_srv S')) k = Some q \<longrightarrow>
      (\<exists>pub. pk k = Inr pub \<and> fmlookup (view (dev (sy_srv S'))) pub = Some [host_net (p_IP q)])) \<and>
    (\<forall>pub nets ip. fmlookup (view (dev (sy_srv S'))) pub = Some nets \<longrightarrow>
      ip \<in> hosts (network (alloc (sy_srv S'))) p \<longrightarrow> host_net ip \<in> set nets \<longrightarrow>
      (\<exists>k q. Get (store (sy_srv S')) k = Some q \<and> pk k = Inr pub \<and> p_IP q = ip))"
proof -
  have "programmed pk C (hosts (network (alloc (sy_srv S'))) p) (address_of (sy_srv S')) (view (dev (sy_srv S')))"
    using dev_inv_run [OF assms] by (simp add: dev_inv_def)
  from programmedD(2,3) [OF this] show ?thesis by (fastforce simp: address_of_def)
qed

theorem device_matches_leases_witness:
  "\<exists>pub. plain_key ''laptop'' = Inr pub \<and>
     fmlookup (mem_view (dev sample_peer_srv)) pub = Some [host_net [10, 80, 0, 2]]"
proof -
  have r: "sys_run plain_key sample_verify sample_system [] sample_system" by (rule sys_run.start)
  have d: "dev_inv plain_key UNIV mem_view 24 (sy_srv sample_system)"
    by (simp add: sample_system_def sample_dev_inv)
  have g: "Get (store (sy_srv sample_system)) ''laptop'' = Some sample_peer"
    by (simp add: sample_system_def store_simps)
  from conjunct1 [OF device_matches_leases [OF r sample_sys_inv d plain_key_canonical], rule_format, OF _ g]
  show ?thesis by (simp add: sample_system_def)
qed

text \<open>
  C5: A server that starts begins in a state with the invariants of the running server: nobody
  enrolled, the pool with only the gateway's address used, and no peer of a previous run left on
  the device with an address of the pool. With go-authn the list of registered keys has been read before anything is
  served. This is for a server that is not a dry run, with a \<open>VPN_CIDR\<close> that is the text of an
  IPv4 prefix, on a device that behaves as wgctrl documents and removes what it is asked to, and
  whose peers configured by hand, those the sweep does not recognise as this server's, have no
  single address of the pool among their allowed IPs.
\<close>

theorem startup_establishes:
  assumes "parses_ipv4 (m_parse_cidr m)" "run m d = (Inr r, d')"
    and "m_load m = Inr c" "\<not> DryRun c" "parse_ipv4_cidr (VPNCIDR c) \<noteq> None"
    and "wgctrl_ok view (m_configure m) (m_device m) (WGInterface c)"
    and "removes (wgctrlGateway (m_wg_close m) (m_configure m) (m_device m) (WGInterface c))"
    and "\<And>ip pool. m_parse_cidr m (VPNCIDR c) = Inr (ip, pool) \<Longrightarrow> hand_made_elsewhere view pool d"
  shows "(\<exists>p. sys_inv p \<lparr>sy_srv = run_srv r, sy_now = now\<rparr> \<and> dev_inv pk C view p (run_srv r)) \<and>
    store (run_srv r) = New_Store \<and> taken (alloc (run_srv r)) = {serverIP (alloc (run_srv r))} \<and>
    (AuthProvider c = ''go-authn'' \<longrightarrow>
      (\<exists>l. m_first_list m = Inr l \<and> registry (run_srv r) = Some (snd (Refresh (Inr l) New_Registry))))"
proof -
  obtain p where p: "srv_inv p (run_srv r)" "dev_inv pk C view p (run_srv r)"
    using run_dev_inv [OF assms(1-7)] assms(8) by blast
  have st: "ts_fresh (tstore (run_srv r)) \<and> leases_bounded now (run_srv r) \<and> store (run_srv r) = New_Store \<and> (AuthProvider c = ''go-authn'' \<longrightarrow>
      (\<exists>l. m_first_list m = Inr l \<and> registry (run_srv r) = Some (snd (Refresh (Inr l) New_Registry))))"
  proof (rule run_Inr [OF assms(2)])
    fix c' priv verify a g ip pool n
    assume c': "m_load m = Inr c'" and s: "run_servers m c' verify (m_public m priv) a g d' = Inr r"
    let ?s = "New_Server c' a New_Store g d' (New_TStore (PushRoutes c') (DNS c')) (m_public m priv)"
    have "tstore (run_srv r) = tstore ?s" "store (run_srv r) = store ?s"
      by (subst run_servers_Inr(1) [OF s], simp)+
    then have "ts_fresh (tstore (run_srv r))" "leases_bounded now (run_srv r)"
      by (simp_all add: ts_fresh_New leases_bounded_def)
    with run_servers_Inr(2) [OF s] c' assms(3) \<open>store (run_srv r) = store ?s\<close> show ?thesis by (simp add: Refresh_def)
  qed
  then have "taken (alloc (run_srv r)) = {serverIP (alloc (run_srv r))}"
    using srv_inv_taken [OF p(1)] by simp
  with p st show ?thesis by (auto simp: sys_inv_def)
qed

theorem startup_establishes_witness:
  "\<exists>r p. run sample_machine left_over = (Inr r, after_start) \<and>
     sys_inv p \<lparr>sy_srv = run_srv r, sy_now = 0\<rparr> \<and> dev_inv plain_key UNIV mem_view p (run_srv r)"
proof -
  obtain r where r: "run sample_machine left_over = (Inr r, after_start)" using sample_run by blast
  have h: "hand_made_elsewhere mem_view sample_net left_over"
    unfolding hand_made_elsewhere_def
  proof (intro allI impI)
    fix k nets ip
    assume "fmlookup (mem_view left_over) k = Some nets" "host_net ip \<in> set nets" "length ip = 4"
      "\<not> ours \<lparr>wp_PublicKey = k, wp_AllowedIPs = nets\<rparr> sample_net"
    then consider "nets = [host_net [10, 80, 0, 9]]" | "nets = [\<lparr>net_IP = [192, 168, 0, 0], net_Mask = [255, 255, 0, 0]\<rparr>]"
      by (auto simp: mem_view_def left_over_def fmlookup_of_list split: if_splits)
    then show "\<not> Contains sample_net ip"
    proof cases
      case 1
      then have "ours \<lparr>wp_PublicKey = k, wp_AllowedIPs = nets\<rparr> sample_net"
        using ours_host_net [OF sample_ipv4_net, of "[10, 80, 0, 9]" k] by simp code_simp
      with \<open>\<not> ours _ _\<close> show ?thesis by blast
    next
      case 2
      with \<open>host_net ip \<in> set nets\<close> have "host_net ip = \<lparr>net_IP = [192, 168, 0, 0], net_Mask = [255, 255, 0, 0]\<rparr>"
        by simp
      then have "CIDRMask 32 32 = [255, 255, 0, 0]" by (simp add: host_net_def)
      moreover have "CIDRMask 32 32 \<noteq> [255, 255, 0, 0]" by code_simp
      ultimately show ?thesis by blast
    qed
  qed
  have v4: "parse_ipv4_cidr ''10.80.0.0/24'' \<noteq> None" by code_simp
  have "(\<exists>p. sys_inv p \<lparr>sy_srv = run_srv r, sy_now = 0\<rparr> \<and> dev_inv plain_key UNIV mem_view p (run_srv r)) \<and>
    store (run_srv r) = New_Store \<and> taken (alloc (run_srv r)) = {serverIP (alloc (run_srv r))} \<and>
    (AuthProvider sample_cfg = ''go-authn'' \<longrightarrow>
      (\<exists>l. m_first_list sample_machine = Inr l \<and> registry (run_srv r) = Some (snd (Refresh (Inr l) New_Registry))))"
    using mem_removes h v4
    by (intro startup_establishes [OF _ r, where c = sample_cfg])
      (auto simp: sample_parses mem_wgctrl_ok mem_gw_def sample_cidr)
  with r show ?thesis by blast
qed

text \<open>
  Without a bearer token the configured provider accepts, every route but the health check
  answers 401 and nothing changes.
\<close>

theorem unauthenticated_inert:
  assumes "c \<noteq> Healthz" "bearerToken hdr = [] \<or> (\<exists>e. verify (bearerToken hdr) = Inl e)"
  shows "\<exists>r. Handler pk verify now ks hdr c s = Ok (r, s) \<and> status r = 401"
proof (cases rule: Handler_cases [of c pk verify now ks hdr s])
  case (unauthenticated r)
  then show ?thesis by blast
qed (use assms in auto)

theorem unauthenticated_inert_witness:
  "\<exists>r. Handler plain_key sample_verify 0 [DefaultID] ''Basic A'' (Deregister (Inr ''laptop'')) sample_peer_srv =
     Ok (r, sample_peer_srv) \<and> status r = 401"
proof -
  have "bearerToken ''Basic A'' = []" by code_simp
  then show ?thesis by (intro unauthenticated_inert) simp_all
qed

section \<open>Requests\<close>

text \<open>
  C12: What an enrolment answered with 200 has done. The request passed every check; the device
  is programmed with the address and stored with its owner, tenant and lease; every other record
  is as it was; the answer carries the address, and the routes and resolvers of the tenant; the
  address is a host of the pool, the one the key already had, or one nobody had.
\<close>

theorem enroll_success:
  assumes inv: "srv_inv p s" and h: "handleEnroll pk now ks b claims s = Ok (r, s')" and ok: "status r = 200"
  shows "\<exists>req pub expiry tid ip q. b = Inr req \<and> pk (er_PublicKey req) = Inr pub \<and>
    registered now s (er_PublicKey req) claims (now + LeaseTTL (cfg s)) = Some expiry \<and>
    chooseTenant ks s (er_Tenant req) claims = Ok (Inr tid) \<and>
    AddPeer (gw s) pub ip (dev s) = (dev s', None) \<and>
    Get (store s') = (Get (store s))(er_PublicKey req \<mapsto> q) \<and>
    p_Subject q = c_Subject claims \<and> p_IP q = ip \<and> p_Tenant q = tid \<and> p_LeaseExpiry q = expiry \<and>
    r = enroll_reply s expiry tid ip \<and> ip \<in> hosts (network (alloc s)) p \<and>
    (case Get (store s) (er_PublicKey req) of
       None \<Rightarrow> (\<forall>k q. Get (store s) k = Some q \<longrightarrow> p_IP q \<noteq> ip)
     | Some old \<Rightarrow> p_Subject old = c_Subject claims \<and> p_IP old = ip)"
  using inv h
proof (cases rule: handleEnroll_cases)
  case (enrolled req pub expiry tid ip a d)
  have "ip \<in> hosts (network (alloc s)) p"
    using address_for_leases [OF inv enrolled(3)] ipool.leases_busy [of p a _ "er_PublicKey req" ip]
      address_for_fresh(3) [OF inv enrolled(3)] by fastforce
  moreover have "case Get (store s) (er_PublicKey req) of
       None \<Rightarrow> (\<forall>k q. Get (store s) k = Some q \<longrightarrow> p_IP q \<noteq> ip)
     | Some old \<Rightarrow> p_Subject old = c_Subject claims \<and> p_IP old = ip"
    using enrolled(3) address_for_fresh(1) [OF inv enrolled(3)]
    by (force simp: address_for_def address_of_def split: option.splits)
  ultimately show ?thesis
    using enrolled
    by (intro exI [of _ req] exI [of _ pub] exI [of _ expiry] exI [of _ tid] exI [of _ ip]
        exI [of _ "new_peer now req claims expiry tid ip"])
      (auto simp: admitted_def fun_eq_iff store_simps)
qed (use ok in auto)

theorem enroll_success_witness:
  "\<exists>ip pub. AddPeer mem_gw pub ip [] = (dev sample_peer_srv, None) \<and> ip \<in> hosts sample_net 24"
proof -
  have g: "gw sample_srv = mem_gw" "dev sample_srv = []" "network (alloc sample_srv) = sample_net"
    by (simp_all add: sample_srv_def sample_alloc_def)
  from enroll_success [OF sample_srv_inv sample_enroll] show ?thesis by (simp add: g) blast
qed

text \<open>
  C21: An enrolment that passes the checks succeeds when the gateway takes the peer and the key
  is new while a host of the pool is free, or is enrolled by the caller.
\<close>

theorem enroll_progress:
  assumes inv: "srv_inv p s" and k: "pk (er_PublicKey req) = Inr pub"
    and reg: "registered now s (er_PublicKey req) claims (now + LeaseTTL (cfg s)) = Some expiry"
    and t: "chooseTenant ks s (er_Tenant req) claims = Ok (Inr tid)"
    and up: "\<And>ip. snd (AddPeer (gw s) pub ip (dev s)) = None"
    and own: "case Get (store s) (er_PublicKey req) of
       None \<Rightarrow> \<not> hosts (network (alloc s)) p \<subseteq> taken (alloc s)
     | Some q \<Rightarrow> p_Subject q = c_Subject claims"
  shows "\<exists>r s'. handleEnroll pk now ks (Inr req) claims s = Ok (r, s') \<and> status r = 200"
proof -
  have adm: "admitted pk now ks req claims s pub expiry tid" using k reg t by (simp add: admitted_def)
  obtain ip a where a: "address_for req claims s ip a"
  proof (cases "Get (store s) (er_PublicKey req)")
    case None
    then have "\<exists>i a'. Allocate (alloc s) = (Inr i, a')"
      using own Allocate_Inl(2) [OF srv_inv_pool [OF inv]] by (cases "Allocate (alloc s)"; cases "fst (Allocate (alloc s))") auto
    with None that show ?thesis by (auto simp: address_for_def)
  next
    case (Some q)
    with own that show ?thesis by (simp add: address_for_def)
  qed
  have ts: "ts_inv (tstore (s\<lparr>alloc := a\<rparr>))" using srv_invD(2) [OF inv] by simp
  from a have "enroll_address req claims s = (Inr ip, s\<lparr>alloc := a\<rparr>)" by (auto simp: enroll_address_Inr)
  then show ?thesis
    using up [of ip] by (cases "AddPeer (gw s) pub ip (dev s)")
      (simp add: handleEnroll_admitted [OF adm] enroll_commit_Ok [OF ts])
qed

theorem enroll_progress_witness:
  "\<exists>r s'. handleEnroll plain_key hour [DefaultID] (Inr (sample_req ''laptop'')) alice sample_srv = Ok (r, s') \<and>
     status r = 200"
proof (rule enroll_progress [OF sample_srv_inv])
  note adm = sample_admitted [unfolded admitted_def]
  show "plain_key (er_PublicKey (sample_req ''laptop'')) = Inr (map (\<lambda>c. word_of_nat (of_char c)) ''laptop'')"
    and "registered hour sample_srv (er_PublicKey (sample_req ''laptop'')) alice (hour + LeaseTTL (cfg sample_srv)) = Some (25 * hour)"
    and "chooseTenant [DefaultID] sample_srv (er_Tenant (sample_req ''laptop'')) alice = Ok (Inr DefaultID)"
    using adm by blast+
  show "snd (AddPeer (gw sample_srv) (map (\<lambda>c. word_of_nat (of_char c)) ''laptop'') ip (dev sample_srv)) = None" for ip
    by (simp add: sample_srv_def mem_gw_no_error)
  have "[10, 80, 0, 2] \<in> hosts sample_net 24" "[10, 80, 0, 2] \<notin> taken sample_alloc"
    using Allocate_Inr(1,2) [OF sample_pool_inv sample_Allocate] by (simp_all add: sample_alloc_def)
  then show "case Get (store sample_srv) (er_PublicKey (sample_req ''laptop'')) of
       None \<Rightarrow> \<not> hosts (network (alloc sample_srv)) 24 \<subseteq> taken (alloc sample_srv)
     | Some q \<Rightarrow> p_Subject q = c_Subject alice"
    by (auto simp: sample_srv_def) (auto simp: sample_alloc_def)
qed

text \<open>
  C22: A key that another identity holds, and a full pool. An enrolment that passed the earlier
  checks is refused with 409 when the key is enrolled under another subject, and with 503 when
  the key is new and every host of the pool is used; in both cases nothing has changed and the
  gateway was not called.
\<close>

theorem enroll_refused:
  assumes "pool_inv p (alloc s)" "pk (er_PublicKey req) = Inr pub"
    and "registered now s (er_PublicKey req) claims (now + LeaseTTL (cfg s)) = Some expiry"
    and "chooseTenant ks s (er_Tenant req) claims = Ok (Inr tid)"
  shows "(\<forall>q. Get (store s) (er_PublicKey req) = Some q \<longrightarrow> p_Subject q \<noteq> c_Subject claims \<longrightarrow>
      handleEnroll pk now ks (Inr req) claims s =
        Ok (writeErr 409 ''key_taken'' ''this key is enrolled by another user'', s)) \<and>
    (Get (store s) (er_PublicKey req) = None \<longrightarrow> hosts (network (alloc s)) p \<subseteq> taken (alloc s) \<longrightarrow>
      handleEnroll pk now ks (Inr req) claims s =
        Ok (writeErr 503 ''pool_exhausted'' (''address pool '' @ ipv4_net_String (network (alloc s)) @ '' exhausted''), s))"
proof -
  have adm: "admitted pk now ks req claims s pub expiry tid" using assms(2-4) by (simp add: admitted_def)
  have "Allocate (alloc s) =
      (Inl (''address pool '' @ ipv4_net_String (network (alloc s)) @ '' exhausted''), alloc s)"
    if full: "hosts (network (alloc s)) p \<subseteq> taken (alloc s)"
  proof (cases "Allocate (alloc s)")
    case (Pair r a)
    then show ?thesis
      using full Allocate_Inr(1,2) [OF assms(1)] by (auto simp: Allocate_def split: option.splits)
  qed
  then show ?thesis
    by (auto simp: handleEnroll_admitted [OF adm] enroll_address_def)
qed

theorem enroll_refused_witness:
  "handleEnroll plain_key hour [DefaultID] (Inr (sample_req ''laptop'')) bob sample_peer_srv =
     Ok (writeErr 409 ''key_taken'' ''this key is enrolled by another user'', sample_peer_srv)"
proof -
  have ts: "ts_inv (tstore sample_peer_srv)" by (rule srv_invD(2) [OF sample_peer_srv_inv])
  have "chooseTenant [DefaultID] sample_peer_srv [] bob = Ok (Inr DefaultID)"
    by (cases rule: chooseTenant_Ok [OF ts sample_tenants, of "[]" bob]) (auto simp: sample_tenants_of)
  with conjunct1 [OF enroll_refused [OF srv_inv_pool [OF sample_peer_srv_inv], of plain_key "sample_req ''laptop''"
      "map (\<lambda>c. word_of_nat (of_char c)) ''laptop''" hour bob "25 * hour" "[DefaultID]" DefaultID],
      rule_format, of sample_peer]
  show ?thesis
    by (simp add: plain_key_def sample_req_def registered_def store_simps bob_def hour_def)
qed

text \<open>
  C23: The tenant of an enrolment. With none asked for, a person in one tenant gets it and a
  person in several is asked to choose (409); a tenant asked for is granted exactly to its
  members, and everybody else is refused (403).
\<close>

theorem tenant_choice:
  assumes "ts_inv (tstore s)" "ranges_over ks (tenants (tstore s))"
  shows "(\<forall>tid. chooseTenant ks s asked claims = Ok (Inr tid) \<longleftrightarrow>
      (if asked = [] then tenants_of (tstore s) (Tenancy claims) = {tid}
       else tid = asked \<and> asked \<in> tenants_of (tstore s) (Tenancy claims))) \<and>
    ((\<exists>tid. chooseTenant ks s asked claims = Ok (Inr tid)) \<or>
      (\<exists>why msg. chooseTenant ks s asked claims = Ok (Inl (if asked = [] then 409 else 403, why, msg))))"
proof (rule chooseTenant_Ok [OF assms, of asked claims])
  fix tid
  assume "chooseTenant ks s asked claims = Ok (Inr tid)" "tid \<in> tenants_of (tstore s) (Tenancy claims)"
    "asked \<noteq> [] \<longrightarrow> tid = asked" "asked = [] \<longrightarrow> tenants_of (tstore s) (Tenancy claims) = {tid}"
  then show ?thesis by (cases "asked = []") (simp_all, blast)
next
  fix msg
  assume c: "chooseTenant ks s asked claims = Ok (Inl (409, ''tenant_required'', msg))" "asked = []"
    and two: "\<exists>t u. t \<noteq> u \<and> {t, u} \<subseteq> tenants_of (tstore s) (Tenancy claims)"
  from two obtain t u where "t \<noteq> u" "t \<in> tenants_of (tstore s) (Tenancy claims)"
    "u \<in> tenants_of (tstore s) (Tenancy claims)" by blast
  then have "tenants_of (tstore s) (Tenancy claims) \<noteq> {tid}" for tid by (metis singletonD)
  with c show ?thesis by simp
next
  fix msg
  assume "chooseTenant ks s asked claims = Ok (Inl (403, ''not_a_member'', msg))" "asked \<noteq> []"
    "asked \<notin> tenants_of (tstore s) (Tenancy claims)"
  then show ?thesis by simp
qed

theorem tenant_choice_witness:
  "chooseTenant [DefaultID] sample_srv ''acme'' alice \<noteq> Ok (Inr ''acme'')"
  using tenant_choice [OF srv_invD(2) [OF sample_srv_inv] sample_srv_tenants, of "''acme''" alice]
  by (auto simp: sample_tenants_of DefaultID_def)

text \<open>
  C24: A heartbeat is answered 200 exactly when the key is enrolled by the caller, the caller is
  still a member of the tenant it was enrolled for, and the key is still registered. It then
  moves the end of the lease, to the instant it answers, and nothing else; refused, it changes
  nothing.
\<close>

theorem heartbeat_renews:
  assumes inv: "srv_inv p s" and ks: "ranges_over ks (tenants (tstore s))"
  shows "\<exists>r s'. handleHeartbeat now ks (Inr k) claims s = Ok (r, s') \<and>
    (status r = 200 \<longleftrightarrow> (\<exists>q e. Get (store s) k = Some q \<and> p_Subject q = c_Subject claims \<and>
       p_Tenant q \<in> tenants_of (tstore s) (Tenancy claims) \<and>
       registered now s k claims (now + LeaseTTL (cfg s)) = Some e)) \<and>
    (if status r = 200
     then (\<exists>q e. Get (store s) k = Some q \<and> registered now s k claims (now + LeaseTTL (cfg s)) = Some e \<and>
       body r = HeartbeatBody e \<and> s' = s\<lparr>store := store s'\<rparr> \<and>
       Get (store s') = (Get (store s))(k \<mapsto> q\<lparr>p_LeaseExpiry := e\<rparr>))
     else s' = s)"
proof -
  show ?thesis
    using srv_invD(2) [OF inv] ks
  proof (cases rule: handleHeartbeat_cases [where b = "Inr k" and now = now and claims = claims])
    case (renewed k' q e)
    then have "Get (store (s\<lparr>store := snd (Renew (store s) k e)\<rparr>)) = (Get (store s))(k \<mapsto> q\<lparr>p_LeaseExpiry := e\<rparr>)"
      by (auto simp: fun_eq_iff store_simps)
    with renewed show ?thesis by (simp add: writeJSON_def)
  qed (auto simp: writeErr_def writeJSON_def)
qed

theorem heartbeat_renews_witness:
  "\<exists>r s'. handleHeartbeat (2 * hour) [DefaultID] (Inr ''laptop'') alice sample_peer_srv = Ok (r, s') \<and> status r = 200 \<and>
     Get (store s') ''laptop'' = Some (sample_peer\<lparr>p_LeaseExpiry := 26 * hour\<rparr>)"
proof -
  have "registered (2 * hour) sample_peer_srv ''laptop'' alice (2 * hour + LeaseTTL (cfg sample_peer_srv)) = Some (26 * hour)"
    by (simp add: registered_def)
  moreover have "p_Subject sample_peer = c_Subject alice" "p_Tenant sample_peer \<in> tenants_of (tstore sample_peer_srv) (Tenancy alice)"
    by (simp_all add: alice_def sample_tenants_of)
  ultimately show ?thesis
    using heartbeat_renews [OF sample_peer_srv_inv sample_tenants, of "2 * hour" "''laptop''" alice] sample_Get [of "''laptop''"]
    by (auto simp del: sample_peer_srv_simps)
qed

text \<open>
  C25: Deregistration by the owner removes the record and frees the address, whatever the gateway
  says, and calls \<open>RemovePeer\<close> for a key that parses; the key is off the device if that call
  returned no error, and an error of it is not reported. Another caller is refused and changes
  nothing, and an unknown key is answered as if it had been removed.
\<close>

theorem deregister_removes:
  assumes inv: "srv_inv p s" and g: "gateway_ok view (gw s)"
  shows "case Get (store s) k of
      None \<Rightarrow> handleDeregister pk (Inr k) claims s = (\<lparr>status = 204, body = NoBody\<rparr>, s)
    | Some q \<Rightarrow>
        if p_Subject q \<noteq> c_Subject claims
        then handleDeregister pk (Inr k) claims s =
          (writeErr 403 ''not_owner'' ''this key belongs to another user'', s)
        else (\<exists>s'. handleDeregister pk (Inr k) claims s = (\<lparr>status = 204, body = NoBody\<rparr>, s') \<and> srv_inv p s' \<and>
          Get (store s') = (Get (store s))(k := None) \<and> taken (alloc s') = taken (alloc s) - {p_IP q} \<and>
          (case pk k of
             Inl _ \<Rightarrow> dev s' = dev s
           | Inr pub \<Rightarrow> dev s' = fst (RemovePeer (gw s) pub (dev s)) \<and>
               (snd (RemovePeer (gw s) pub (dev s)) = None \<longrightarrow> view (dev s') = fmdrop pub (view (dev s)))))"
proof (cases "Get (store s) k")
  case (Some q)
  show ?thesis
  proof (cases "p_Subject q = c_Subject claims")
    case True
    let ?s = "drop_peer pk k (p_IP q) s"
    have h: "handleDeregister pk (Inr k) claims s = (\<lparr>status = 204, body = NoBody\<rparr>, ?s)"
      using Some True by (simp add: handleDeregister_def decode_def)
    have d: "dev ?s = (case pk k of Inl _ \<Rightarrow> dev s | Inr pub \<Rightarrow> fst (RemovePeer (gw s) pub (dev s)))"
      by (simp add: drop_peer_def Let_def split: sum.splits)
    have "view (fst (RemovePeer (gw s) pub (dev s))) = fmdrop pub (view (dev s))"
      if "snd (RemovePeer (gw s) pub (dev s)) = None" for pub
      by (rule gateway_RemovePeer [OF g]) (simp add: prod_eq_iff that)
    moreover have "Get (store ?s) = (Get (store s))(k := None)" by (auto simp: fun_eq_iff store_simps)
    moreover have "taken (alloc ?s) = taken (alloc s) - {p_IP q}"
      using srv_inv_peer(5) [OF inv Some] by (simp add: taken_Release)
    ultimately show ?thesis
      using h Some True handleDeregister_inv [OF inv h] d by (auto split: sum.splits)
  qed (use Some in \<open>simp add: handleDeregister_def decode_def\<close>)
qed (simp add: handleDeregister_def decode_def)

theorem deregister_removes_witness:
  "\<exists>s'. handleDeregister plain_key (Inr ''laptop'') alice sample_peer_srv = (\<lparr>status = 204, body = NoBody\<rparr>, s') \<and>
     Get (store s') ''laptop'' = None"
proof -
  have own: "p_Subject sample_peer = c_Subject alice" by (simp add: alice_def)
  have g: "gateway_ok mem_view (gw sample_peer_srv)"
    by (simp add: mem_gateway_ok)
  have q: "Get (store sample_peer_srv) ''laptop'' = Some sample_peer" by (simp add: store_simps)
  from deregister_removes [OF sample_peer_srv_inv g, where k = "''laptop''" and pk = plain_key and claims = alice] own
  obtain s' where "handleDeregister plain_key (Inr ''laptop'') alice sample_peer_srv = (\<lparr>status = 204, body = NoBody\<rparr>, s')"
    "Get (store s') = (Get (store sample_peer_srv))(''laptop'' := None)"
    unfolding q option.case if_not_P [OF not_not [THEN iffD2, OF own]] by blast
  then show ?thesis by auto
qed

section \<open>Background work\<close>

text \<open>
  C15: A reap removes exactly the devices whose lease has ended, whatever order the store is
  visited in; afterwards an address is used only if it is the gateway's or a remaining device's.
\<close>

theorem reap_exact:
  assumes inv: "srv_inv p s" and ks: "ranges_over ks (peers (store s))"
  shows "Get (store (ReapExpired pk now ks s)) k =
      (case Get (store s) k of None \<Rightarrow> None | Some q \<Rightarrow> if p_LeaseExpiry q \<le> now then None else Some q) \<and>
    taken (alloc (ReapExpired pk now ks s)) = insert (serverIP (alloc (ReapExpired pk now ks s)))
      {p_IP q |q k. Get (store s) k = Some q \<and> now < p_LeaseExpiry q}"
proof -
  note get = ReapExpired_Get [OF inv ks, of pk now]
  have "Get (store (ReapExpired pk now ks s)) k = Some q \<longleftrightarrow>
      Get (store s) k = Some q \<and> now < p_LeaseExpiry q" for k q
    by (auto simp: get split: option.splits)
  with get srv_inv_taken [OF ReapExpired_inv [OF inv ks, of pk now]] show ?thesis by simp
qed

theorem reap_exact_witness:
  "Get (store (ReapExpired plain_key (25 * hour) [''laptop''] sample_peer_srv)) ''laptop'' = None"
  using reap_exact [OF sample_peer_srv_inv sample_peers, of plain_key "25 * hour" "''laptop''"] by (simp add: store_simps)

text \<open>
  C13: Revocation. When a new list of registered keys has arrived and been reconciled, every
  device still enrolled is registered in that list, under the subject that enrolled it, with a
  registration and a list that have not expired; no record has been altered. A list that could
  not be fetched changes nothing at all.
\<close>

theorem refresh_revoked:
  assumes inv: "srv_inv p s" and ks: "ranges_over ks (peers (store s))" and r: "registry s = Some r"
  shows "(\<forall>k q. Get (store (refresh_turn pk now ks (Inr l) s)) k = Some q \<longrightarrow>
      Get (store s) k = Some q \<and> now < wl_Expires l \<and>
      (\<exists>w \<in> set (wl_Peers l). wg_Key w = k \<and> wg_Subject w = p_Subject q \<and> now < wg_Expires w)) \<and>
    refresh_turn pk now ks (Inl err) s = s"
proof -
  have "refresh_turn pk now ks (Inl err) s = s" using r by (simp add: refresh_turn_def Refresh_def)
  with refresh_revokes [OF inv ks r, of pk now l] show ?thesis by blast
qed

theorem refresh_revoked_witness:
  "Get (store (refresh_turn plain_key hour [''laptop'']
     (Inr \<lparr>wl_Version = 2, wl_Peers = [\<lparr>wg_Key = ''laptop'', wg_Subject = ''github:2'', wg_Expires = 9 * hour\<rparr>], wl_Expires = 2 * hour\<rparr>)
     (sample_peer_srv\<lparr>registry := Some New_Registry\<rparr>))) ''laptop'' = None"
proof -
  let ?s = "sample_peer_srv\<lparr>registry := Some New_Registry\<rparr>"
  have i: "srv_inv 24 ?s" using sample_peer_srv_inv by (simp add: srv_inv_registry)
  have k: "ranges_over [''laptop''] (peers (store ?s))" using sample_peers by simp
  have g: "Get (store ?s) ''laptop'' = Some sample_peer" by (simp add: store_simps)
  let ?l = "\<lparr>wl_Version = 2, wl_Peers = [\<lparr>wg_Key = ''laptop'', wg_Subject = ''github:2'', wg_Expires = 9 * hour\<rparr>], wl_Expires = 2 * hour\<rparr>"
  have "registry ?s = Some New_Registry" by simp
  note r = conjunct1 [OF refresh_revoked [OF i k this, of plain_key hour ?l "[]"], rule_format]
  show ?thesis
  proof (rule ccontr)
    assume "\<not> ?thesis"
    then obtain q where q: "Get (store (refresh_turn plain_key hour [''laptop''] (Inr ?l) ?s)) ''laptop'' = Some q" by blast
    from r [OF q] g have "q = sample_peer" "p_Subject q = ''github:2''" by auto
    then show False by simp
  qed
qed

text \<open>
  C14: A device nobody speaks for is dropped. Along a run without a 500, in which no request names
  the key any more, the first reap at or after the end of the lease its record has leaves no
  record of it, and so does every later state; the end of that lease is never further away than
  the configured time.
\<close>

theorem silent_device_dropped:
  assumes run: "sys_run pk verify S es S1" "sys_step pk verify S1 Reaped S2" "sys_run pk verify S2 es' S'"
    and inv: "sys_inv p S" and quiet: "\<forall>e \<in> set es \<union> set es'. calm e \<and> \<not> touches k e"
    and late: "\<And>q. Get (store (sy_srv S)) k = Some q \<Longrightarrow> p_LeaseExpiry q \<le> sy_now S1"
  shows "Get (store (sy_srv S')) k = None \<and>
    (\<forall>q. Get (store (sy_srv S)) k = Some q \<longrightarrow> p_LeaseExpiry q \<le> sy_now S + LeaseTTL (cfg (sy_srv S)))"
proof (rule conjI, rule ccontr)
  assume "Get (store (sy_srv S')) k \<noteq> None"
  then obtain q where q': "Get (store (sy_srv S')) k = Some q" by blast
  have i1: "sys_inv p S1" using sys_inv_run [OF run(1) inv] quiet by blast
  have i2: "sys_inv p S2" using sys_inv_step [OF run(2) i1] by (simp add: calm_def)
  have q2: "Get (store (sy_srv S2)) k = Some q" using untouched_run [OF run(3) i2 _ q'] quiet by blast
  from run(2) obtain ks where ks: "ranges_over ks (peers (store (sy_srv S1)))"
    and S2: "S2 = S1\<lparr>sy_srv := ReapExpired pk (sy_now S1) ks (sy_srv S1)\<rparr>" by (elim sys_reapE)
  have "srv_inv p (sy_srv S1)" using i1 by (simp add: sys_inv_def)
  from ReapExpired_Get [OF this ks, of pk "sy_now S1" k] q2
  have q1: "Get (store (sy_srv S1)) k = Some q" and "sy_now S1 < p_LeaseExpiry q"
    by (auto simp: S2 split: option.splits if_splits)
  moreover have "Get (store (sy_srv S)) k = Some q" using untouched_run [OF run(1) inv _ q1] quiet by blast
  ultimately show False using late [of q] by simp
qed (use inv in \<open>auto simp: sys_inv_def leases_bounded_def\<close>)

theorem silent_device_dropped_witness:
  "\<exists>S1 S2. sys_run plain_key sample_verify sample_system [Tick] S1 \<and> sys_step plain_key sample_verify S1 Reaped S2 \<and>
     Get (store (sy_srv S2)) ''laptop'' = None"
proof -
  define S1 where "S1 = sample_system\<lparr>sy_now := 25 * hour\<rparr>"
  define S2 where "S2 = S1\<lparr>sy_srv := ReapExpired plain_key (sy_now S1) [''laptop''] (sy_srv S1)\<rparr>"
  have "sys_step plain_key sample_verify sample_system Tick S1"
    unfolding S1_def by (rule sys_step.tick) (simp add: sample_system_def hour_def second_def)
  then have r1: "sys_run plain_key sample_verify sample_system [Tick] S1"
    using sys_run.step [OF sys_run.start, of plain_key sample_verify sample_system Tick S1] by simp
  have s2: "sys_step plain_key sample_verify S1 Reaped S2"
    unfolding S2_def using sample_peers by (intro sys_step.reap) (simp add: S1_def sample_system_def)
  have "Get (store (sy_srv S2)) ''laptop'' = None"
    using silent_device_dropped [OF r1 s2 sys_run.start sample_sys_inv, of "''laptop''"]
    by (auto simp: calm_def touches_def S1_def sample_system_def store_simps)
  with r1 s2 show ?thesis by blast
qed

text \<open>
  Leases. A lease that an enrolment or a heartbeat grants ends no later than the configured
  time from now; under a registry the key is registered at this moment to the person it is
  granted to and the lease ends no later than that registration; and while the configured time
  is positive, a lease granted has not ended yet.
\<close>

theorem lease_granted:
  assumes "registered now s k claims (now + LeaseTTL (cfg s)) = Some e"
  shows "e \<le> now + LeaseTTL (cfg s) \<and> (0 < LeaseTTL (cfg s) \<longrightarrow> now < e) \<and>
    (\<forall>r. registry s = Some r \<longrightarrow> Allowed now r k (c_Subject claims) \<and>
       (\<exists>w. Lookup now r k = Some w \<and> e \<le> wg_Expires w))"
  using registered_Some [OF assms] registered_running [OF assms]
  by (fastforce simp: Allowed_def)

theorem lease_granted_witness:
  "25 * hour \<le> hour + LeaseTTL (cfg sample_srv) \<and> hour < 25 * hour"
proof -
  have "registered hour sample_srv (er_PublicKey (sample_req ''laptop'')) alice (hour + LeaseTTL (cfg sample_srv)) = Some (25 * hour)"
    using sample_admitted unfolding admitted_def by blast
  moreover have "0 < LeaseTTL (cfg sample_srv)"
    by (simp add: sample_srv_def New_Server_simps hour_def second_def)
  ultimately show ?thesis using lease_granted [of hour sample_srv "er_PublicKey (sample_req ''laptop'')" alice "25 * hour"] by blast
qed

end
